(* ===== verification/Prelude.thy ===== *)
theory Prelude
  imports Main "HOL-Library.Word" "HOL-Library.AList" "HOL-Library.Sublist"
begin

text \<open>
  Shared vocabulary of the development: Go's machine integers, Go maps, and the parts of
  \<^verbatim>\<open>strings\<close> and \<^verbatim>\<open>strconv\<close> that the repository calls, each with
  the lemmas that the components share.

  \<^item> \<open>int64\<close> is \<open>64 word\<close>: \<open>+\<close> and \<open>-\<close> wrap as in Go, \<open>sint\<close> reads the signed value.
    A Go \<open>int\<close> that is only compared or copied is an \<open>int\<close>; where it comes from text,
    \<open>atoi\<close> checks the 64-bit range as \<^verbatim>\<open>strconv.Atoi\<close> does.
  \<^item> A Go map is an association list with distinct keys. The order of the list stands for
    the iteration order the runtime happens to pick, so a statement for every list is a
    statement for every order.
  \<^item> A Go string is its list of bytes. \<open>to_lower\<close> and \<open>trim_space\<close> act on the ASCII range;
    the non-ASCII case and white-space tables of Go's \<^verbatim>\<open>unicode\<close> package are left out.
\<close>

named_theorems gomap_simps \<open>lookup and key-set equations of Go maps\<close>
named_theorems gostr_simps \<open>equations of the string functions\<close>

section \<open>Machine integers\<close>

type_synonym int64 = "64 word"

definition max_int64 :: int where
  "max_int64 = 9223372036854775807"

definition min_int64 :: int where
  "min_int64 = - 9223372036854775808"

definition in_int64 :: "int \<Rightarrow> bool" where
  "in_int64 i \<longleftrightarrow> min_int64 \<le> i \<and> i \<le> max_int64"

definition pos64 :: "int64 \<Rightarrow> bool" where
  "pos64 w \<longleftrightarrow> 0 < sint w"

lemma pos64_zero [simp]: "\<not> pos64 0"
  by (simp add: pos64_def)

lemma sint_range64: "in_int64 (sint (w :: int64))"
  using sint_range_size [of w] by (simp add: in_int64_def min_int64_def max_int64_def word_size)

lemma sint_of_int64: "in_int64 i \<Longrightarrow> sint (word_of_int i :: int64) = i"
  by (simp add: sint_sbintrunc' signed_take_bit_int_eq_self_iff in_int64_def min_int64_def max_int64_def)

lemma nth_update_if: "xs[i := x] ! j = (if i = j \<and> j < length xs then x else xs ! j)"
  by (cases "i < length xs") (auto simp: nth_list_update list_update_beyond)

section \<open>Go maps\<close>

type_synonym ('k, 'v) gomap = "('k \<times> 'v) list"

abbreviation keys :: "('k, 'v) gomap \<Rightarrow> 'k list" where
  "keys m \<equiv> map fst m"

abbreviation wf_map :: "('k, 'v) gomap \<Rightarrow> bool" where
  "wf_map m \<equiv> distinct (keys m)"

abbreviation mget :: "('k, 'v) gomap \<Rightarrow> 'k \<Rightarrow> 'v option" where
  "mget m k \<equiv> map_of m k"

abbreviation mput :: "'k \<Rightarrow> 'v \<Rightarrow> ('k, 'v) gomap \<Rightarrow> ('k, 'v) gomap" where
  "mput k v m \<equiv> AList.update k v m"

abbreviation mdel :: "'k \<Rightarrow> ('k, 'v) gomap \<Rightarrow> ('k, 'v) gomap" where
  "mdel k m \<equiv> AList.delete k m"

lemma mget_mput [gomap_simps]: "mget (mput k v m) k' = (if k' = k then Some v else mget m k')"
  by (simp add: update_conv')

lemma mget_mdel [gomap_simps]: "mget (mdel k m) k' = (if k' = k then None else mget m k')"
  by (simp add: delete_conv')

lemma wf_mput [simp]: "wf_map (mput k v m) = wf_map m"
proof -
  have "distinct (keys (mput k v m)) \<longleftrightarrow> distinct (keys m)" if "k \<notin> set (keys m)"
    using that by (induction m) (auto simp: update_keys)
  moreover have "keys (mput k v m) = keys m" if "k \<in> set (keys m)"
    using that by (induction m) auto
  ultimately show ?thesis by metis
qed

lemma wf_mdel [intro, simp]: "wf_map m \<Longrightarrow> wf_map (mdel k m)"
  by (simp add: distinct_delete)

lemma keys_mput: "keys (mput k v m) = (if k \<in> set (keys m) then keys m else keys m @ [k])"
  by (induction m) auto

lemma mput_new: "k \<notin> set (keys m) \<Longrightarrow> mput k v m = m @ [(k, v)]"
  by (induction m) auto

lemma set_keys_mput [gomap_simps]: "set (keys (mput k v m)) = insert k (set (keys m))"
  by (auto simp: keys_mput)

lemma set_keys_mdel [gomap_simps]: "set (keys (mdel k m)) = set (keys m) - {k}"
  by (induction m) auto

lemma set_mput_sub: "set (mput k v m) \<subseteq> insert (k, v) (set m)"
  by (induction m) auto

lemma set_mdel_sub: "set (mdel k m) \<subseteq> set m"
  by (induction m) auto

lemma dom_mput [gomap_simps]: "dom (mget (mput k v m)) = insert k (dom (mget m))"
  by (auto simp: update_conv')

lemma dom_mdel [gomap_simps]: "dom (mget (mdel k m)) = dom (mget m) - {k}"
  by (auto simp: delete_conv' dom_def)

lemma dom_mget: "k \<in> dom (mget m) \<longleftrightarrow> k \<in> set (keys m)"
  by (simp add: dom_map_of_conv_image_fst)

lemma length_mdel_le: "length (mdel k m) \<le> length m"
  by (rule length_delete_le)

lemma length_mput: "length (mput k v m) = (if k \<in> set (keys m) then length m else Suc (length m))"
proof -
  have "length (keys (mput k v m)) = (if k \<in> set (keys m) then length (keys m) else Suc (length (keys m)))"
    by (simp add: keys_mput)
  then show ?thesis by simp
qed

lemma mget_None_iff: "mget m k = None \<longleftrightarrow> k \<notin> set (keys m)"
  by (simp add: map_of_eq_None_iff)

lemma mget_Some_in: "mget m k = Some v \<Longrightarrow> (k, v) \<in> set m"
  by (rule map_of_SomeD)

lemma mget_Some_key: "mget m k = Some v \<Longrightarrow> k \<in> set (keys m)"
  by (force dest: map_of_SomeD)

lemma in_mget: "wf_map m \<Longrightarrow> (k, v) \<in> set m \<Longrightarrow> mget m k = Some v"
  by (rule map_of_is_SomeI)

lemma mget_map_val [gomap_simps]:
  "mget (map (\<lambda>(k, v). (k, f v)) m) k = map_option f (mget m k)"
  by (induction m) auto

lemma mget_filter [gomap_simps]:
  "wf_map m \<Longrightarrow> mget (filter P m) k =
     (case mget m k of None \<Rightarrow> None | Some v \<Rightarrow> if P (k, v) then Some v else None)"
proof (induction m)
  case (Cons p m)
  obtain k' v' where p: "p = (k', v')" by (cases p)
  show ?case
  proof (cases "k = k'")
    case True
    then have "mget m k = None" using Cons.prems p by (simp add: map_of_eq_None_iff)
    then show ?thesis using Cons True p by auto
  next
    case False
    then show ?thesis using Cons p by auto
  qed
qed simp

lemma wf_filter [intro, simp]: "wf_map m \<Longrightarrow> wf_map (filter P m)"
  by (induction m) auto

lemma fst_comp_val [simp]: "fst \<circ> (\<lambda>(k, v). (k, f k v)) = fst"
  by auto

end
