(* ===== verification/GoString.thy ===== *)
theory GoString
  imports Prelude
begin

text \<open>
  The functions of Go's \<^verbatim>\<open>strings\<close> and \<^verbatim>\<open>strconv\<close> packages that the
  repository calls, on strings as byte lists: \<open>to_lower\<close>, \<open>trim_space\<close>,
  \<open>trim_right_slash\<close>, \<open>contains\<close>, \<open>atoi\<close> (\<^verbatim>\<open>strconv.Atoi\<close>, with its
  range check) and \<open>itoa\<close>, with the round trip from integers to text and back.
\<close>

definition is_digit :: "char \<Rightarrow> bool" where
  "is_digit c \<longleftrightarrow> 48 \<le> (of_char c :: nat) \<and> of_char c \<le> (57 :: nat)"

definition digit_val :: "char \<Rightarrow> nat" where
  "digit_val c = of_char c - 48"

definition lower_char :: "char \<Rightarrow> char" where
  "lower_char c = (if 65 \<le> (of_char c :: nat) \<and> of_char c \<le> (90 :: nat)
     then char_of ((of_char c :: nat) + 32) else c)"

definition to_lower :: "string \<Rightarrow> string" where
  "to_lower s = map lower_char s"

definition is_space :: "char \<Rightarrow> bool" where
  "is_space c \<longleftrightarrow> of_char c \<in> {9, 10, 11, 12, 13, 32 :: nat}"

definition trim_space :: "string \<Rightarrow> string" where
  "trim_space s = rev (dropWhile is_space (rev (dropWhile is_space s)))"

definition trim_right_slash :: "string \<Rightarrow> string" where
  "trim_right_slash s = rev (dropWhile (\<lambda>c. c = CHR ''/'') (rev s))"

fun contains :: "string \<Rightarrow> string \<Rightarrow> bool" where
  "contains [] sub \<longleftrightarrow> sub = []"
| "contains (c # cs) sub \<longleftrightarrow> take (length sub) (c # cs) = sub \<or> contains cs sub"

fun first_non_empty :: "string list \<Rightarrow> string" where
  "first_non_empty [] = []"
| "first_non_empty (v # vs) = (if v \<noteq> [] then v else first_non_empty vs)"

lemma first_non_empty_in: "first_non_empty vs \<noteq> [] \<Longrightarrow> first_non_empty vs \<in> set vs"
  by (induction vs) auto

lemma first_non_empty_Nil_iff [gostr_simps]: "first_non_empty vs = [] \<longleftrightarrow> (\<forall>v \<in> set vs. v = [])"
  by (induction vs) auto

lemma lower_char_idem [simp]: "lower_char (lower_char c) = lower_char c"
proof (cases "65 \<le> (of_char c :: nat) \<and> of_char c \<le> (90 :: nat)")
  case True
  then have "of_char (lower_char c) = (of_char c :: nat) + 32"
    by (simp add: lower_char_def)
  with True show ?thesis by (subst lower_char_def) simp
next
  case False
  then show ?thesis by (auto simp: lower_char_def)
qed

lemma is_space_lower [simp]: "is_space (lower_char c) = is_space c"
proof (cases "65 \<le> (of_char c :: nat) \<and> of_char c \<le> (90 :: nat)")
  case True
  then have "of_char (lower_char c) = (of_char c :: nat) + 32"
    by (simp add: lower_char_def)
  with True show ?thesis by (auto simp: is_space_def)
qed (auto simp: lower_char_def)

lemma to_lower_idem [gostr_simps]: "to_lower (to_lower s) = to_lower s"
  by (simp add: to_lower_def comp_def)

lemma trim_space_lower: "trim_space (to_lower s) = to_lower (trim_space s)"
  by (simp add: trim_space_def to_lower_def rev_map dropWhile_map comp_def)

lemma dropWhile_rev_dropWhile:
  "dropWhile P (rev (dropWhile P (rev (dropWhile P s)))) = rev (dropWhile P (rev (dropWhile P s)))"
proof (cases "dropWhile P s")
  case (Cons x xs)
  then have nx: "\<not> P x" by (metis hd_dropWhile list.discI list.sel(1))
  have "dropWhile P (rev (x # xs)) = dropWhile P (rev xs) @ [x] \<or> dropWhile P (rev (x # xs)) = [x]"
    using nx by (auto simp: dropWhile_append)
  with Cons nx show ?thesis by auto
next
  case Nil
  then show ?thesis by (simp only: Nil dropWhile.simps rev.simps)
qed

lemma trim_space_idem [gostr_simps]: "trim_space (trim_space s) = trim_space s"
  unfolding trim_space_def by (metis dropWhile_idem dropWhile_rev_dropWhile rev_rev_ident)

section \<open>Decimal numbers\<close>

definition digits_val :: "string \<Rightarrow> nat" where
  "digits_val s = foldl (\<lambda>a c. 10 * a + digit_val c) 0 s"

definition is_digits :: "string \<Rightarrow> bool" where
  "is_digits s \<longleftrightarrow> s \<noteq> [] \<and> list_all is_digit s"

definition atoi :: "string \<Rightarrow> int option" where
  "atoi s = (let (neg, body) =
       (case s of [] \<Rightarrow> (False, [])
        | c # cs \<Rightarrow> if c = CHR ''-'' then (True, cs) else if c = CHR ''+'' then (False, cs) else (False, s));
       v = (if neg then - int (digits_val body) else int (digits_val body))
     in if is_digits body \<and> in_int64 v then Some v else None)"

fun nat_itoa :: "nat \<Rightarrow> string" where
  "nat_itoa n = (if n < 10 then [char_of (48 + n)] else nat_itoa (n div 10) @ [char_of (48 + n mod 10)])"

declare nat_itoa.simps [simp del]

definition itoa :: "int \<Rightarrow> string" where
  "itoa i = (if i < 0 then CHR ''-'' # nat_itoa (nat (- i)) else nat_itoa (nat i))"

lemma digits_val_ge: "foldl (\<lambda>a c. 10 * a + digit_val c) n s \<ge> n"
proof (induction s arbitrary: n)
  case (Cons c s)
  from Cons [of "10 * n + digit_val c"] show ?case by simp
qed simp

lemma digit_char:
  assumes "d < 10"
  shows "is_digit (char_of (48 + d))" and "digit_val (char_of (48 + d)) = d"
  using assms by (auto simp: is_digit_def digit_val_def)

lemma digits_val_snoc: "digits_val (s @ [c]) = 10 * digits_val s + digit_val c"
  by (simp add: digits_val_def)

lemma digits_nat_itoa: "list_all is_digit (nat_itoa n) \<and> digits_val (nat_itoa n) = n \<and> nat_itoa n \<noteq> []"
proof (induction n rule: nat_itoa.induct)
  case (1 n)
  show ?case
  proof (cases "n < 10")
    case True
    then show ?thesis
      by (simp add: nat_itoa.simps [of n] digit_char digits_val_def)
  next
    case False
    with 1 show ?thesis
      by (simp add: nat_itoa.simps [of n] digits_val_snoc digit_char)
  qed
qed

lemma is_digits_nat_itoa [simp]: "is_digits (nat_itoa n)"
  using digits_nat_itoa by (simp add: is_digits_def)

lemma digits_val_nat_itoa [simp]: "digits_val (nat_itoa n) = n"
  using digits_nat_itoa by simp

lemma nat_itoa_hd: "\<exists>c cs. nat_itoa n = c # cs \<and> is_digit c"
  using digits_nat_itoa [of n] by (cases "nat_itoa n") auto

lemma sign_not_digit [simp]: "\<not> is_digit CHR ''-''" "\<not> is_digit CHR ''+''"
  by (simp_all add: is_digit_def)

lemma atoi_digits:
  assumes "is_digits s"
  shows "atoi s = (if int (digits_val s) \<le> max_int64 then Some (int (digits_val s)) else None)"
proof -
  obtain c cs where s: "s = c # cs" and d: "is_digit c"
    using assms by (cases s) (auto simp: is_digits_def)
  have "c \<noteq> CHR ''-''" "c \<noteq> CHR ''+''" using d by auto
  then have "atoi s = (if is_digits s \<and> in_int64 (int (digits_val s)) then Some (int (digits_val s)) else None)"
    by (simp add: atoi_def s Let_def)
  then show ?thesis using assms by (auto simp: in_int64_def min_int64_def)
qed

lemma atoi_itoa:
  assumes "in_int64 i"
  shows "atoi (itoa i) = Some i"
proof (cases "i < 0")
  case True
  then show ?thesis using assms by (simp add: atoi_def itoa_def)
next
  case False
  then show ?thesis using assms by (simp add: itoa_def atoi_digits in_int64_def)
qed

lemma atoi_in_range: "atoi s = Some i \<Longrightarrow> in_int64 i"
  by (auto simp: atoi_def Let_def split: prod.splits if_splits)

lemma itoa_inj_on: "in_int64 i \<Longrightarrow> in_int64 j \<Longrightarrow> itoa i = itoa j \<Longrightarrow> i = j"
  by (metis atoi_itoa option.inject)

lemma is_digits_itoa: "0 \<le> i \<Longrightarrow> is_digits (itoa i)"
  by (simp add: itoa_def)

lemmas atoi_eval = atoi_def is_digits_def digits_val_def is_digit_def digit_val_def in_int64_def min_int64_def max_int64_def

end
