(* ===== verification/Traffic.thy ===== *)
theory Traffic
  imports GoString
begin

text \<open>
  \<^verbatim>\<open>counter/counter.go\<close>: the per-user traffic accounting of one inbound.
  A \<open>tcounter\<close> is a \<^verbatim>\<open>TrafficCounter\<close>: \<open>counters\<close> is its map from users to
  pointers and \<open>heap\<close> holds the \<^verbatim>\<open>TrafficStorage\<close> objects the pointers name,
  because connections keep such a pointer after the map has dropped the entry.
  The lemmas relate every operation to \<open>pending\<close>, the traffic counted and not yet
  committed.
\<close>

section \<open>State\<close>

record storage =
  up_counter :: int64
  down_counter :: int64
  committed_up :: int64
  committed_down :: int64

record tcounter =
  heap :: "storage list"
  counters :: "(string, nat) gomap"

type_synonym pair64 = "int64 \<times> int64"
type_synonym snapshot = "(string, pair64) gomap"

definition zero_storage :: storage where
  "zero_storage = \<lparr>up_counter = 0, down_counter = 0, committed_up = 0, committed_down = 0\<rparr>"

definition new_traffic_counter :: tcounter where
  "new_traffic_counter = \<lparr>heap = [], counters = []\<rparr>"

section \<open>Operations of TrafficCounter\<close>

definition get_counter :: "tcounter \<Rightarrow> string \<Rightarrow> nat \<times> tcounter" where
  "get_counter c user = (case mget (counters c) user of
     Some a \<Rightarrow> (a, c)
   | None \<Rightarrow> (length (heap c),
       c\<lparr>heap := heap c @ [zero_storage], counters := mput user (length (heap c)) (counters c)\<rparr>))"

definition snapshot :: "tcounter \<Rightarrow> bool \<Rightarrow> snapshot" where
  "snapshot c reset = map (\<lambda>(user, a). (user, (up_counter (heap c ! a), down_counter (heap c ! a)))) (counters c)"

definition storage_delta :: "storage \<Rightarrow> pair64" where
  "storage_delta s = (up_counter s - committed_up s, down_counter s - committed_down s)"

definition has_delta :: "pair64 \<Rightarrow> bool" where
  "has_delta d \<longleftrightarrow> pos64 (fst d) \<or> pos64 (snd d)"

definition snapshot_delta :: "tcounter \<Rightarrow> snapshot" where
  "snapshot_delta c = filter (\<lambda>(user, d). has_delta d)
     (map (\<lambda>(user, a). (user, storage_delta (heap c ! a))) (counters c))"

definition commit_storage :: "pair64 \<Rightarrow> storage \<Rightarrow> storage" where
  "commit_storage d s = s\<lparr>committed_up := committed_up s + fst d, committed_down := committed_down s + snd d\<rparr>"

definition commit_user :: "string \<times> pair64 \<Rightarrow> tcounter \<Rightarrow> tcounter" where
  "commit_user = (\<lambda>(user, d) c. case mget (counters c) user of
     Some a \<Rightarrow> c\<lparr>heap := (heap c)[a := commit_storage d (heap c ! a)]\<rparr>
   | None \<Rightarrow> c)"

definition commit_snapshot :: "tcounter \<Rightarrow> snapshot \<Rightarrow> tcounter" where
  "commit_snapshot c snap = fold commit_user snap c"

definition settled :: "storage \<Rightarrow> bool" where
  "settled s \<longleftrightarrow> up_counter s = committed_up s \<and> down_counter s = committed_down s"

definition remove_absent :: "tcounter \<Rightarrow> string list \<Rightarrow> tcounter" where
  "remove_absent c active = c\<lparr>counters :=
     filter (\<lambda>(user, a). user \<in> set active \<or> \<not> settled (heap c ! a)) (counters c)\<rparr>"

section \<open>Counting connections\<close>

text \<open>
  A \<^verbatim>\<open>ConnCounter\<close> or \<^verbatim>\<open>PacketConnCounter\<close> holds the address of one
  storage. Its methods call the wrapped connection, whose result \<open>(n, err)\<close> they receive
  (\<open>failed\<close> says \<^verbatim>\<open>err != nil\<close>), and add to one of the counters.
\<close>

definition add_up :: "nat \<Rightarrow> int64 \<Rightarrow> tcounter \<Rightarrow> tcounter" where
  "add_up a n c = c\<lparr>heap := (heap c)[a := (heap c ! a)\<lparr>up_counter := up_counter (heap c ! a) + n\<rparr>]\<rparr>"

definition add_down :: "nat \<Rightarrow> int64 \<Rightarrow> tcounter \<Rightarrow> tcounter" where
  "add_down a n c = c\<lparr>heap := (heap c)[a := (heap c ! a)\<lparr>down_counter := down_counter (heap c ! a) + n\<rparr>]\<rparr>"

definition conn_read :: "nat \<Rightarrow> int \<Rightarrow> tcounter \<Rightarrow> tcounter" where
  "conn_read a n c = (if 0 < n then add_up a (word_of_int n) c else c)"

definition conn_write :: "nat \<Rightarrow> int \<Rightarrow> tcounter \<Rightarrow> tcounter" where
  "conn_write a n c = (if 0 < n then add_down a (word_of_int n) c else c)"

definition conn_read_buffer :: "nat \<Rightarrow> bool \<Rightarrow> int \<Rightarrow> tcounter \<Rightarrow> tcounter" where
  "conn_read_buffer a failed len_after c =
     (if \<not> failed \<and> 0 < len_after then add_up a (word_of_int len_after) c else c)"

definition conn_write_buffer :: "nat \<Rightarrow> bool \<Rightarrow> int \<Rightarrow> tcounter \<Rightarrow> tcounter" where
  "conn_write_buffer a failed len_before c =
     (if \<not> failed \<and> 0 < len_before then add_down a (word_of_int len_before) c else c)"

definition read_packet :: "nat \<Rightarrow> bool \<Rightarrow> int \<Rightarrow> tcounter \<Rightarrow> tcounter" where
  "read_packet a failed len_after c =
     (if \<not> failed \<and> 0 < len_after then add_up a (word_of_int len_after) c else c)"

definition write_packet :: "nat \<Rightarrow> bool \<Rightarrow> int \<Rightarrow> tcounter \<Rightarrow> tcounter" where
  "write_packet a failed len_before c =
     (if \<not> failed \<and> 0 < len_before then add_down a (word_of_int len_before) c else c)"

section \<open>Well-formed counters\<close>

definition wf_counter :: "tcounter \<Rightarrow> bool" where
  "wf_counter c \<longleftrightarrow> wf_map (counters c) \<and> distinct (map snd (counters c))
     \<and> (\<forall>a \<in> set (map snd (counters c)). a < length (heap c))"

lemma wf_counterD:
  assumes "wf_counter c"
  shows "wf_map (counters c)" and "mget (counters c) u = Some a \<Longrightarrow> a < length (heap c)"
    and "mget (counters c) u = Some a \<Longrightarrow> mget (counters c) v = Some a \<Longrightarrow> u = v"
proof -
  show "wf_map (counters c)" using assms by (simp add: wf_counter_def)
  show "mget (counters c) u = Some a \<Longrightarrow> a < length (heap c)"
    using assms by (force simp: wf_counter_def dest: map_of_SomeD)
  show "mget (counters c) u = Some a \<Longrightarrow> mget (counters c) v = Some a \<Longrightarrow> u = v"
    using assms by (fastforce simp: wf_counter_def distinct_map inj_on_def dest!: map_of_SomeD)
qed

lemma wf_new [simp]: "wf_counter new_traffic_counter"
  by (simp add: wf_counter_def new_traffic_counter_def)

lemma wf_heap_update [simp]: "wf_counter (c\<lparr>heap := (heap c)[a := s]\<rparr>) = wf_counter c"
  by (simp add: wf_counter_def)

lemma wf_add [simp]: "wf_counter (add_up a n c) = wf_counter c" "wf_counter (add_down a n c) = wf_counter c"
  by (simp_all add: add_up_def add_down_def)

lemma wf_get_counter:
  assumes "wf_counter c"
  shows "wf_counter (snd (get_counter c user))"
proof (cases "mget (counters c) user")
  case None
  then have new: "user \<notin> set (keys (counters c))" by (simp add: mget_None_iff)
  have "length (heap c) \<notin> snd ` set (counters c)"
    using assms by (auto simp: wf_counter_def)
  with assms new show ?thesis
    by (auto simp: wf_counter_def get_counter_def None mput_new)
qed (use assms in \<open>simp add: get_counter_def\<close>)

lemma wf_commit_user [simp]: "wf_counter (commit_user x c) = wf_counter c"
  by (auto simp: commit_user_def split: prod.splits option.splits)

lemma wf_commit [simp]: "wf_counter (commit_snapshot c snap) = wf_counter c"
  unfolding commit_snapshot_def by (induction snap arbitrary: c) auto

lemma wf_remove_absent:
  assumes "wf_counter c"
  shows "wf_counter (remove_absent c active)"
  using assms by (auto simp: wf_counter_def remove_absent_def distinct_map intro: inj_on_subset)

section \<open>Pending traffic\<close>

definition padd :: "pair64 \<Rightarrow> pair64 \<Rightarrow> pair64" where
  "padd x y = (fst x + fst y, snd x + snd y)"

definition psub :: "pair64 \<Rightarrow> pair64 \<Rightarrow> pair64" where
  "psub x y = (fst x - fst y, snd x - snd y)"

definition pzero :: pair64 where
  "pzero = (0, 0)"

lemma pair64_simps [simp]:
  "padd x pzero = x" "padd pzero x = x" "psub x pzero = x" "psub x x = pzero"
  "psub (padd x y) y = x" "padd (psub x y) y = x" "padd y (psub x y) = x" "\<not> has_delta pzero"
  by (auto simp: padd_def psub_def pzero_def has_delta_def)

lemma padd_ac: "padd (padd x y) z = padd x (padd y z)" "padd x y = padd y x"
    "padd y (padd x z) = padd x (padd y z)"
  by (auto simp: padd_def)

lemma psub_padd: "psub (padd x y) z = padd (psub x z) y"
  by (auto simp: padd_def psub_def)

definition tracked :: "tcounter \<Rightarrow> string \<Rightarrow> bool" where
  "tracked c user \<longleftrightarrow> user \<in> set (keys (counters c))"

definition pending :: "tcounter \<Rightarrow> string \<Rightarrow> pair64" where
  "pending c user = (case mget (counters c) user of None \<Rightarrow> pzero | Some a \<Rightarrow> storage_delta (heap c ! a))"

definition reported :: "snapshot \<Rightarrow> string \<Rightarrow> pair64" where
  "reported snap user = (case mget snap user of None \<Rightarrow> pzero | Some d \<Rightarrow> d)"

lemma tracked_iff: "tracked c user \<longleftrightarrow> (\<exists>a. mget (counters c) user = Some a)"
  by (metis mget_None_iff not_None_eq tracked_def)

lemma wf_snapshot_delta [simp]: "wf_counter c \<Longrightarrow> wf_map (snapshot_delta c)"
  unfolding snapshot_delta_def by (rule wf_filter) (simp add: wf_counterD)

lemma mget_snapshot_delta:
  assumes "wf_counter c"
  shows "mget (snapshot_delta c) user = (if has_delta (pending c user) then Some (pending c user) else None)"
proof -
  have "wf_map (map (\<lambda>(user, a). (user, storage_delta (heap c ! a))) (counters c))"
    by (simp add: wf_counterD assms)
  then show ?thesis
    by (simp add: snapshot_delta_def gomap_simps pending_def split: option.split)
qed

lemma reported_snapshot_delta:
  "wf_counter c \<Longrightarrow> reported (snapshot_delta c) user = (if has_delta (pending c user) then pending c user else pzero)"
  by (simp add: reported_def mget_snapshot_delta)

lemma has_delta_tracked: "has_delta (pending c user) \<Longrightarrow> tracked c user"
  by (auto simp: pending_def tracked_iff split: option.splits)

lemma pending_heap_update:
  assumes "wf_counter c" and "mget (counters c) user = Some a"
  shows "pending (c\<lparr>heap := (heap c)[a := s]\<rparr>) v = (if v = user then storage_delta s else pending c v)"
proof (cases "mget (counters c) v")
  case (Some b)
  then show ?thesis
    using wf_counterD(2,3) [OF assms(1)] assms(2) by (auto simp: pending_def nth_list_update)
qed (use assms in \<open>auto simp: pending_def\<close>)

lemma storage_delta_simps [simp]:
  "storage_delta (s\<lparr>up_counter := up_counter s + n\<rparr>) = padd (storage_delta s) (n, 0)"
  "storage_delta (s\<lparr>down_counter := down_counter s + n\<rparr>) = padd (storage_delta s) (0, n)"
  "storage_delta (commit_storage d s) = psub (storage_delta s) d"
  "storage_delta zero_storage = pzero"
  by (auto simp: storage_delta_def padd_def psub_def commit_storage_def zero_storage_def pzero_def)

lemma pending_commit_user:
  assumes "wf_counter c"
  shows "pending (commit_user (u, d) c) v = (if v = u \<and> tracked c u then psub (pending c v) d else pending c v)"
proof (cases "mget (counters c) u")
  case (Some a)
  then show ?thesis
    using assms by (auto simp: commit_user_def pending_heap_update tracked_iff) (simp add: pending_def)
qed (auto simp: commit_user_def tracked_iff)

lemma counters_commit_user [simp]: "counters (commit_user x c) = counters c"
  by (auto simp: commit_user_def split: prod.splits option.splits)

lemma counters_commit [simp]: "counters (commit_snapshot c snap) = counters c"
  unfolding commit_snapshot_def by (induction snap arbitrary: c) auto

lemma tracked_commit [simp]: "tracked (commit_snapshot c snap) u = tracked c u"
  by (simp add: tracked_def)

lemma commit_snapshot_Cons: "commit_snapshot c (x # snap) = commit_snapshot (commit_user x c) snap"
  by (simp add: commit_snapshot_def)

lemma pending_commit:
  assumes "wf_counter c" and "wf_map snap"
  shows "pending (commit_snapshot c snap) u =
    (if tracked c u then psub (pending c u) (reported snap u) else pending c u)"
  using assms
proof (induction snap arbitrary: c)
  case Nil
  then show ?case by (simp add: commit_snapshot_def reported_def)
next
  case (Cons x snap)
  obtain v d where x: "x = (v, d)" by (cases x)
  have tr: "tracked (commit_user x c) u = tracked c u" by (simp add: tracked_def)
  have "reported snap v = pzero"
    using Cons.prems(2) x by (simp add: reported_def mget_None_iff [THEN iffD2])
  moreover have "reported (x # snap) u = (if u = v then d else reported snap u)"
    by (auto simp: reported_def x)
  ultimately show ?case
    using Cons x tr by (auto simp: commit_snapshot_Cons pending_commit_user)
qed

section \<open>Traffic while a snapshot is in flight\<close>

text \<open>
  Between \<^verbatim>\<open>SnapshotDelta\<close> and \<^verbatim>\<open>CommitSnapshot\<close> the connections of
  the node go on: new ones fetch their counter, open ones add bytes to the storage they
  hold.
\<close>

datatype tevent = Connect string | Recv nat int64 | Sent nat int64

fun apply_event :: "tevent \<Rightarrow> tcounter \<Rightarrow> tcounter" where
  "apply_event (Connect user) c = snd (get_counter c user)"
| "apply_event (Recv a n) c = add_up a n c"
| "apply_event (Sent a n) c = add_down a n c"

definition run_events :: "tevent list \<Rightarrow> tcounter \<Rightarrow> tcounter" where
  "run_events evs c = fold apply_event evs c"

fun event_traffic :: "nat \<Rightarrow> tevent \<Rightarrow> pair64" where
  "event_traffic a (Connect user) = pzero"
| "event_traffic a (Recv b n) = (if a = b then (n, 0) else pzero)"
| "event_traffic a (Sent b n) = (if a = b then (0, n) else pzero)"

fun traffic_at :: "nat \<Rightarrow> tevent list \<Rightarrow> pair64" where
  "traffic_at a [] = pzero"
| "traffic_at a (e # evs) = padd (event_traffic a e) (traffic_at a evs)"

lemma run_events_simps [simp]:
  "run_events [] c = c" "run_events (e # evs) c = run_events evs (apply_event e c)"
  by (simp_all add: run_events_def)

lemma wf_apply_event [simp]: "wf_counter c \<Longrightarrow> wf_counter (apply_event e c)"
  by (cases e) (auto simp: wf_get_counter)

lemma wf_run_events [simp]: "wf_counter c \<Longrightarrow> wf_counter (run_events evs c)"
  by (induction evs arbitrary: c) auto

lemma mget_apply_event: "mget (counters c) u = Some a \<Longrightarrow> mget (counters (apply_event e c)) u = Some a"
  by (cases e) (auto simp: get_counter_def add_up_def add_down_def gomap_simps split: option.splits)

lemma mget_run_events: "mget (counters c) u = Some a \<Longrightarrow> mget (counters (run_events evs c)) u = Some a"
  by (induction evs arbitrary: c) (auto simp: mget_apply_event)

lemma pending_apply_event:
  assumes "wf_counter c" and "mget (counters c) u = Some a"
  shows "pending (apply_event e c) u = padd (pending c u) (event_traffic a e)"
proof (cases e)
  case (Connect v)
  then show ?thesis using assms wf_counterD(2) [OF assms]
    by (auto simp: get_counter_def pending_def gomap_simps nth_append split: option.split)
next
  case (Recv b n)
  show ?thesis
  proof (cases "a = b")
    case True
    then show ?thesis using Recv assms pending_heap_update [OF assms]
      by (simp add: add_up_def) (simp add: pending_def)
  next
    case False
    then show ?thesis using Recv assms by (simp add: add_up_def pending_def)
  qed
next
  case (Sent b n)
  show ?thesis
  proof (cases "a = b")
    case True
    then show ?thesis using Sent assms pending_heap_update [OF assms]
      by (simp add: add_down_def) (simp add: pending_def)
  next
    case False
    then show ?thesis using Sent assms by (simp add: add_down_def pending_def)
  qed
qed

lemma pending_run_events:
  assumes "wf_counter c" and "mget (counters c) u = Some a"
  shows "pending (run_events evs c) u = padd (pending c u) (traffic_at a evs)"
  using assms
proof (induction evs arbitrary: c)
  case (Cons e evs)
  then show ?case
    by (simp add: mget_apply_event pending_apply_event padd_ac)
qed simp

lemma pending_commit_in_flight:
  assumes "wf_counter c"
  shows "pending (commit_snapshot (run_events evs c) (snapshot_delta c)) u =
    psub (pending (run_events evs c) u) (reported (snapshot_delta c) u)"
proof (cases "tracked c u")
  case True
  then have "tracked (run_events evs c) u" by (auto simp: tracked_iff mget_run_events)
  then show ?thesis using assms by (simp add: pending_commit)
next
  case False
  then have "reported (snapshot_delta c) u = pzero"
    using assms has_delta_tracked by (auto simp: reported_snapshot_delta)
  then show ?thesis using assms by (simp add: pending_commit)
qed

text \<open>C1. Reporting and committing a snapshot loses no byte and bills no byte twice, whatever
  traffic arrives between the two: for a user with a counter, what was reported plus what is
  still pending afterwards is what was pending before plus the bytes counted meanwhile.\<close>

theorem commit_conserves_traffic:
  assumes "wf_counter c" and "mget (counters c) u = Some a"
  shows "padd (reported (snapshot_delta c) u)
      (pending (commit_snapshot (run_events evs c) (snapshot_delta c)) u)
    = padd (pending c u) (traffic_at a evs)"
  using assms by (simp add: pending_commit_in_flight pending_run_events padd_ac(2))

definition demo_counter :: tcounter where
  "demo_counter = \<lparr>heap = [\<lparr>up_counter = 70, down_counter = 20, committed_up = 30, committed_down = 20\<rparr>],
     counters = [(''7'', 0)]\<rparr>"

lemma wf_demo_counter: "wf_counter demo_counter" "mget (counters demo_counter) ''7'' = Some 0"
  by (simp_all add: wf_counter_def demo_counter_def)

theorem commit_conserves_traffic_witness:
  "padd (reported (snapshot_delta demo_counter) ''7'')
      (pending (commit_snapshot (run_events [Recv 0 5, Connect ''8'', Sent 0 9] demo_counter) (snapshot_delta demo_counter)) ''7'')
    = (45, 9)"
  by (simp only: commit_conserves_traffic [OF wf_demo_counter])
    (simp add: pending_def demo_counter_def storage_delta_def padd_def pzero_def)

text \<open>Dropping absent users changes no report: \<^verbatim>\<open>RemoveAbsent\<close> deletes an entry only
  when it has nothing to report, and keeps the entry of every active user.\<close>

theorem remove_absent_keeps_reports:
  "snapshot_delta (remove_absent c active) = snapshot_delta c
   \<and> filter (\<lambda>(u, a). u \<in> set active) (counters (remove_absent c active))
     = filter (\<lambda>(u, a). u \<in> set active) (counters c)"
proof
  have "filter (\<lambda>(user, d). has_delta d) (map (\<lambda>(user, a). (user, storage_delta (h ! a))) (filter (\<lambda>(user, a). user \<in> set active \<or> \<not> settled (h ! a)) m))
     = filter (\<lambda>(user, d). has_delta d) (map (\<lambda>(user, a). (user, storage_delta (h ! a))) m)" for h :: "storage list" and m
    by (induction m) (auto simp: settled_def storage_delta_def has_delta_def)
  then show "snapshot_delta (remove_absent c active) = snapshot_delta c"
    by (simp add: snapshot_delta_def remove_absent_def)
  show "filter (\<lambda>(u, a). u \<in> set active) (counters (remove_absent c active))
     = filter (\<lambda>(u, a). u \<in> set active) (counters c)"
    by (auto simp: remove_absent_def intro!: filter_cong)
qed

section \<open>Detached storage\<close>

text \<open>
  A connection outlives the map entry it was created from. Two counters are \<open>alike_but a\<close>
  when they differ at most in the object at address \<open>a\<close>, which no entry names.
\<close>

definition alike_but :: "nat \<Rightarrow> tcounter \<Rightarrow> tcounter \<Rightarrow> bool" where
  "alike_but a c d \<longleftrightarrow> counters c = counters d \<and> length (heap c) = length (heap d)
     \<and> a < length (heap c) \<and> a \<notin> snd ` set (counters c) \<and> (\<forall>b. b \<noteq> a \<longrightarrow> heap c ! b = heap d ! b)"

lemma alike_but_event:
  assumes "alike_but a c d"
  shows "alike_but a (apply_event e c) (apply_event e d)"
proof (cases e)
  case (Connect u)
  show ?thesis
  proof (cases "mget (counters c) u")
    case None
    then have "mput u l (counters c) = counters c @ [(u, l)]" for l
      by (simp add: mput_new mget_None_iff)
    then show ?thesis using assms Connect None
      by (auto simp: alike_but_def get_counter_def nth_append)
  next
    case (Some b)
    then show ?thesis using assms Connect by (auto simp: alike_but_def get_counter_def)
  qed
qed (use assms in \<open>auto simp: alike_but_def add_up_def add_down_def nth_update_if\<close>)

lemma alike_but_run: "alike_but a c d \<Longrightarrow> alike_but a (run_events evs c) (run_events evs d)"
  by (induction evs arbitrary: c d) (auto simp: alike_but_event)

lemma alike_but_delta:
  assumes "alike_but a c d"
  shows "snapshot_delta c = snapshot_delta d"
proof -
  have same: "heap c ! b = heap d ! b" if "(u, b) \<in> set (counters d)" for u b
  proof -
    have "b \<noteq> a" using assms that by (force simp: alike_but_def)
    then show ?thesis using assms by (simp add: alike_but_def)
  qed
  have "map (\<lambda>(u, b). (u, storage_delta (heap c ! b))) (counters d)
      = map (\<lambda>(u, b). (u, storage_delta (heap d ! b))) (counters d)"
    by (auto simp: same)
  moreover have "counters c = counters d" using assms by (simp add: alike_but_def)
  ultimately show ?thesis by (simp only: snapshot_delta_def)
qed

text \<open>C32. Traffic of a connection that is still open when its user's settled counter is dropped
  is never reported: bytes added through the old pointer change no later report, even after the
  user reconnects and gets a fresh counter.\<close>

theorem detached_traffic_unreported:
  assumes "wf_counter c" and "mget (counters c) u = Some a"
    and "u \<notin> set active" and "settled (heap c ! a)"
  shows "snapshot_delta (run_events evs (conn_write a n (conn_read a m (remove_absent c active))))
    = snapshot_delta (run_events evs (remove_absent c active))"
proof -
  let ?d = "remove_absent c active"
  have "a \<notin> snd ` set (counters ?d)"
  proof
    assume "a \<in> snd ` set (counters ?d)"
    then obtain v where v: "(v, a) \<in> set (counters c)" "v \<in> set active \<or> \<not> settled (heap c ! a)"
      by (auto simp: remove_absent_def)
    then have "v = u"
      using assms(1,2) by (meson in_mget wf_counterD(1,3))
    with v assms show False by simp
  qed
  moreover have "a < length (heap ?d)"
    using assms wf_counterD(2) by (simp add: remove_absent_def)
  ultimately have "alike_but a (conn_write a n (conn_read a m ?d)) ?d"
    by (auto simp: alike_but_def conn_write_def conn_read_def add_up_def add_down_def)
  then show ?thesis by (blast intro: alike_but_run alike_but_delta)
qed

definition settled_counter :: tcounter where
  "settled_counter = \<lparr>heap = [\<lparr>up_counter = 30, down_counter = 20, committed_up = 30, committed_down = 20\<rparr>],
     counters = [(''7'', 0)]\<rparr>"

theorem detached_traffic_unreported_witness:
  "snapshot_delta (run_events [Connect ''7''] (conn_write 0 500 (conn_read 0 40 (remove_absent settled_counter [])))) = []"
proof -
  have "wf_counter settled_counter" "mget (counters settled_counter) ''7'' = Some 0"
    "''7'' \<notin> set []" "settled (heap settled_counter ! 0)"
    by (simp_all add: wf_counter_def settled_counter_def settled_def)
  note detached_traffic_unreported [OF this, of "[Connect ''7'']" 500 40]
  then show ?thesis
    by (simp add: remove_absent_def settled_counter_def settled_def get_counter_def
        snapshot_delta_def has_delta_def storage_delta_def zero_storage_def)
qed

end
