(* ===== verification/Sync.thy ===== *)
theory Sync
  imports Traffic
begin

text \<open>
  \<^verbatim>\<open>panelapi/types.go\<close> and \<^verbatim>\<open>sync.go\<close>: the panel interface and the
  synchroniser that reports traffic to it.
  A panel is its state \<open>'p\<close> with two operations (\<open>panel_ops\<close>, the methods of Go's
  \<^verbatim>\<open>Panel\<close> interface); the synchroniser's callbacks work on an accounting state
  \<open>'s\<close>. The locale \<open>traffic_source\<close> is what the synchroniser relies on from the
  \<^verbatim>\<open>Snapshot\<close> and \<^verbatim>\<open>Commit\<close> callbacks.
\<close>

section \<open>Types\<close>

record user =
  ID :: int
  UUID :: string
  Password :: string
  Name :: string
  SpeedLimit :: int

type_synonym delta = "(string, snapshot) gomap"

record 'p panel_ops =
  fetch_users :: "'p \<Rightarrow> 'p \<times> user list option"
  push_traffic :: "delta \<Rightarrow> 'p \<Rightarrow> 'p \<times> bool"

text \<open>In \<open>panel_ops\<close> a failed fetch is \<open>None\<close> and a push returns whether its error is nil.\<close>

section \<open>Deltas\<close>

definition is_numeric_user :: "string \<Rightarrow> bool" where
  "is_numeric_user u \<longleftrightarrow> u \<noteq> [] \<and> list_all is_digit u"

definition wf_delta :: "delta \<Rightarrow> bool" where
  "wf_delta d \<longleftrightarrow> wf_map d \<and> (\<forall>(t, m) \<in> set d. wf_map m)"

definition reported_at :: "delta \<Rightarrow> string \<Rightarrow> string \<Rightarrow> pair64" where
  "reported_at d t u = (case mget d t of None \<Rightarrow> pzero | Some m \<Rightarrow> reported m u)"

definition flatten_user :: "string \<times> pair64 \<Rightarrow> snapshot \<Rightarrow> snapshot" where
  "flatten_user = (\<lambda>(u, v) out. if \<not> is_numeric_user u then out
     else mput u (padd (reported out u) v) out)"

definition flatten :: "delta \<Rightarrow> snapshot" where
  "flatten d = fold (\<lambda>(inbound, users) out. fold flatten_user users out) d []"

definition commit_delta :: "delta \<Rightarrow> delta" where
  "commit_delta d = filter (\<lambda>(t, m). m \<noteq> [])
     (map (\<lambda>(t, users). (t, filter (\<lambda>(u, v). is_numeric_user u) users)) d)"

definition has_traffic :: "delta \<Rightarrow> bool" where
  "has_traffic d \<longleftrightarrow> list_ex (\<lambda>(t, users). list_ex (\<lambda>(u, v). is_numeric_user u) users) d"

lemma is_numeric_is_digits: "is_numeric_user u = is_digits u"
  by (simp add: is_numeric_user_def is_digits_def)

lemma reported_filter_numeric:
  assumes "wf_map m"
  shows "reported (filter (\<lambda>(u, v). is_numeric_user u) m) u = (if is_numeric_user u then reported m u else pzero)"
  by (simp add: reported_def mget_filter [OF assms] split: option.split)

lemma wf_delta_get: "wf_delta d \<Longrightarrow> mget d t = Some m \<Longrightarrow> wf_map m"
  by (force simp: wf_delta_def dest: map_of_SomeD)

lemma wf_commit_delta:
  assumes "wf_delta d"
  shows "wf_delta (commit_delta d)"
proof -
  have "wf_map (map (\<lambda>(t, users). (t, filter (\<lambda>(u, v). is_numeric_user u) users)) d)"
    using assms by (simp add: wf_delta_def)
  then show ?thesis using assms by (auto simp: wf_delta_def commit_delta_def)
qed

lemma reported_commit_delta:
  assumes "wf_delta d"
  shows "reported_at (commit_delta d) t u = (if is_numeric_user u then reported_at d t u else pzero)"
proof -
  let ?num = "\<lambda>(t, users). (t, filter (\<lambda>(u, v). is_numeric_user u) users)"
  have wf: "wf_map (map ?num d)" using assms by (simp add: wf_delta_def)
  show ?thesis
  proof (cases "mget d t")
    case None
    then show ?thesis by (simp add: reported_at_def commit_delta_def mget_filter [OF wf] mget_map_val)
  next
    case (Some m)
    have "reported_at (commit_delta d) t u = reported (filter (\<lambda>(u, v). is_numeric_user u) m) u"
      by (auto simp: reported_at_def commit_delta_def mget_filter [OF wf] mget_map_val Some reported_def)
    then show ?thesis using Some wf_delta_get [OF assms Some]
      by (simp add: reported_at_def reported_filter_numeric)
  qed
qed

lemma mget_fold_flatten_user:
  assumes "wf_map m"
  shows "reported (fold flatten_user m out) u =
    padd (reported out u) (if is_numeric_user u then reported m u else pzero)"
  using assms
proof (induction m arbitrary: out)
  case (Cons x m)
  obtain v d where x: "x = (v, d)" by (cases x)
  have "reported m v = pzero"
    using Cons.prems x by (simp add: reported_def mget_None_iff [THEN iffD2])
  then show ?case using Cons x
    by (auto simp: flatten_user_def reported_def gomap_simps padd_ac split: option.splits)
qed (simp add: reported_def)

fun numeric_total :: "delta \<Rightarrow> string \<Rightarrow> pair64" where
  "numeric_total [] u = pzero"
| "numeric_total ((t, m) # d) u = padd (if is_numeric_user u then reported m u else pzero) (numeric_total d u)"

lemma reported_flatten_acc:
  assumes "wf_delta d"
  shows "reported (fold (\<lambda>(inbound, users) out. fold flatten_user users out) d out) u =
    padd (reported out u) (numeric_total d u)"
  using assms
proof (induction d arbitrary: out)
  case (Cons x d)
  obtain t m where x: "x = (t, m)" by (cases x)
  have "wf_map m" "wf_delta d" using Cons.prems x by (auto simp: wf_delta_def)
  then show ?case using Cons.IH by (simp add: x mget_fold_flatten_user padd_ac)
qed simp

lemma reported_flatten: "wf_delta d \<Longrightarrow> reported (flatten d) u = numeric_total d u"
  by (simp add: flatten_def reported_flatten_acc) (simp add: reported_def)

lemma has_traffic_commit_delta: "has_traffic d \<longleftrightarrow> commit_delta d \<noteq> []"
proof -
  have ex: "list_ex P xs \<longleftrightarrow> filter P xs \<noteq> []" for P and xs :: "'b list"
    by (induction xs) auto
  show ?thesis
    by (induction d) (simp_all add: has_traffic_def commit_delta_def ex split: prod.split)
qed

section \<open>The synchroniser\<close>

record ('p, 's) syncer =
  panel :: "'p panel_ops option"
  snapshot_cb :: "('s \<Rightarrow> delta) option"
  commit_cb :: "('s \<Rightarrow> delta \<Rightarrow> 's) option"
  users_cb :: "(user list \<Rightarrow> 's \<Rightarrow> 's) option"
  every :: int

text \<open>
  The callbacks and the panel may be nil. The error of the users callback is only logged, so
  the callback is a state transformer. \<open>env\<close> is what the connections of the node do to
  the accounting state while the push request is in flight.
\<close>

definition flush :: "('p, 's) syncer \<Rightarrow> ('s \<Rightarrow> 's) \<Rightarrow> 'p \<times> 's \<Rightarrow> 'p \<times> 's" where
  "flush sy env = (\<lambda>(p, s).
     case (panel sy, snapshot_cb sy, commit_cb sy) of
       (Some pan, Some snap, Some commit) \<Rightarrow>
         (let d = snap s in
          if d = [] then (p, s)
          else if \<not> has_traffic d then (p, s)
          else (case push_traffic pan d p of
              (p', False) \<Rightarrow> (p', env s)
            | (p', True) \<Rightarrow> (p', commit (env s) (commit_delta d))))
     | _ \<Rightarrow> (p, s))"

definition sync_once :: "('p, 's) syncer \<Rightarrow> ('s \<Rightarrow> 's) \<Rightarrow> 'p \<times> 's \<Rightarrow> 'p \<times> 's" where
  "sync_once sy env = (\<lambda>(p, s).
     case panel sy of None \<Rightarrow> (p, s)
     | Some pan \<Rightarrow>
         (let (p', fetched) = fetch_users pan p;
              s' = (case (fetched, users_cb sy) of (Some us, Some f) \<Rightarrow> f us s | _ \<Rightarrow> s)
          in flush sy env (p', s')))"

text \<open>
  \<^verbatim>\<open>Run\<close> wakes up on a tick or when its context is done. \<open>idle\<close> is what
  happens to the accounting state while it sleeps, \<open>inflight\<close> while the push it then
  makes is under way. The list of wake-ups is what the runtime delivers; at its end the loop is
  still waiting, which the Boolean of the result says.
\<close>

datatype 's wake = Tick (idle: "'s \<Rightarrow> 's") (inflight: "'s \<Rightarrow> 's")
  | CtxDone (idle: "'s \<Rightarrow> 's") (inflight: "'s \<Rightarrow> 's")

definition minute :: int where
  "minute = 60 * 1000000000"

definition effective_every :: "int \<Rightarrow> int" where
  "effective_every e = (if e \<le> 0 then minute else e)"

fun run_loop :: "('p, 's) syncer \<Rightarrow> 's wake list \<Rightarrow> 'p \<times> 's \<Rightarrow> ('p \<times> 's) \<times> bool" where
  "run_loop sy [] st = (st, False)"
| "run_loop sy (CtxDone i f # ws) st = (flush sy f (fst st, i (snd st)), True)"
| "run_loop sy (Tick i f # ws) st = run_loop sy ws (sync_once sy f (fst st, i (snd st)))"

definition run :: "('p, 's) syncer \<Rightarrow> ('s \<Rightarrow> 's) \<Rightarrow> 's wake list \<Rightarrow> 'p \<times> 's \<Rightarrow> ('p \<times> 's) \<times> bool" where
  "run sy env ws st = (let sy' = sy\<lparr>every := effective_every (every sy)\<rparr>
     in run_loop sy' ws (sync_once sy' env st))"

section \<open>Interface: what the synchroniser relies on\<close>

locale traffic_source =
  fixes snap :: "'s \<Rightarrow> delta"
    and commit :: "'s \<Rightarrow> delta \<Rightarrow> 's"
    and inv :: "'s \<Rightarrow> bool"
    and tracks :: "'s \<Rightarrow> string \<Rightarrow> string \<Rightarrow> bool"
    and pend :: "'s \<Rightarrow> string \<Rightarrow> string \<Rightarrow> pair64"
  assumes snap_wf: "inv s \<Longrightarrow> wf_delta (snap s)"
    and snap_reported: "inv s \<Longrightarrow> reported_at (snap s) t u = (if has_delta (pend s t u) then pend s t u else pzero)"
    and pend_tracked: "has_delta (pend s t u) \<Longrightarrow> tracks s t u"
    and commit_inv: "inv s \<Longrightarrow> inv (commit s d)"
    and commit_pend: "inv s \<Longrightarrow> wf_delta d \<Longrightarrow> tracks s t u \<or> reported_at d t u = pzero \<Longrightarrow>
      pend (commit s d) t u = psub (pend s t u) (reported_at d t u)"
begin

text \<open>An environment step that only adds traffic keeps the invariant and drops no counter.\<close>

definition carries :: "('s \<Rightarrow> 's) \<Rightarrow> bool" where
  "carries env \<longleftrightarrow> (\<forall>s. inv s \<longrightarrow> inv (env s) \<and> (\<forall>t u. tracks s t u \<longrightarrow> tracks (env s) t u))"

definition plugged :: "('p, 's) syncer \<Rightarrow> bool" where
  "plugged sy \<longleftrightarrow> snapshot_cb sy = Some snap \<and> commit_cb sy = Some commit"

lemma commit_after_push:
  assumes "inv s" and "carries env"
  shows "pend (commit (env s) (commit_delta (snap s))) t u =
    psub (pend (env s) t u) (if is_numeric_user u then reported_at (snap s) t u else pzero)"
proof -
  let ?d = "commit_delta (snap s)"
  have d: "reported_at ?d t u = (if is_numeric_user u then reported_at (snap s) t u else pzero)"
    using assms snap_wf by (simp add: reported_commit_delta)
  have "tracks (env s) t u \<or> reported_at ?d t u = pzero"
    using assms pend_tracked [of s t u] by (auto simp: carries_def d snap_reported)
  then show ?thesis
    using assms by (simp add: carries_def commit_pend wf_commit_delta snap_wf d)
qed

lemma flush_pend:
  assumes "inv s" and "carries env" and "plugged sy" and "panel sy = Some pan" and "has_traffic (snap s)"
  shows "pend (snd (flush sy env (p, s))) t u =
     (if snd (push_traffic pan (snap s) p) \<and> is_numeric_user u
      then psub (pend (env s) t u) (reported_at (snap s) t u) else pend (env s) t u)"
proof -
  obtain p' ok where push: "push_traffic pan (snap s) p = (p', ok)" by fastforce
  have "snap s \<noteq> []" using assms(5) by (auto simp: has_traffic_def)
  then show ?thesis
    using assms push commit_after_push [OF assms(1,2)]
    by (cases ok) (simp_all add: flush_def plugged_def Let_def)
qed

lemma flush_inv:
  assumes "inv s" and "carries env" and "plugged sy"
  shows "inv (snd (flush sy env (p, s)))"
  using assms by (auto simp: flush_def plugged_def carries_def commit_inv Let_def
      split: option.splits prod.splits bool.splits)

end

end
