(* ===== verification/Metering.thy ===== *)
theory Metering
  imports Sync
begin

text \<open>
  What a panel promises to the synchroniser, and what follows for the whole loop of
  \<^verbatim>\<open>Syncer.Run\<close>. The contract extends \<open>traffic_source\<close> by the panel's side for one user of
  one inbound: \<open>ledger\<close> is what the panel holds to the user's account, \<open>serves\<close> the conditions under
  which panel and source work together, \<open>lists\<close> what every fetched list of users satisfies, and
  \<open>apply\<close> the callback that receives it.
\<close>

section \<open>Amounts\<close>

definition nonneg :: "pair64 \<Rightarrow> bool" where
  "nonneg v \<longleftrightarrow> 0 \<le> sint (fst v) \<and> 0 \<le> sint (snd v)"

text \<open>Two amounts fit in what a signed counter holds.\<close>

definition fits_with :: "nat \<times> nat \<Rightarrow> pair64 \<Rightarrow> bool" where
  "fits_with r v \<longleftrightarrow> fst r + unat (fst v) < 2 ^ 63 \<and> snd r + unat (snd v) < 2 ^ 63"

definition nadd :: "nat \<times> nat \<Rightarrow> pair64 \<Rightarrow> nat \<times> nat" where
  "nadd r v = (fst r + unat (fst v), snd r + unat (snd v))"

text \<open>All that a list of pairs of amounts can add up to.\<close>

fun room :: "(pair64 \<times> pair64) list \<Rightarrow> nat \<times> nat" where
  "room [] = (0, 0)"
| "room ((i, f) # ns) = nadd (nadd (room ns) f) i"

lemma sint_nonneg_iff: "0 \<le> sint (x :: int64) \<longleftrightarrow> unat x < 2 ^ 63"
proof -
  have u: "0 \<le> uint x" "uint x < 2 ^ 64" using uint_lt2p [of x] by simp_all
  have n: "uint x = int (unat x)" by simp
  have "0 \<le> sint x \<longleftrightarrow> even (uint x div 2 ^ 63)"
    by (simp add: sint_uint bit_iff_odd)
  also have "\<dots> \<longleftrightarrow> uint x < 2 ^ 63"
  proof (cases "uint x < 2 ^ 63")
    case False
    then have "uint x div 2 ^ 63 = 1" using u by (intro int_div_pos_eq [where r = "uint x - 2 ^ 63"]) simp_all
    then show ?thesis using False by simp
  qed (use u in simp)
  also have "\<dots> \<longleftrightarrow> unat x < 2 ^ 63" unfolding n by (rule of_nat_less_numeral_power_cancel_iff)
  finally show ?thesis .
qed

lemma nonneg_fits: "fits_with r v \<Longrightarrow> nonneg v"
  by (simp add: fits_with_def nonneg_def sint_nonneg_iff)

lemma nonneg_no_delta: "nonneg v \<Longrightarrow> \<not> has_delta v \<Longrightarrow> v = pzero"
proof -
  have z: "sint x = 0 \<Longrightarrow> x = 0" for x :: int64 by (metis of_int_0 of_int_sint scast_id)
  show "nonneg v \<Longrightarrow> \<not> has_delta v \<Longrightarrow> v = pzero"
    by (cases v) (auto simp: nonneg_def has_delta_def pos64_def pzero_def not_less intro!: z antisym)
qed

lemma fits_padd:
  assumes "fits_with (nadd r n) v"
  shows "fits_with r (padd v n)" and "fits_with r v" and "fits_with r n"
proof -
  have "unat (fst v + fst n) \<le> unat (fst v) + unat (fst n)" "unat (snd v + snd n) \<le> unat (snd v) + unat (snd n)"
    using unat_add_lem unat_word_ariths(1) by (metis mod_less_eq_dividend)+
  then show "fits_with r (padd v n)" using assms by (simp add: fits_with_def nadd_def padd_def)
  show "fits_with r v" "fits_with r n" using assms by (simp_all add: fits_with_def nadd_def)
qed

lemma fits_less: "fits_with (nadd r n) v \<Longrightarrow> fits_with (0, 0) n"
  by (simp add: fits_with_def nadd_def)

section \<open>The contract\<close>

locale metered = traffic_source snap commit inv tracks pend
  for snap :: "'s \<Rightarrow> delta" and commit :: "'s \<Rightarrow> delta \<Rightarrow> 's" and inv :: "'s \<Rightarrow> bool"
    and tracks :: "'s \<Rightarrow> string \<Rightarrow> string \<Rightarrow> bool" and pend :: "'s \<Rightarrow> string \<Rightarrow> string \<Rightarrow> pair64" +
  fixes pan :: "'p panel_ops"
    and ledger :: "'p \<Rightarrow> pair64"
    and counted :: "'s \<Rightarrow> pair64"
    and serves :: "'p \<Rightarrow> 's \<Rightarrow> bool"
    and lists :: "user list \<Rightarrow> bool"
    and handle :: "user list \<Rightarrow> 's \<Rightarrow> 's"
    and tag who :: string
  assumes numeric: "serves p s \<Longrightarrow> is_numeric_user who"
    and push_booked: "inv s \<Longrightarrow> serves p s \<Longrightarrow> nonneg (pend s tag who) \<Longrightarrow> push_traffic pan (snap s) p = (p', ok) \<Longrightarrow>
      serves p' s \<and> ledger p' = (if ok then padd (ledger p) (reported_at (snap s) tag who) else ledger p)"
    and fetch_books_nothing: "serves p s \<Longrightarrow> fetch_users pan p = (p', r) \<Longrightarrow>
      serves p' s \<and> ledger p' = ledger p \<and> (\<forall>us. r = Some us \<longrightarrow> lists us)"
    and commit_serves: "inv s \<Longrightarrow> serves p s \<Longrightarrow> serves p (commit s d) \<and> counted (commit s d) = counted s"
    and handle_serves: "inv s \<Longrightarrow> serves p s \<Longrightarrow> lists us \<Longrightarrow>
      inv (handle us s) \<and> serves p (handle us s) \<and> pend (handle us s) tag who = pend s tag who
      \<and> counted (handle us s) = counted s"
begin

text \<open>A step of the connections in which \<open>n\<close> bytes of the user pass.\<close>

definition adds :: "pair64 \<Rightarrow> ('s \<Rightarrow> 's) \<Rightarrow> bool" where
  "adds n env \<longleftrightarrow> carries env \<and> (\<forall>p s. inv s \<and> serves p s \<longrightarrow> serves p (env s)
     \<and> pend (env s) tag who = padd (pend s tag who) n \<and> counted (env s) = padd (counted s) n)"

definition balance :: "'p \<Rightarrow> 's \<Rightarrow> pair64" where
  "balance p s = psub (padd (ledger p) (pend s tag who)) (counted s)"

definition sound :: "nat \<times> nat \<Rightarrow> 'p \<times> 's \<Rightarrow> pair64 \<Rightarrow> bool" where
  "sound r st b \<longleftrightarrow> inv (snd st) \<and> serves (fst st) (snd st) \<and> fits_with r (pend (snd st) tag who) \<and> balance (fst st) (snd st) = b"

definition hooked :: "('p, 's) syncer \<Rightarrow> bool" where
  "hooked sy \<longleftrightarrow> plugged sy \<and> panel sy = Some pan \<and> users_cb sy = Some handle"

lemma psub_both: "psub (padd x n) (padd y n) = psub x y" "psub (padd x (padd y n)) (padd z n) = psub (padd x y) z"
  by (auto simp: padd_def psub_def)

lemma env_sound:
  assumes "sound (nadd r n) (p, s) b" and "adds n env"
  shows "sound r (p, env s) b"
  using assms fits_padd(1) [of r n "pend s tag who"] by (auto simp: sound_def adds_def carries_def balance_def psub_both)

lemma flush_sound:
  assumes "sound (nadd r n) (p, s) b" and "adds n env" and "hooked sy"
  shows "sound r (flush sy env (p, s)) b"
proof (cases "has_traffic (snap s)")
  case False
  then have "flush sy env (p, s) = (p, s)" using assms(3) by (simp add: flush_def hooked_def plugged_def Let_def)
  then show ?thesis using assms(1) fits_padd(2) [of r n "pend s tag who"] by (simp add: sound_def)
next
  case True
  note I = assms(1) [unfolded sound_def fst_conv snd_conv]
  obtain p' ok where push: "push_traffic pan (snap s) p = (p', ok)" by fastforce
  have nn: "nonneg (pend s tag who)" using I nonneg_fits by blast
  note P = push_booked [OF _ _ nn push] and E = env_sound [OF assms(1,2), unfolded sound_def fst_conv snd_conv]
  have rep: "reported_at (snap s) tag who = pend s tag who" using I snap_reported nonneg_no_delta [OF nn] by metis
  have e: "inv (env s)" "serves p' (env s)" "pend (env s) tag who = padd (pend s tag who) n" "counted (env s) = padd (counted s) n"
    using assms(2) I P by (auto simp: adds_def carries_def)
  let ?s' = "snd (flush sy env (p, s))"
  have fl: "flush sy env (p, s) = (p', if ok then commit (env s) (commit_delta (snap s)) else env s)"
    using assms(3) push True by (auto simp: flush_def hooked_def plugged_def Let_def has_traffic_def)
  have pe: "pend ?s' tag who = (if ok then n else padd (pend s tag who) n)"
    using flush_pend [of s env sy pan p tag who] I assms(2,3) True push numeric e(3) rep
    by (auto simp: hooked_def adds_def padd_ac(2))
  have "inv ?s'" using flush_inv [of s env sy p] I assms(2,3) by (simp add: hooked_def adds_def)
  moreover have "serves p' ?s' \<and> counted ?s' = padd (counted s) n" using fl e commit_serves by auto
  moreover have "fits_with r (pend ?s' tag who)" using pe fits_padd [of r n "pend s tag who"] I by simp
  moreover have "ledger p' = (if ok then padd (ledger p) (pend s tag who) else ledger p)" using P I rep by auto
  ultimately show ?thesis using fl I pe by (cases ok) (auto simp: sound_def balance_def psub_both)
qed

lemma sync_once_sound:
  assumes "sound (nadd r n) (p, s) b" and "adds n env" and "hooked sy"
  shows "sound r (sync_once sy env (p, s)) b"
proof -
  obtain p' fetched where f: "fetch_users pan p = (p', fetched)" by fastforce
  have F: "serves p' s" "ledger p' = ledger p" "\<And>us. fetched = Some us \<Longrightarrow> lists us"
    using fetch_books_nothing [OF _ f, of s] assms(1) by (auto simp: sound_def)
  have "sound (nadd r n) (p', case fetched of None \<Rightarrow> s | Some us \<Rightarrow> handle us s) b"
    using assms(1) F handle_serves by (auto simp: sound_def balance_def split: option.split)
  from flush_sound [OF this assms(2,3)] show ?thesis
    using assms(3) f by (auto simp: sync_once_def hooked_def split: option.splits)
qed

lemma run_loop_sound:
  "hooked sy \<Longrightarrow> list_all2 (\<lambda>w (i, f). adds i (idle w) \<and> adds f (inflight w)) ws ns \<Longrightarrow> sound (room ns) st b \<Longrightarrow>
    \<exists>r. sound r (fst (run_loop sy ws st)) b"
proof (induction sy ws st arbitrary: ns rule: run_loop.induct)
  case (2 sy i f ws st)
  then obtain a c ns' where "ns = (a, c) # ns'" "adds a i" "adds c f" by (auto simp: list_all2_Cons1)
  moreover obtain p s where "st = (p, s)" by fastforce
  ultimately have "sound (room ns') (flush sy f (p, i s)) b" "st = (p, s)"
    using flush_sound [OF env_sound, of "room ns'" c a p s b i f sy] 2 by simp_all
  then show ?case by (simp del: split_paired_Ex) blast
next
  case (3 sy i f ws st)
  then obtain a c ns' where n: "ns = (a, c) # ns'" "adds a i" "adds c f"
    "list_all2 (\<lambda>w (i, f). adds i (idle w) \<and> adds f (inflight w)) ws ns'" by (auto simp: list_all2_Cons1)
  obtain p s where st: "st = (p, s)" by fastforce
  have "sound (room ns') (sync_once sy f (p, i s)) b"
    using sync_once_sound [OF env_sound, of "room ns'" c a p s b i f sy] n 3(4,2) st by simp
  then show ?case using 3(1) [OF 3(2) n(4)] st by simp
qed auto

text \<open>Over the whole loop, what the panel books to the user and what is pending grow together by what
  is counted.\<close>

lemma run_balance:
  assumes "hooked sy" and "adds n env" and "list_all2 (\<lambda>w (i, f). adds i (idle w) \<and> adds f (inflight w)) ws ns"
    and "inv s" and "serves p s" and "fits_with (nadd (room ns) n) (pend s tag who)"
    and "run sy env ws (p, s) = ((p', s'), stopped)"
  shows "serves p' s' \<and>
    padd (padd (ledger p') (pend s' tag who)) (counted s) = padd (padd (ledger p) (pend s tag who)) (counted s')"
proof -
  let ?sy = "sy\<lparr>every := effective_every (every sy)\<rparr>"
  have h: "hooked ?sy" using assms(1) by (simp add: hooked_def plugged_def)
  have "sound (nadd (room ns) n) (p, s) (balance p s)" using assms by (simp add: sound_def)
  then have "sound (room ns) (sync_once ?sy env (p, s)) (balance p s)" by (rule sync_once_sound [OF _ assms(2) h])
  from run_loop_sound [OF h assms(3) this] have "serves p' s' \<and> balance p' s' = balance p s"
    using assms(7) by (auto simp: run_def Let_def sound_def)
  then show ?thesis by (auto simp: balance_def padd_def psub_def algebra_simps)
qed

end

end
