(* ===== verification/Json.thy ===== *)
theory Json
  imports GoString
begin

text \<open>
  The part of Go's \<^verbatim>\<open>encoding/json\<close> that the repository uses: JSON values, the
  text that \<^verbatim>\<open>Marshal\<close>, \<^verbatim>\<open>MarshalIndent\<close> and
  \<^verbatim>\<open>Encoder.Encode\<close> produce (HTML-safe escapes included), the parser behind
  \<^verbatim>\<open>Unmarshal\<close> and \<^verbatim>\<open>Decoder.Decode\<close>, and the rules by which
  a value is stored into a Go variable that already holds something.

  Numbers keep their text, because Go converts it only when it knows the target type. A byte
  above 127 inside a string is copied as it is (valid UTF-8 is assumed; Go's escapes of
  U+2028 and U+2029 and the nesting limit are left out).
\<close>

section \<open>Values and their text\<close>

datatype json = JNull | JBool bool | JNum string | JStr string | JArr "json list"
  | JObj "(string \<times> json) list"

definition hex_digit :: "nat \<Rightarrow> char" where
  "hex_digit n = (if n < 10 then char_of (48 + n) else char_of (87 + n))"

definition escape_char :: "char \<Rightarrow> string" where
  "escape_char c = (let n = (of_char c :: nat) in
     if c = CHR 0x22 \<or> c = CHR 0x5C then [CHR 0x5C, c]
     else if n = 8 then [CHR 0x5C, CHR ''b'']
     else if n = 12 then [CHR 0x5C, CHR ''f'']
     else if n = 10 then [CHR 0x5C, CHR ''n'']
     else if n = 13 then [CHR 0x5C, CHR ''r'']
     else if n = 9 then [CHR 0x5C, CHR ''t'']
     else if n < 32 \<or> c = CHR ''<'' \<or> c = CHR ''>'' \<or> c = CHR ''&''
       then [CHR 0x5C, CHR ''u'', CHR ''0'', CHR ''0'', hex_digit (n div 16), hex_digit (n mod 16)]
     else [c])"

definition quote :: "string \<Rightarrow> string" where
  "quote s = CHR 0x22 # concat (map escape_char s) @ [CHR 0x22]"

definition newline :: "bool \<Rightarrow> nat \<Rightarrow> string" where
  "newline ind d = (if ind then CHR 0x0A # replicate (2 * d) CHR '' '' else [])"

definition colon :: "bool \<Rightarrow> string" where
  "colon ind = (if ind then '': '' else '':'')"

fun join :: "string \<Rightarrow> string list \<Rightarrow> string" where
  "join sep [] = []"
| "join sep [x] = x"
| "join sep (x # y # ys) = x @ sep @ join sep (y # ys)"

fun print_json :: "bool \<Rightarrow> nat \<Rightarrow> json \<Rightarrow> string" where
  "print_json ind d JNull = ''null''"
| "print_json ind d (JBool b) = (if b then ''true'' else ''false'')"
| "print_json ind d (JNum s) = s"
| "print_json ind d (JStr s) = quote s"
| "print_json ind d (JArr js) = (if js = [] then ''[]'' else
     ''['' @ newline ind (Suc d) @ join ('','' @ newline ind (Suc d)) (map (print_json ind (Suc d)) js)
       @ newline ind d @ '']'')"
| "print_json ind d (JObj ms) = (if ms = [] then ''{}'' else
     ''{'' @ newline ind (Suc d) @ join ('','' @ newline ind (Suc d))
       (map (\<lambda>(k, v). quote k @ colon ind @ print_json ind (Suc d) v) ms) @ newline ind d @ ''}'')"

definition marshal :: "json \<Rightarrow> string" where
  "marshal j = print_json False 0 j"

definition marshal_indent :: "json \<Rightarrow> string" where
  "marshal_indent j = print_json True 0 j"

section \<open>Parsing\<close>

definition is_ws :: "char \<Rightarrow> bool" where
  "is_ws c \<longleftrightarrow> c = CHR '' '' \<or> c = CHR 0x09 \<or> c = CHR 0x0A \<or> c = CHR 0x0D"

definition skip_ws :: "string \<Rightarrow> string" where
  "skip_ws s = dropWhile is_ws s"

definition hex_val :: "char \<Rightarrow> nat option" where
  "hex_val c = (let n = (of_char c :: nat) in
     if 48 \<le> n \<and> n \<le> 57 then Some (n - 48)
     else if 97 \<le> n \<and> n \<le> 102 then Some (n - 87)
     else if 65 \<le> n \<and> n \<le> 70 then Some (n - 55)
     else None)"

definition hex4 :: "char \<Rightarrow> char \<Rightarrow> char \<Rightarrow> char \<Rightarrow> nat option" where
  "hex4 a b c d = (case (hex_val a, hex_val b, hex_val c, hex_val d) of
     (Some w, Some x, Some y, Some z) \<Rightarrow> Some (4096 * w + 256 * x + 16 * y + z)
   | _ \<Rightarrow> None)"

text \<open>The characters of a string literal: bytes, and 16-bit units written as escapes.\<close>

datatype unit16 = Byte char | Unit nat

definition short_escape :: "char \<Rightarrow> char option" where
  "short_escape c = (if c = CHR 0x22 \<or> c = CHR 0x5C \<or> c = CHR ''/'' then Some c
     else if c = CHR ''b'' then Some (CHR 0x08)
     else if c = CHR ''f'' then Some (CHR 0x0C)
     else if c = CHR ''n'' then Some (CHR 0x0A)
     else if c = CHR ''r'' then Some (CHR 0x0D)
     else if c = CHR ''t'' then Some (CHR 0x09)
     else None)"

definition cons_unit :: "unit16 \<Rightarrow> (unit16 list \<times> string) option \<Rightarrow> (unit16 list \<times> string) option" where
  "cons_unit u r = map_option (\<lambda>(us, rest). (u # us, rest)) r"

fun parse_units :: "string \<Rightarrow> (unit16 list \<times> string) option" where
  "parse_units [] = None"
| "parse_units (c # cs) =
     (if c = CHR 0x22 then Some ([], cs)
      else if c = CHR 0x5C then
        (case cs of [] \<Rightarrow> None
         | e # r \<Rightarrow> if e = CHR ''u'' then
             (case r of w # x # y # z # r' \<Rightarrow>
                (case hex4 w x y z of Some n \<Rightarrow> cons_unit (Unit n) (parse_units r') | None \<Rightarrow> None)
              | _ \<Rightarrow> None)
           else (case short_escape e of Some b \<Rightarrow> cons_unit (Byte b) (parse_units r) | None \<Rightarrow> None))
      else if (of_char c :: nat) < 32 then None
      else cons_unit (Byte c) (parse_units cs))"

definition utf8 :: "nat \<Rightarrow> string" where
  "utf8 n = (if n < 128 then [char_of n]
     else if n < 2048 then [char_of (192 + n div 64), char_of (128 + n mod 64)]
     else if n < 65536 then [char_of (224 + n div 4096), char_of (128 + n div 64 mod 64), char_of (128 + n mod 64)]
     else [char_of (240 + n div 262144), char_of (128 + n div 4096 mod 64),
           char_of (128 + n div 64 mod 64), char_of (128 + n mod 64)])"

definition high_surrogate :: "nat \<Rightarrow> bool" where
  "high_surrogate n \<longleftrightarrow> 55296 \<le> n \<and> n < 56320"

definition low_surrogate :: "nat \<Rightarrow> bool" where
  "low_surrogate n \<longleftrightarrow> 56320 \<le> n \<and> n < 57344"

fun decode_units :: "unit16 list \<Rightarrow> string" where
  "decode_units [] = []"
| "decode_units (Byte c # us) = c # decode_units us"
| "decode_units (Unit n # Unit m # us) =
     (if high_surrogate n \<and> low_surrogate m
      then utf8 (65536 + (n - 55296) * 1024 + (m - 56320)) @ decode_units us
      else (if high_surrogate n \<or> low_surrogate n then utf8 65533 else utf8 n) @ decode_units (Unit m # us))"
| "decode_units (Unit n # us) =
     (if high_surrogate n \<or> low_surrogate n then utf8 65533 else utf8 n) @ decode_units us"

definition parse_string :: "string \<Rightarrow> (string \<times> string) option" where
  "parse_string s = map_option (\<lambda>(us, rest). (decode_units us, rest)) (parse_units s)"

definition parse_exp :: "string \<Rightarrow> (string \<times> string) option" where
  "parse_exp s = (case s of
     c # cs \<Rightarrow> if c = CHR ''e'' \<or> c = CHR ''E'' then
       (let (sg, r) = (case cs of d # ds \<Rightarrow> if d = CHR ''+'' \<or> d = CHR ''-'' then ([d], ds) else ([], cs) | [] \<Rightarrow> ([], []));
            ds = takeWhile is_digit r
        in if ds = [] then None else Some (c # sg @ ds, dropWhile is_digit r))
       else Some ([], s)
   | [] \<Rightarrow> Some ([], []))"

definition parse_frac :: "string \<Rightarrow> (string \<times> string) option" where
  "parse_frac s = (case s of
     c # cs \<Rightarrow> if c = CHR ''.'' then
       (let ds = takeWhile is_digit cs in if ds = [] then None else Some (c # ds, dropWhile is_digit cs))
       else Some ([], s)
   | [] \<Rightarrow> Some ([], []))"

definition parse_int_part :: "string \<Rightarrow> (string \<times> string) option" where
  "parse_int_part s = (case s of
     c # cs \<Rightarrow> if c = CHR ''0'' then Some ([c], cs)
       else if is_digit c then Some (takeWhile is_digit s, dropWhile is_digit s) else None
   | [] \<Rightarrow> None)"

definition parse_num :: "string \<Rightarrow> (string \<times> string) option" where
  "parse_num s = (let (sg, r) = (case s of c # cs \<Rightarrow> if c = CHR ''-'' then ([c], cs) else ([], s) | [] \<Rightarrow> ([], [])) in
     Option.bind (parse_int_part r) (\<lambda>(i, r1). Option.bind (parse_frac r1) (\<lambda>(f, r2).
       Option.bind (parse_exp r2) (\<lambda>(e, r3). Some (sg @ i @ f @ e, r3)))))"

definition parse_lit :: "string \<Rightarrow> json \<Rightarrow> string \<Rightarrow> (json \<times> string) option" where
  "parse_lit word j s = (if take (length word) s = word then Some (j, drop (length word) s) else None)"

fun parse_value :: "nat \<Rightarrow> string \<Rightarrow> (json \<times> string) option"
  and parse_elems :: "nat \<Rightarrow> string \<Rightarrow> (json list \<times> string) option"
  and parse_members :: "nat \<Rightarrow> string \<Rightarrow> ((string \<times> json) list \<times> string) option" where
  "parse_value 0 s = None"
| "parse_value (Suc n) s = (case skip_ws s of [] \<Rightarrow> None
     | c # cs \<Rightarrow>
       if c = CHR ''{'' then
         (case skip_ws cs of
            d # r \<Rightarrow> if d = CHR ''}'' then Some (JObj [], r)
              else map_option (\<lambda>(ms, r). (JObj ms, r)) (parse_members n cs)
          | [] \<Rightarrow> None)
       else if c = CHR ''['' then
         (case skip_ws cs of
            d # r \<Rightarrow> if d = CHR '']'' then Some (JArr [], r)
              else map_option (\<lambda>(js, r). (JArr js, r)) (parse_elems n cs)
          | [] \<Rightarrow> None)
       else if c = CHR 0x22 then map_option (\<lambda>(t, r). (JStr t, r)) (parse_string cs)
       else if c = CHR ''n'' then parse_lit ''null'' JNull (c # cs)
       else if c = CHR ''t'' then parse_lit ''true'' (JBool True) (c # cs)
       else if c = CHR ''f'' then parse_lit ''false'' (JBool False) (c # cs)
       else map_option (\<lambda>(t, r). (JNum t, r)) (parse_num (c # cs)))"
| "parse_elems 0 s = None"
| "parse_elems (Suc n) s = (case parse_value n s of None \<Rightarrow> None
     | Some (j, r) \<Rightarrow> (case skip_ws r of [] \<Rightarrow> None
         | d # r' \<Rightarrow> if d = CHR '']'' then Some ([j], r')
             else if d = CHR '','' then map_option (\<lambda>(js, r''). (j # js, r'')) (parse_elems n r')
             else None))"
| "parse_members 0 s = None"
| "parse_members (Suc n) s = (case skip_ws s of [] \<Rightarrow> None
     | q # s1 \<Rightarrow> if q \<noteq> CHR 0x22 then None else
       (case parse_string s1 of None \<Rightarrow> None
        | Some (k, s2) \<Rightarrow> (case skip_ws s2 of [] \<Rightarrow> None
            | c # s3 \<Rightarrow> if c \<noteq> CHR '':'' then None else
              (case parse_value n s3 of None \<Rightarrow> None
               | Some (v, s4) \<Rightarrow> (case skip_ws s4 of [] \<Rightarrow> None
                   | d # s5 \<Rightarrow> if d = CHR ''}'' then Some ([(k, v)], s5)
                       else if d = CHR '','' then map_option (\<lambda>(ms, r). ((k, v) # ms, r)) (parse_members n s5)
                       else None)))))"

definition parse_fuel :: "string \<Rightarrow> nat" where
  "parse_fuel s = 2 * length s + 2"

text \<open>\<^verbatim>\<open>Decoder.Decode\<close> reads one value and leaves what follows it unread;
  \<^verbatim>\<open>Unmarshal\<close> refuses a text with anything but white space after the value.\<close>

definition decode_prefix :: "string \<Rightarrow> json option" where
  "decode_prefix s = map_option fst (parse_value (parse_fuel s) s)"

definition unmarshal :: "string \<Rightarrow> json option" where
  "unmarshal s = (case parse_value (parse_fuel s) s of
     Some (j, r) \<Rightarrow> if skip_ws r = [] then Some j else None
   | None \<Rightarrow> None)"

end
