(* ===== verification/JsonRoundtrip.thy ===== *)
theory JsonRoundtrip
  imports Json
begin

text \<open>
  The parser reads back what the printer writes, compact or indented: first string literals and
  numbers, then values by induction, with the fuel that \<open>parse_fuel\<close> supplies.
\<close>

section \<open>White space\<close>

lemma skip_ws_newline [simp]: "skip_ws (newline ind d @ s) = skip_ws s"
proof -
  have "dropWhile is_ws (replicate n CHR '' '' @ s) = dropWhile is_ws s" for n
    by (induction n) (simp_all add: is_ws_def)
  then show ?thesis by (simp add: skip_ws_def newline_def is_ws_def)
qed

lemma skip_ws_Cons [simp]: "\<not> is_ws c \<Longrightarrow> skip_ws (c # s) = c # s"
  by (simp add: skip_ws_def)

lemma skip_ws_idem [simp]: "skip_ws (skip_ws s) = skip_ws s"
  by (simp add: skip_ws_def)

lemma skip_ws_colon [simp]: "skip_ws (colon ind @ s) = CHR '':'' # (if ind then '' '' @ s else s)"
  by (simp add: colon_def skip_ws_def is_ws_def)

lemma parse_value_skip: "parse_value n (skip_ws s) = parse_value n s"
  by (cases n) simp_all

lemma parse_value_newline [simp]: "parse_value n (newline ind d @ s) = parse_value n s"
  by (metis parse_value_skip skip_ws_newline)

lemma parse_value_space [simp]: "parse_value n (CHR '' '' # s) = parse_value n s"
  by (cases n) (simp_all add: skip_ws_def is_ws_def)

lemma parse_elems_newline [simp]: "parse_elems n (newline ind d @ s) = parse_elems n s"
  by (cases n) simp_all

lemma parse_members_newline [simp]: "parse_members n (newline ind d @ s) = parse_members n s"
  by (cases n) simp_all

section \<open>String literals\<close>

definition unit_of :: "char \<Rightarrow> unit16" where
  "unit_of c = (if length (escape_char c) = 6 then Unit (of_char c) else Byte c)"

lemma hex_val_digit: "k < 16 \<Longrightarrow> hex_val (hex_digit k) = Some k"
  by (auto simp: hex_val_def hex_digit_def Let_def)

lemma hex4_escape:
  assumes "n < 256"
  shows "hex4 CHR ''0'' CHR ''0'' (hex_digit (n div 16)) (hex_digit (n mod 16)) = Some n"
proof -
  have "hex_val CHR ''0'' = Some 0" by (simp add: hex_val_def)
  moreover have "n div 16 < 16" using assms by simp
  ultimately show ?thesis by (simp add: hex4_def hex_val_digit)
qed

lemma char_eq_iff: "c = d \<longleftrightarrow> (of_char c :: nat) = of_char d"
  by simp

lemma of_char_less: "(of_char c :: nat) < 256"
  by simp

lemma parse_units_escape:
  "parse_units (escape_char c @ r) = cons_unit (unit_of c) (parse_units r)"
proof -
  consider (q) "c = CHR 0x22 \<or> c = CHR 0x5C"
    | (s) "c \<noteq> CHR 0x22" "c \<noteq> CHR 0x5C" "(of_char c :: nat) \<in> {8, 12, 10, 13, 9}"
    | (h) "c \<noteq> CHR 0x22" "c \<noteq> CHR 0x5C" "(of_char c :: nat) \<notin> {8, 12, 10, 13, 9}"
        "(of_char c :: nat) < 32 \<or> c = CHR ''<'' \<or> c = CHR ''>'' \<or> c = CHR ''&''"
    | (p) "c \<noteq> CHR 0x22" "c \<noteq> CHR 0x5C" "(of_char c :: nat) \<notin> {8, 12, 10, 13, 9}"
        "\<not> ((of_char c :: nat) < 32 \<or> c = CHR ''<'' \<or> c = CHR ''>'' \<or> c = CHR ''&'')"
    by blast
  then show ?thesis
  proof cases
    case q
    then show ?thesis by (auto simp: escape_char_def unit_of_def short_escape_def)
  next
    case s
    then have "c = CHR 0x08 \<or> c = CHR 0x0C \<or> c = CHR 0x0A \<or> c = CHR 0x0D \<or> c = CHR 0x09"
      by (auto simp: char_eq_iff)
    then show ?thesis by (auto simp: escape_char_def unit_of_def short_escape_def)
  next
    case h
    then have "escape_char c = [CHR 0x5C, CHR ''u'', CHR ''0'', CHR ''0'',
        hex_digit (of_char c div 16), hex_digit (of_char c mod 16)]"
      by (simp add: escape_char_def Let_def)
    then show ?thesis using hex4_escape [OF of_char_less [of c]] by (simp add: unit_of_def)
  next
    case p
    then have "escape_char c = [c]" by (simp add: escape_char_def Let_def)
    then show ?thesis using p by (simp add: unit_of_def)
  qed
qed

lemma parse_units_quoted:
  "parse_units (concat (map escape_char s) @ CHR 0x22 # r) = Some (map unit_of s, r)"
  by (induction s) (simp_all add: parse_units_escape cons_unit_def)

lemma escape_len6: "length (escape_char c) = 6 \<Longrightarrow> (of_char c :: nat) < 128"
  by (auto simp: escape_char_def Let_def split: if_splits)

lemma decode_plain_unit: "n < 128 \<Longrightarrow> decode_units (Unit n # us) = char_of n # decode_units us"
  by (cases us rule: decode_units.cases) (auto simp: high_surrogate_def low_surrogate_def utf8_def)

lemma decode_unit_of: "decode_units (map unit_of s) = s"
  by (induction s) (auto simp: unit_of_def decode_plain_unit escape_len6 simp del: decode_units.simps(3,4))

lemma parse_string_quoted [simp]:
  "parse_string (concat (map escape_char s) @ CHR 0x22 # r) = Some (s, r)"
  by (simp add: parse_string_def parse_units_quoted decode_unit_of)

section \<open>Numbers\<close>

definition num_end :: "string \<Rightarrow> bool" where
  "num_end s = (case s of [] \<Rightarrow> True
     | c # cs \<Rightarrow> \<not> is_digit c \<and> c \<noteq> CHR ''.'' \<and> c \<noteq> CHR ''e'' \<and> c \<noteq> CHR ''E'')"

lemma nat_itoa_leading: "nat_itoa n = ''0'' \<or> hd (nat_itoa n) \<noteq> CHR ''0''"
proof (induction n rule: nat_itoa.induct)
  case (1 n)
  show ?case
  proof (cases "n < 10")
    case True
    have "char_of (48 + n) = CHR ''0'' \<Longrightarrow> n = 0" using True by (auto simp: char_eq_iff)
    then show ?thesis using True by (auto simp: nat_itoa.simps [of n])
  next
    case False
    obtain c cs where d: "nat_itoa (n div 10) = c # cs" using nat_itoa_hd by blast
    have "n div 10 \<noteq> 0" using False by simp
    then have "nat_itoa (n div 10) \<noteq> ''0''"
      using digits_val_nat_itoa [of "n div 10"] by (auto simp: digits_val_def digit_val_def)
    then show ?thesis using 1 False d by (auto simp: nat_itoa.simps [of n])
  qed
qed

lemma takeWhile_digits:
  assumes "list_all P s" and "case r of [] \<Rightarrow> True | c # cs \<Rightarrow> \<not> P c"
  shows "takeWhile P (s @ r) = s" and "dropWhile P (s @ r) = r"
  using assms by (induction s) (auto split: list.splits)

lemma parse_int_part_digits:
  assumes "num_end r"
  shows "parse_int_part (nat_itoa n @ r) = Some (nat_itoa n, r)"
proof (cases "nat_itoa n = ''0''")
  case True
  then show ?thesis by (simp add: parse_int_part_def)
next
  case False
  obtain c cs where d: "nat_itoa n = c # cs" "is_digit c" using nat_itoa_hd by blast
  then have "c \<noteq> CHR ''0''" using False nat_itoa_leading [of n] by auto
  moreover have "list_all is_digit (nat_itoa n)" using digits_nat_itoa by blast
  moreover have "case r of [] \<Rightarrow> True | c # cs \<Rightarrow> \<not> is_digit c"
    using assms by (auto simp: num_end_def split: list.splits)
  ultimately show ?thesis
    using takeWhile_digits [of is_digit "nat_itoa n" r] d by (simp add: parse_int_part_def)
qed

lemma num_end_tail: "num_end r \<Longrightarrow> parse_frac r = Some ([], r) \<and> parse_exp r = Some ([], r)"
  by (auto simp: num_end_def parse_frac_def parse_exp_def split: list.splits)

lemma parse_num_itoa:
  assumes "num_end r"
  shows "parse_num (itoa i @ r) = Some (itoa i, r)"
proof (cases "i < 0")
  case True
  then show ?thesis
    using assms by (simp add: parse_num_def itoa_def parse_int_part_digits num_end_tail)
next
  case False
  obtain c cs where d: "nat_itoa (nat i) = c # cs" "is_digit c" using nat_itoa_hd by blast
  then have "c \<noteq> CHR ''-''" by auto
  then show ?thesis
    using assms False d parse_int_part_digits [OF assms, of "nat i"]
    by (simp add: parse_num_def itoa_def num_end_tail)
qed

section \<open>Values\<close>

definition canon_num :: "string \<Rightarrow> bool" where
  "canon_num s \<longleftrightarrow> (case atoi s of Some i \<Rightarrow> s = itoa i | None \<Rightarrow> False)"

fun wf_json :: "json \<Rightarrow> bool" where
  "wf_json (JNum s) = canon_num s"
| "wf_json (JArr js) = list_all wf_json js"
| "wf_json (JObj ms) = list_all (\<lambda>(k, v). wf_json v) ms"
| "wf_json j = True"

lemma canon_num_itoa: "in_int64 i \<Longrightarrow> canon_num (itoa i)"
  by (simp add: canon_num_def atoi_itoa)

lemma canon_numE: "canon_num s \<Longrightarrow> (\<And>i. s = itoa i \<Longrightarrow> P) \<Longrightarrow> P"
  by (auto simp: canon_num_def split: option.splits)

lemma itoa_hd: "\<exists>c cs. itoa i = c # cs \<and> (is_digit c \<or> c = CHR ''-'')"
  using nat_itoa_hd [of "nat i"] by (auto simp: itoa_def)

lemma digit_not_special:
  assumes "is_digit c \<or> c = CHR ''-''"
  shows "\<not> is_ws c" "c \<noteq> CHR 0x22" "c \<noteq> CHR ''{''" "c \<noteq> CHR ''[''" "c \<noteq> CHR '']''" "c \<noteq> CHR ''}''"
    "c \<noteq> CHR ''n''" "c \<noteq> CHR ''t''" "c \<noteq> CHR ''f''"
  using assms by (auto simp: is_digit_def is_ws_def)

lemma print_hd:
  assumes "wf_json j"
  shows "\<exists>c cs. print_json ind d j = c # cs \<and> \<not> is_ws c \<and> c \<noteq> CHR '']'' \<and> c \<noteq> CHR ''}''"
proof (cases j)
  case (JNum s)
  then obtain i where "s = itoa i" using assms by (auto elim: canon_numE)
  moreover obtain c cs where "itoa i = c # cs" "is_digit c \<or> c = CHR ''-''" using itoa_hd by blast
  ultimately show ?thesis using JNum digit_not_special [of c] by simp
qed (auto simp: quote_def is_ws_def)

definition parses :: "bool \<Rightarrow> nat \<Rightarrow> json \<Rightarrow> bool" where
  "parses ind d j \<longleftrightarrow> (\<forall>n rest. num_end rest \<longrightarrow> 2 * length (print_json ind d j) \<le> n \<longrightarrow>
     parse_value n (print_json ind d j @ rest) = Some (j, rest))"

lemma num_end_sep: "num_end ('','' @ s)" "num_end (newline ind d @ '']'' @ s)"
    "num_end (newline ind d @ ''}'' @ s)"
  by (auto simp: num_end_def newline_def is_digit_def)

abbreviation sep :: "bool \<Rightarrow> nat \<Rightarrow> string" where
  "sep ind d \<equiv> '','' @ newline ind d"

lemma parse_elems_print:
  assumes "js \<noteq> []" and "\<forall>j \<in> set js. parses ind d j"
    and "2 * length (join (sep ind d) (map (print_json ind d) js)) + 1 \<le> n"
  shows "parse_elems n (join (sep ind d) (map (print_json ind d) js) @ newline ind e @ '']'' @ rest) = Some (js, rest)"
  using assms
proof (induction js arbitrary: n)
  case (Cons j js)
  then obtain k where n: "n = Suc k" by (cases n) auto
  show ?case
  proof (cases js)
    case Nil
    then have "parse_value k (print_json ind d j @ newline ind e @ '']'' @ rest) = Some (j, newline ind e @ '']'' @ rest)"
      using Cons.prems n num_end_sep by (auto simp: parses_def)
    then show ?thesis using Nil n by (simp add: skip_ws_def [of "'']'' @ rest"] is_ws_def)
  next
    case (Cons j' js')
    let ?r = "join (sep ind d) (map (print_json ind d) js) @ newline ind e @ '']'' @ rest"
    have "parse_value k (print_json ind d j @ '','' @ newline ind d @ ?r) = Some (j, '','' @ newline ind d @ ?r)"
      using Cons.prems n num_end_sep Cons by (auto simp: parses_def)
    moreover have "parse_elems k ?r = Some (js, rest)"
      using Cons.IH [of k] Cons.prems n Cons by simp
    ultimately show ?thesis using Cons n by (simp add: is_ws_def)
  qed
qed simp

definition print_member :: "bool \<Rightarrow> nat \<Rightarrow> string \<times> json \<Rightarrow> string" where
  "print_member ind d = (\<lambda>(k, v). quote k @ colon ind @ print_json ind d v)"

lemma parse_value_colon [simp]:
  "parse_value n (if ind then CHR '' '' # s else s) = parse_value n s"
  by simp

lemma parse_members_print:
  assumes "ms \<noteq> []" and "\<forall>(k, v) \<in> set ms. parses ind d v"
    and "2 * length (join (sep ind d) (map (print_member ind d) ms)) + 1 \<le> n"
  shows "parse_members n (join (sep ind d) (map (print_member ind d) ms) @ newline ind e @ ''}'' @ rest) = Some (ms, rest)"
  using assms
proof (induction ms arbitrary: n)
  case (Cons m ms)
  obtain k v where m: "m = (k, v)" by (cases m)
  obtain l where n: "n = Suc l" using Cons.prems by (cases n) auto
  show ?case
  proof (cases ms)
    case Nil
    then have "parse_value l (print_json ind d v @ newline ind e @ ''}'' @ rest) = Some (v, newline ind e @ ''}'' @ rest)"
      using Cons.prems n m num_end_sep by (auto simp: parses_def print_member_def)
    then show ?thesis using Nil n m
      by (cases ind) (simp_all add: print_member_def quote_def is_ws_def)
  next
    case (Cons m' ms')
    let ?r = "join (sep ind d) (map (print_member ind d) ms) @ newline ind e @ ''}'' @ rest"
    have "parse_value l (print_json ind d v @ '','' @ newline ind d @ ?r) = Some (v, '','' @ newline ind d @ ?r)"
      using Cons.prems n m num_end_sep Cons by (auto simp: parses_def print_member_def)
    moreover have "parse_members l ?r = Some (ms, rest)"
      using Cons.IH [of l] Cons.prems n Cons by simp
    ultimately show ?thesis using Cons n m
      by (cases ind) (simp_all add: is_ws_def print_member_def quote_def)
  qed
qed simp

lemma join_hd: "xs \<noteq> [] \<Longrightarrow> hd xs = c # cs \<Longrightarrow> \<exists>cs'. join sp xs = c # cs'"
  by (cases "(sp, xs)" rule: join.cases) auto

lemma positive_fuel: "numeral k \<le> (n :: nat) \<Longrightarrow> \<exists>m. n = Suc m"
  by (cases n) auto

lemma parses_num:
  assumes "canon_num s"
  shows "parses ind d (JNum s)"
  unfolding parses_def
proof (intro allI impI)
  obtain i where s: "s = itoa i" using assms by (auto elim: canon_numE)
  obtain c cs where c: "itoa i = c # cs" "is_digit c \<or> c = CHR ''-''" using itoa_hd by blast
  fix n rest assume "num_end rest" and "2 * length (print_json ind d (JNum s)) \<le> n"
  then obtain k where "n = Suc k" using c s by (cases n) auto
  then show "parse_value n (print_json ind d (JNum s) @ rest) = Some (JNum s, rest)"
    using parse_num_itoa [OF \<open>num_end rest\<close>, of i] c digit_not_special [OF c(2)] s by simp
qed

lemma parses_arr:
  assumes els: "\<forall>j \<in> set js. parses ind (Suc d) j" and wf: "list_all wf_json js"
  shows "parses ind d (JArr js)"
  unfolding parses_def
proof (intro allI impI)
  fix n rest assume "num_end rest" and n: "2 * length (print_json ind d (JArr js)) \<le> n"
  then obtain k where k: "n = Suc k" by (cases n) (auto split: if_splits)
  show "parse_value n (print_json ind d (JArr js) @ rest) = Some (JArr js, rest)"
  proof (cases "js = []")
    case False
    let ?e = "join (sep ind (Suc d)) (map (print_json ind (Suc d)) js)"
    have "hd js \<in> set js" using False by simp
    then have "wf_json (hd js)" using wf by (auto simp: list_all_iff)
    then obtain c cs where c: "print_json ind (Suc d) (hd js) = c # cs" "\<not> is_ws c" "c \<noteq> CHR '']''"
      using print_hd by blast
    then obtain cs' where e: "?e = c # cs'"
      using join_hd [of "map (print_json ind (Suc d)) js"] False by (auto simp: hd_map)
    have "parse_elems k (?e @ newline ind d @ '']'' @ rest) = Some (js, rest)"
      using n k False by (intro parse_elems_print els) simp_all
    then show ?thesis using k c e False by (simp add: is_ws_def)
  qed (simp add: k is_ws_def)
qed

lemma parses_obj:
  assumes els: "\<forall>(k, v) \<in> set ms. parses ind (Suc d) v"
  shows "parses ind d (JObj ms)"
  unfolding parses_def
proof (intro allI impI)
  have pm: "(\<lambda>(k, v). quote k @ colon ind @ print_json ind (Suc d) v) = print_member ind (Suc d)"
    by (simp add: print_member_def)
  fix n rest assume "num_end rest" and n: "2 * length (print_json ind d (JObj ms)) \<le> n"
  then obtain k where k: "n = Suc k" by (cases n) (auto split: if_splits)
  show "parse_value n (print_json ind d (JObj ms) @ rest) = Some (JObj ms, rest)"
  proof (cases "ms = []")
    case False
    let ?e = "join (sep ind (Suc d)) (map (print_member ind (Suc d)) ms)"
    have "\<exists>cs. hd (map (print_member ind (Suc d)) ms) = CHR 0x22 # cs"
      using False by (cases ms) (auto simp: print_member_def quote_def)
    then obtain cs' where e: "?e = CHR 0x22 # cs'"
      using join_hd [of "map (print_member ind (Suc d)) ms"] False by blast
    have "parse_members k (?e @ newline ind d @ ''}'' @ rest) = Some (ms, rest)"
      using n k False by (intro parse_members_print els) (simp_all add: pm)
    then show ?thesis using k e False by (simp add: pm is_ws_def)
  qed (simp add: k is_ws_def)
qed

lemma parse_print: "wf_json j \<Longrightarrow> parses ind d j"
proof (induction j arbitrary: d)
  case (JNum s)
  then show ?case by (simp add: parses_num)
next
  case (JArr js)
  then show ?case by (intro parses_arr) (auto simp: list_all_iff)
next
  case (JObj ms)
  then show ?case by (intro parses_obj) (force simp: list_all_iff snds.simps)
qed (auto simp: parses_def parse_lit_def is_ws_def quote_def dest!: positive_fuel Suc_le_D)

lemma parse_fuel_print: "2 * length s \<le> parse_fuel (s @ r)"
  by (simp add: parse_fuel_def)

lemma parse_printed:
  assumes "wf_json j" and "num_end r"
  shows "parse_value (parse_fuel (print_json ind 0 j @ r)) (print_json ind 0 j @ r) = Some (j, r)"
  using parse_print [OF assms(1), of ind 0] assms(2) parse_fuel_print by (auto simp: parses_def)

lemma unmarshal_printed:
  assumes "wf_json j"
  shows "unmarshal (marshal j) = Some j" and "unmarshal (marshal_indent j) = Some j"
  using parse_printed [OF assms, of "[]"]
  by (simp_all add: unmarshal_def marshal_def marshal_indent_def num_end_def skip_ws_def)

lemma decode_prefix_printed:
  assumes "wf_json j"
  shows "decode_prefix (marshal j @ [CHR 0x0A]) = Some j"
  using parse_printed [OF assms, of "[CHR 0x0A]"]
  by (simp add: decode_prefix_def marshal_def num_end_def is_digit_def)

text \<open>Reading back what the program writes: every JSON value whose numbers are integers,
  printed compactly or indented, is parsed to the same value by \<^verbatim>\<open>Unmarshal\<close>, and
  by \<^verbatim>\<open>Decoder.Decode\<close> also when a newline follows.\<close>

lemma json_roundtrip:
  assumes "wf_json j"
  shows "unmarshal (marshal j) = Some j \<and> unmarshal (marshal_indent j) = Some j
    \<and> decode_prefix (marshal j @ [CHR 0x0A]) = Some j"
  using assms by (simp add: unmarshal_printed decode_prefix_printed)

definition sample_json :: json where
  "sample_json = JObj [(''id'', JNum ''7''), (''t'', JArr [JStr ''a<b'', JNull, JBool True]), (''o'', JObj [])]"

lemma json_roundtrip_sample:
  "unmarshal (marshal sample_json) = Some sample_json \<and> unmarshal (marshal_indent sample_json) = Some sample_json
    \<and> decode_prefix (marshal sample_json @ [CHR 0x0A]) = Some sample_json"
proof -
  have "canon_num ''7''" by code_simp
  then have "wf_json sample_json" by (simp add: sample_json_def)
  then show ?thesis by (rule json_roundtrip)
qed

section \<open>The fuel is enough\<close>

lemma length_skip_ws: "length (skip_ws s) \<le> length s"
  by (simp add: skip_ws_def length_dropWhile_le)

lemma skip_ws_shorter: "skip_ws s = c # r \<Longrightarrow> length r < length s"
  using length_skip_ws [of s] by simp

lemma parse_units_shorter: "parse_units s = Some (us, r) \<Longrightarrow> length r < length s"
  by (induction s arbitrary: us r rule: parse_units.induct)
    (fastforce simp: cons_unit_def split: if_splits list.splits option.splits)+

lemma parse_string_shorter: "parse_string s = Some (t, r) \<Longrightarrow> length r < length s"
  by (auto simp: parse_string_def dest: parse_units_shorter)

lemma parse_int_part_shorter: "parse_int_part s = Some (t, r) \<Longrightarrow> length r < length s"
  by (auto simp: parse_int_part_def split: list.splits if_splits)
    (metis length_dropWhile_le less_Suc_eq_le)

lemma parse_tail_le:
  "parse_frac s = Some (t, r) \<Longrightarrow> length r \<le> length s"
  "parse_exp s = Some (t, r) \<Longrightarrow> length r \<le> length s"
proof -
  have dw: "length (dropWhile P xs) \<le> length xs" for P and xs :: string
    by (rule length_dropWhile_le)
  show "parse_frac s = Some (t, r) \<Longrightarrow> length r \<le> length s"
    by (auto simp: parse_frac_def Let_def split: list.splits if_splits intro: le_SucI dw)
  show "parse_exp s = Some (t, r) \<Longrightarrow> length r \<le> length s"
    by (auto simp: parse_exp_def Let_def split: list.splits if_splits intro: le_SucI dw)
qed

lemma parse_num_shorter: "parse_num s = Some (t, r) \<Longrightarrow> length r < length s"
  by (fastforce simp: parse_num_def Let_def bind_eq_Some_conv split: list.splits if_splits prod.splits
      dest: parse_int_part_shorter parse_tail_le)

lemma parse_lit_shorter: "word \<noteq> [] \<Longrightarrow> parse_lit word j s = Some (j', r) \<Longrightarrow> length r < length s"
  by (cases s) (auto simp: parse_lit_def split: if_splits)

lemma parse_shorter:
  "parse_value n s = Some (j, r) \<Longrightarrow> length r < length s"
  "parse_elems n s = Some (js, r) \<Longrightarrow> length r < length s"
  "parse_members n s = Some (ms, r) \<Longrightarrow> length r < length s"
proof (induction n arbitrary: s j js ms r)
  case (Suc n)
  {
    case 1
    obtain c cs where c: "skip_ws s = c # cs" using 1 by (auto split: list.splits)
    have len: "length cs < length s" using skip_ws_shorter [OF c] .
    have "length r < length (c # cs)" using 1 c
      by (auto split: if_splits list.splits dest!: parse_string_shorter parse_num_shorter Suc.IH(2,3)
          parse_lit_shorter [rotated] skip_ws_shorter)
    then show ?case using len by simp
  next
    case 2
    then show ?case
      by (fastforce split: option.splits list.splits if_splits dest: Suc.IH(1,2) skip_ws_shorter)
  next
    case 3
    then show ?case
      by (fastforce split: option.splits list.splits if_splits dest: Suc.IH(1,3) skip_ws_shorter parse_string_shorter)
  }
qed simp_all

lemma parse_fuel_step:
  "2 * length s + 1 \<le> n \<Longrightarrow> parse_value (Suc n) s = parse_value n s"
  "2 * length s + 2 \<le> n \<Longrightarrow> parse_elems (Suc n) s = parse_elems n s"
  "2 * length s + 1 \<le> n \<Longrightarrow> parse_members (Suc n) s = parse_members n s"
proof (induction n arbitrary: s)
  case (Suc n)
  {
    case 1
    have "parse_elems (Suc n) cs = parse_elems n cs \<and> parse_members (Suc n) cs = parse_members n cs"
      if "skip_ws s = c # cs" for c cs
      using skip_ws_shorter [OF that] 1 Suc.IH(2,3) [of cs] by simp
    then show ?case
      by (subst (1 2) parse_value.simps(2)) (auto split: list.split simp del: parse_elems.simps parse_members.simps)
  next
    case 2
    have v: "parse_value (Suc n) s = parse_value n s" using 2 Suc.IH(1) by simp
    have "parse_elems (Suc n) r' = parse_elems n r'"
      if "parse_value n s = Some (j, r)" "skip_ws r = d # r'" for j r d r'
      using parse_shorter(1) [OF that(1)] skip_ws_shorter [OF that(2)] 2 Suc.IH(2) [of r'] by simp
    then show ?case
      by (subst (1 2) parse_elems.simps(2))
        (auto simp: v split: list.split option.split simp del: parse_value.simps parse_elems.simps)
  next
    case 3
    have v: "parse_value (Suc n) s3 = parse_value n s3"
      if "skip_ws s = q # s1" "parse_string s1 = Some (k, s2)" "skip_ws s2 = c # s3" for q s1 k s2 c s3
      using skip_ws_shorter [OF that(1)] parse_string_shorter [OF that(2)] skip_ws_shorter [OF that(3)] 3 Suc.IH(1) [of s3]
      by simp
    have "parse_members (Suc n) s5 = parse_members n s5"
      if "skip_ws s = q # s1" "parse_string s1 = Some (k, s2)" "skip_ws s2 = c # s3"
        "parse_value n s3 = Some (v, s4)" "skip_ws s4 = d # s5" for q s1 k s2 c s3 v s4 d s5
      using skip_ws_shorter [OF that(1)] parse_string_shorter [OF that(2)] skip_ws_shorter [OF that(3)]
        parse_shorter(1) [OF that(4)] skip_ws_shorter [OF that(5)] 3 Suc.IH(3) [of s5]
      by simp
    then show ?case
      by (subst (1 2) parse_members.simps(2))
        (auto simp: v split: list.split option.split simp del: parse_value.simps parse_members.simps)
  }
qed simp_all

theorem parse_fuel_enough:
  "parse_value (parse_fuel s + n) s = parse_value (parse_fuel s) s"
  by (induction n) (simp_all add: parse_fuel_step(1) parse_fuel_def del: parse_value.simps)

end
