(* ===== verification/Decode.thy ===== *)
theory Decode
  imports JsonRoundtrip
begin

text \<open>
  How \<^verbatim>\<open>encoding/json\<close> stores a JSON value into a Go variable. A decoder takes
  the value and what the variable holds, and returns what it holds afterwards and whether a
  type error was recorded: Go keeps decoding after such an error and reports the first one at
  the end, so a failed call can leave a half-filled variable behind. Decoding merges:
  members that are absent keep the old field, array elements are decoded into the old elements,
  map entries are added to the old map, and \<^verbatim>\<open>null\<close> changes nothing except that it
  empties a slice or map.

  The locale \<open>codec\<close> is the contract between a document type and the persistence layer:
  what \<^verbatim>\<open>Marshal\<close> writes decodes, into a zero variable, to the same document.
\<close>

type_synonym 'a decoder = "json \<Rightarrow> 'a \<Rightarrow> 'a \<times> bool"

definition dec_int :: "int decoder" where
  "dec_int j v = (case j of JNull \<Rightarrow> (v, False)
     | JNum s \<Rightarrow> (case atoi s of Some i \<Rightarrow> (i, False) | None \<Rightarrow> (v, True))
     | _ \<Rightarrow> (v, True))"

definition dec_int64 :: "int64 decoder" where
  "dec_int64 j v = (case j of JNull \<Rightarrow> (v, False)
     | JNum s \<Rightarrow> (case atoi s of Some i \<Rightarrow> (word_of_int i, False) | None \<Rightarrow> (v, True))
     | _ \<Rightarrow> (v, True))"

definition dec_string :: "string decoder" where
  "dec_string j v = (case j of JNull \<Rightarrow> (v, False) | JStr s \<Rightarrow> (s, False) | _ \<Rightarrow> (v, True))"

definition dec_bool :: "bool decoder" where
  "dec_bool j v = (case j of JNull \<Rightarrow> (v, False) | JBool b \<Rightarrow> (b, False) | _ \<Rightarrow> (v, True))"

text \<open>A struct is its list of fields. A member goes to the field of exactly its name, else to the
  first field whose name agrees up to letter case, else it is skipped.\<close>

type_synonym 'a field = "string \<times> 'a decoder"

definition field_of :: "'b decoder \<Rightarrow> ('a \<Rightarrow> 'b) \<Rightarrow> ('b \<Rightarrow> 'a \<Rightarrow> 'a) \<Rightarrow> 'a decoder" where
  "field_of d get put j v = (let (x, e) = d j (get v) in (put x v, e))"

definition find_field :: "'a field list \<Rightarrow> string \<Rightarrow> 'a decoder option" where
  "find_field fs k = (case map_of fs k of Some d \<Rightarrow> Some d
     | None \<Rightarrow> map_of (map (\<lambda>(n, d). (to_lower n, d)) fs) (to_lower k))"

fun dec_members :: "'a field list \<Rightarrow> (string \<times> json) list \<Rightarrow> 'a \<Rightarrow> 'a \<times> bool" where
  "dec_members fs [] v = (v, False)"
| "dec_members fs ((k, j) # ms) v = (case find_field fs k of None \<Rightarrow> dec_members fs ms v
     | Some d \<Rightarrow> (let (v', e) = d j v; (v'', e') = dec_members fs ms v' in (v'', e \<or> e')))"

definition dec_struct :: "'a field list \<Rightarrow> 'a decoder" where
  "dec_struct fs j v = (case j of JNull \<Rightarrow> (v, False) | JObj ms \<Rightarrow> dec_members fs ms v | _ \<Rightarrow> (v, True))"

fun dec_elems :: "'a \<Rightarrow> 'a decoder \<Rightarrow> json list \<Rightarrow> 'a list \<Rightarrow> 'a list \<times> bool" where
  "dec_elems z d [] old = ([], False)"
| "dec_elems z d (j # js) old = (let (x, e) = d j (case old of [] \<Rightarrow> z | v # vs \<Rightarrow> v);
     (xs, e') = dec_elems z d js (tl old) in (x # xs, e \<or> e'))"

definition dec_slice :: "'a \<Rightarrow> 'a decoder \<Rightarrow> 'a list decoder" where
  "dec_slice z d j v = (case j of JNull \<Rightarrow> ([], False) | JArr js \<Rightarrow> dec_elems z d js v | _ \<Rightarrow> (v, True))"

fun dec_entries :: "'a \<Rightarrow> 'a decoder \<Rightarrow> (string \<times> json) list \<Rightarrow> (string, 'a) gomap \<Rightarrow> (string, 'a) gomap \<times> bool" where
  "dec_entries z d [] m = (m, False)"
| "dec_entries z d ((k, j) # ms) m = (let (x, e) = d j z; (m', e') = dec_entries z d ms (mput k x m) in (m', e \<or> e'))"

definition dec_map :: "'a \<Rightarrow> 'a decoder \<Rightarrow> (string, 'a) gomap decoder" where
  "dec_map z d j m = (case j of JNull \<Rightarrow> ([], False) | JObj ms \<Rightarrow> dec_entries z d ms m | _ \<Rightarrow> (m, True))"

text \<open>\<^verbatim>\<open>json.Unmarshal\<close> checks the whole text first: a syntax error leaves the
  variable untouched. The Boolean is \<^verbatim>\<open>err != nil\<close>.\<close>

definition unmarshal_into :: "'a decoder \<Rightarrow> string \<Rightarrow> 'a \<Rightarrow> 'a \<times> bool" where
  "unmarshal_into d s v = (case unmarshal s of None \<Rightarrow> (v, True) | Some j \<Rightarrow> d j v)"

section \<open>Encoding\<close>

definition enc_int :: "int \<Rightarrow> json" where
  "enc_int i = JNum (itoa i)"

definition omit_empty_str :: "string \<Rightarrow> string \<Rightarrow> (string \<times> json) list" where
  "omit_empty_str k s = (if s = [] then [] else [(k, JStr s)])"

definition omit_empty_int :: "string \<Rightarrow> int \<Rightarrow> (string \<times> json) list" where
  "omit_empty_int k i = (if i = 0 then [] else [(k, enc_int i)])"

lemma dec_int_enc [simp]: "in_int64 i \<Longrightarrow> dec_int (enc_int i) v = (i, False)"
  by (simp add: dec_int_def enc_int_def atoi_itoa)

lemma dec_int64_enc [simp]: "dec_int64 (enc_int (sint w)) v = (w, False)"
  by (simp add: dec_int64_def enc_int_def atoi_itoa sint_range64)

lemma dec_basic_simps [simp]:
  "dec_string (JStr s) v = (s, False)" "dec_bool (JBool b) v' = (b, False)"
  by (simp_all add: dec_string_def dec_bool_def)

lemma dec_struct_JObj [simp]: "dec_struct fs (JObj ms) v = dec_members fs ms v"
  by (simp add: dec_struct_def)

lemma dec_containers [simp]:
  "dec_slice z d (JArr js) xs = dec_elems z d js xs" "dec_map z d (JObj ms) m = dec_entries z d ms m"
  by (simp_all add: dec_slice_def dec_map_def)

lemma wf_enc_int [simp]: "in_int64 i \<Longrightarrow> wf_json (enc_int i)"
  by (simp add: enc_int_def canon_num_itoa)

lemma in_int64_0 [simp]: "in_int64 0"
  by (simp add: in_int64_def min_int64_def max_int64_def)

lemma find_field_exact [simp]: "map_of fs k = Some d \<Longrightarrow> find_field fs k = Some d"
  by (simp add: find_field_def)

lemma dec_members_append:
  "dec_members fs (ms @ ns) v = (let (v', e) = dec_members fs ms v; (v'', e') = dec_members fs ns v' in (v'', e \<or> e'))"
  by (induction fs ms v rule: dec_members.induct) (auto simp: Let_def split: prod.splits option.splits)

lemma dec_omit_empty [simp]:
  "find_field fs k = Some (field_of dec_string get put) \<Longrightarrow>
    dec_members fs (omit_empty_str k s) v = (if s = [] then v else put s v, False)"
  "find_field fs k = Some (field_of dec_int geti puti) \<Longrightarrow> in_int64 i \<Longrightarrow>
    dec_members fs (omit_empty_int k i) v = (if i = 0 then v else puti i v, False)"
  by (simp_all add: omit_empty_str_def omit_empty_int_def field_of_def)

lemma wf_omit_empty [simp]:
  "list_all (\<lambda>(k, v). wf_json v) (omit_empty_str k s)"
  "in_int64 i \<Longrightarrow> list_all (\<lambda>(k, v). wf_json v) (omit_empty_int k i)"
  by (simp_all add: omit_empty_str_def omit_empty_int_def)

lemma dec_elems_map:
  assumes "\<And>x. x \<in> set xs \<Longrightarrow> d (enc x) z = (x, False)"
  shows "dec_elems z d (map enc xs) [] = (xs, False)"
  using assms by (induction xs) auto

lemma dec_entries_map:
  assumes "\<And>k x. (k, x) \<in> set ms \<Longrightarrow> d (enc x) z = (x, False)" and "wf_map (m @ ms)"
  shows "dec_entries z d (map (\<lambda>(k, x). (k, enc x)) ms) m = (m @ ms, False)"
  using assms
proof (induction ms arbitrary: m)
  case (Cons p ms)
  obtain k x where p: "p = (k, x)" by (cases p)
  have "mput k x m = m @ [(k, x)]" using Cons.prems(2) p by (simp add: mput_new)
  moreover have "d (enc x) z = (x, False)" using Cons.prems(1) p by auto
  moreover have "dec_entries z d (map (\<lambda>(k, x). (k, enc x)) ms) (m @ [(k, x)]) = ((m @ [(k, x)]) @ ms, False)"
    using Cons.prems p by (intro Cons.IH) auto
  ultimately show ?case using p by simp
qed simp

section \<open>The contract of a document type\<close>

locale codec =
  fixes enc :: "'a \<Rightarrow> json" and dec :: "'a decoder" and zero :: 'a
    and good :: "'a \<Rightarrow> bool" and canon :: "'a \<Rightarrow> 'a"
  assumes enc_wf: "good x \<Longrightarrow> wf_json (enc x)"
    and dec_enc: "good x \<Longrightarrow> dec (enc x) zero = (canon x, False)"
begin

lemma unmarshal_marshal:
  "good x \<Longrightarrow> unmarshal_into dec (marshal (enc x)) zero = (canon x, False)"
  "good x \<Longrightarrow> unmarshal_into dec (marshal_indent (enc x)) zero = (canon x, False)"
  by (simp_all add: unmarshal_into_def unmarshal_printed enc_wf dec_enc)

end

end
