(* ===== verification/Schema.thy ===== *)
theory Schema
  imports Decode "HOL-Library.List_Lexorder" "HOL-Library.Char_ord"
begin

text \<open>
  The documents of \<^verbatim>\<open>tiny-xboard/store.go\<close>: \<^verbatim>\<open>node.json\<close>,
  \<^verbatim>\<open>nodes.json\<close>, \<^verbatim>\<open>users.json\<close> and
  \<^verbatim>\<open>traffic.json\<close>, with the JSON they are written as and the decoders that their
  struct tags give. Each document type interprets \<open>codec\<close>.
\<close>

section \<open>Structs\<close>

record server_cfg =
  srv_listen :: string
  srv_port :: int

record protocol_cfg =
  proto_type :: string
  proto_network :: string
  proto_flow :: string
  proto_decryption :: string

record tls_cfg =
  tls_enabled :: bool
  tls_server_name :: string
  tls_server_port :: int
  tls_public_key :: string
  tls_private_key :: string
  tls_short_id :: string
  tls_allow_insecure :: bool

record runtime_cfg =
  rt_sync_interval :: int
  rt_traffic_flush_interval :: int

record node_info =
  ni_id :: int
  ni_name :: string
  ni_type :: string
  ni_enabled :: bool

record auth_cfg =
  auth_token :: string

record node_file =
  nf_version :: int
  nf_node :: node_info
  nf_auth :: auth_cfg
  nf_server :: server_cfg
  nf_protocol :: protocol_cfg
  nf_tls :: tls_cfg
  nf_runtime :: runtime_cfg

record node_entry =
  ne_id :: int
  ne_name :: string
  ne_type :: string
  ne_enabled :: bool
  ne_token :: string
  ne_server :: server_cfg
  ne_protocol :: protocol_cfg
  ne_tls :: tls_cfg
  ne_runtime :: runtime_cfg

record nodes_file =
  nsf_version :: int
  nsf_token :: string
  nsf_nodes :: "node_entry list"

record xuser =
  xu_id :: int
  xu_uuid :: string
  xu_password :: string
  xu_name :: string
  xu_speed_limit :: int
  xu_enabled :: bool

record users_file =
  uf_version :: int
  uf_users :: "xuser list"

record traffic =
  upload :: int64
  download :: int64

record traffic_file =
  tf_version :: int
  tf_updated_at :: int
  tf_users :: "(string, traffic) gomap"

section \<open>Zero values\<close>

definition zero_server :: server_cfg where
  "zero_server = \<lparr>srv_listen = [], srv_port = 0\<rparr>"

definition zero_protocol :: protocol_cfg where
  "zero_protocol = \<lparr>proto_type = [], proto_network = [], proto_flow = [], proto_decryption = []\<rparr>"

definition zero_tls :: tls_cfg where
  "zero_tls = \<lparr>tls_enabled = False, tls_server_name = [], tls_server_port = 0, tls_public_key = [],
     tls_private_key = [], tls_short_id = [], tls_allow_insecure = False\<rparr>"

definition zero_runtime :: runtime_cfg where
  "zero_runtime = \<lparr>rt_sync_interval = 0, rt_traffic_flush_interval = 0\<rparr>"

definition zero_node_info :: node_info where
  "zero_node_info = \<lparr>ni_id = 0, ni_name = [], ni_type = [], ni_enabled = False\<rparr>"

definition zero_node_file :: node_file where
  "zero_node_file = \<lparr>nf_version = 0, nf_node = zero_node_info, nf_auth = \<lparr>auth_token = []\<rparr>,
     nf_server = zero_server, nf_protocol = zero_protocol, nf_tls = zero_tls, nf_runtime = zero_runtime\<rparr>"

definition zero_entry :: node_entry where
  "zero_entry = \<lparr>ne_id = 0, ne_name = [], ne_type = [], ne_enabled = False, ne_token = [],
     ne_server = zero_server, ne_protocol = zero_protocol, ne_tls = zero_tls, ne_runtime = zero_runtime\<rparr>"

definition zero_nodes_file :: nodes_file where
  "zero_nodes_file = \<lparr>nsf_version = 0, nsf_token = [], nsf_nodes = []\<rparr>"

definition zero_xuser :: xuser where
  "zero_xuser = \<lparr>xu_id = 0, xu_uuid = [], xu_password = [], xu_name = [], xu_speed_limit = 0, xu_enabled = False\<rparr>"

definition zero_users_file :: users_file where
  "zero_users_file = \<lparr>uf_version = 0, uf_users = []\<rparr>"

definition zero_traffic :: traffic where
  "zero_traffic = \<lparr>upload = 0, download = 0\<rparr>"

definition zero_traffic_file :: traffic_file where
  "zero_traffic_file = \<lparr>tf_version = 0, tf_updated_at = 0, tf_users = []\<rparr>"

lemmas zero_defs = zero_server_def zero_protocol_def zero_tls_def zero_runtime_def zero_node_info_def
  zero_node_file_def zero_entry_def zero_nodes_file_def zero_xuser_def zero_users_file_def
  zero_traffic_def zero_traffic_file_def

section \<open>Decoders\<close>

definition server_fields :: "server_cfg field list" where
  "server_fields = [(''listen'', field_of dec_string srv_listen (\<lambda>x. srv_listen_update (\<lambda>_. x))),
     (''port'', field_of dec_int srv_port (\<lambda>x. srv_port_update (\<lambda>_. x)))]"

definition protocol_fields :: "protocol_cfg field list" where
  "protocol_fields = [(''type'', field_of dec_string proto_type (\<lambda>x. proto_type_update (\<lambda>_. x))),
     (''network'', field_of dec_string proto_network (\<lambda>x. proto_network_update (\<lambda>_. x))),
     (''flow'', field_of dec_string proto_flow (\<lambda>x. proto_flow_update (\<lambda>_. x))),
     (''decryption'', field_of dec_string proto_decryption (\<lambda>x. proto_decryption_update (\<lambda>_. x)))]"

definition tls_fields :: "tls_cfg field list" where
  "tls_fields = [(''enabled'', field_of dec_bool tls_enabled (\<lambda>x. tls_enabled_update (\<lambda>_. x))),
     (''server_name'', field_of dec_string tls_server_name (\<lambda>x. tls_server_name_update (\<lambda>_. x))),
     (''server_port'', field_of dec_int tls_server_port (\<lambda>x. tls_server_port_update (\<lambda>_. x))),
     (''public_key'', field_of dec_string tls_public_key (\<lambda>x. tls_public_key_update (\<lambda>_. x))),
     (''private_key'', field_of dec_string tls_private_key (\<lambda>x. tls_private_key_update (\<lambda>_. x))),
     (''short_id'', field_of dec_string tls_short_id (\<lambda>x. tls_short_id_update (\<lambda>_. x))),
     (''allow_insecure'', field_of dec_bool tls_allow_insecure (\<lambda>x. tls_allow_insecure_update (\<lambda>_. x)))]"

definition runtime_fields :: "runtime_cfg field list" where
  "runtime_fields = [(''sync_interval'', field_of dec_int rt_sync_interval (\<lambda>x. rt_sync_interval_update (\<lambda>_. x))),
     (''traffic_flush_interval'', field_of dec_int rt_traffic_flush_interval (\<lambda>x. rt_traffic_flush_interval_update (\<lambda>_. x)))]"

definition node_info_fields :: "node_info field list" where
  "node_info_fields = [(''id'', field_of dec_int ni_id (\<lambda>x. ni_id_update (\<lambda>_. x))),
     (''name'', field_of dec_string ni_name (\<lambda>x. ni_name_update (\<lambda>_. x))),
     (''type'', field_of dec_string ni_type (\<lambda>x. ni_type_update (\<lambda>_. x))),
     (''enabled'', field_of dec_bool ni_enabled (\<lambda>x. ni_enabled_update (\<lambda>_. x)))]"

definition auth_fields :: "auth_cfg field list" where
  "auth_fields = [(''token'', field_of dec_string auth_token (\<lambda>x. auth_token_update (\<lambda>_. x)))]"

definition node_file_fields :: "node_file field list" where
  "node_file_fields = [(''version'', field_of dec_int nf_version (\<lambda>x. nf_version_update (\<lambda>_. x))),
     (''node'', field_of (dec_struct node_info_fields) nf_node (\<lambda>x. nf_node_update (\<lambda>_. x))),
     (''auth'', field_of (dec_struct auth_fields) nf_auth (\<lambda>x. nf_auth_update (\<lambda>_. x))),
     (''server'', field_of (dec_struct server_fields) nf_server (\<lambda>x. nf_server_update (\<lambda>_. x))),
     (''protocol'', field_of (dec_struct protocol_fields) nf_protocol (\<lambda>x. nf_protocol_update (\<lambda>_. x))),
     (''tls'', field_of (dec_struct tls_fields) nf_tls (\<lambda>x. nf_tls_update (\<lambda>_. x))),
     (''runtime'', field_of (dec_struct runtime_fields) nf_runtime (\<lambda>x. nf_runtime_update (\<lambda>_. x)))]"

definition entry_fields :: "node_entry field list" where
  "entry_fields = [(''id'', field_of dec_int ne_id (\<lambda>x. ne_id_update (\<lambda>_. x))),
     (''name'', field_of dec_string ne_name (\<lambda>x. ne_name_update (\<lambda>_. x))),
     (''type'', field_of dec_string ne_type (\<lambda>x. ne_type_update (\<lambda>_. x))),
     (''enabled'', field_of dec_bool ne_enabled (\<lambda>x. ne_enabled_update (\<lambda>_. x))),
     (''token'', field_of dec_string ne_token (\<lambda>x. ne_token_update (\<lambda>_. x))),
     (''server'', field_of (dec_struct server_fields) ne_server (\<lambda>x. ne_server_update (\<lambda>_. x))),
     (''protocol'', field_of (dec_struct protocol_fields) ne_protocol (\<lambda>x. ne_protocol_update (\<lambda>_. x))),
     (''tls'', field_of (dec_struct tls_fields) ne_tls (\<lambda>x. ne_tls_update (\<lambda>_. x))),
     (''runtime'', field_of (dec_struct runtime_fields) ne_runtime (\<lambda>x. ne_runtime_update (\<lambda>_. x)))]"

definition nodes_file_fields :: "nodes_file field list" where
  "nodes_file_fields = [(''version'', field_of dec_int nsf_version (\<lambda>x. nsf_version_update (\<lambda>_. x))),
     (''token'', field_of dec_string nsf_token (\<lambda>x. nsf_token_update (\<lambda>_. x))),
     (''nodes'', field_of (dec_slice zero_entry (dec_struct entry_fields)) nsf_nodes (\<lambda>x. nsf_nodes_update (\<lambda>_. x)))]"

definition xuser_fields :: "xuser field list" where
  "xuser_fields = [(''id'', field_of dec_int xu_id (\<lambda>x. xu_id_update (\<lambda>_. x))),
     (''uuid'', field_of dec_string xu_uuid (\<lambda>x. xu_uuid_update (\<lambda>_. x))),
     (''password'', field_of dec_string xu_password (\<lambda>x. xu_password_update (\<lambda>_. x))),
     (''name'', field_of dec_string xu_name (\<lambda>x. xu_name_update (\<lambda>_. x))),
     (''speed_limit'', field_of dec_int xu_speed_limit (\<lambda>x. xu_speed_limit_update (\<lambda>_. x))),
     (''enabled'', field_of dec_bool xu_enabled (\<lambda>x. xu_enabled_update (\<lambda>_. x)))]"

definition users_file_fields :: "users_file field list" where
  "users_file_fields = [(''version'', field_of dec_int uf_version (\<lambda>x. uf_version_update (\<lambda>_. x))),
     (''users'', field_of (dec_slice zero_xuser (dec_struct xuser_fields)) uf_users (\<lambda>x. uf_users_update (\<lambda>_. x)))]"

definition traffic_fields :: "traffic field list" where
  "traffic_fields = [(''upload'', field_of dec_int64 upload (\<lambda>x. upload_update (\<lambda>_. x))),
     (''download'', field_of dec_int64 download (\<lambda>x. download_update (\<lambda>_. x)))]"

definition traffic_file_fields :: "traffic_file field list" where
  "traffic_file_fields = [(''version'', field_of dec_int tf_version (\<lambda>x. tf_version_update (\<lambda>_. x))),
     (''updated_at'', field_of dec_int tf_updated_at (\<lambda>x. tf_updated_at_update (\<lambda>_. x))),
     (''users'', field_of (dec_map zero_traffic (dec_struct traffic_fields)) tf_users (\<lambda>x. tf_users_update (\<lambda>_. x)))]"

definition dec_node_file :: "node_file decoder" where "dec_node_file = dec_struct node_file_fields"
definition dec_nodes_file :: "nodes_file decoder" where "dec_nodes_file = dec_struct nodes_file_fields"
definition dec_users_file :: "users_file decoder" where "dec_users_file = dec_struct users_file_fields"
definition dec_traffic_file :: "traffic_file decoder" where "dec_traffic_file = dec_struct traffic_file_fields"

lemmas fields_defs = server_fields_def protocol_fields_def tls_fields_def runtime_fields_def
  node_info_fields_def auth_fields_def node_file_fields_def entry_fields_def nodes_file_fields_def
  xuser_fields_def users_file_fields_def traffic_fields_def traffic_file_fields_def

section \<open>Encoders\<close>

definition enc_server :: "server_cfg \<Rightarrow> json" where
  "enc_server c = JObj [(''listen'', JStr (srv_listen c)), (''port'', enc_int (srv_port c))]"

definition enc_protocol :: "protocol_cfg \<Rightarrow> json" where
  "enc_protocol c = JObj [(''type'', JStr (proto_type c)), (''network'', JStr (proto_network c)),
     (''flow'', JStr (proto_flow c)), (''decryption'', JStr (proto_decryption c))]"

definition enc_tls :: "tls_cfg \<Rightarrow> json" where
  "enc_tls c = JObj [(''enabled'', JBool (tls_enabled c)), (''server_name'', JStr (tls_server_name c)),
     (''server_port'', enc_int (tls_server_port c)), (''public_key'', JStr (tls_public_key c)),
     (''private_key'', JStr (tls_private_key c)), (''short_id'', JStr (tls_short_id c)),
     (''allow_insecure'', JBool (tls_allow_insecure c))]"

definition enc_runtime :: "runtime_cfg \<Rightarrow> json" where
  "enc_runtime c = JObj [(''sync_interval'', enc_int (rt_sync_interval c)),
     (''traffic_flush_interval'', enc_int (rt_traffic_flush_interval c))]"

definition enc_node_info :: "node_info \<Rightarrow> json" where
  "enc_node_info c = JObj [(''id'', enc_int (ni_id c)), (''name'', JStr (ni_name c)),
     (''type'', JStr (ni_type c)), (''enabled'', JBool (ni_enabled c))]"

definition enc_node_file :: "node_file \<Rightarrow> json" where
  "enc_node_file f = JObj [(''version'', enc_int (nf_version f)), (''node'', enc_node_info (nf_node f)),
     (''auth'', JObj [(''token'', JStr (auth_token (nf_auth f)))]), (''server'', enc_server (nf_server f)),
     (''protocol'', enc_protocol (nf_protocol f)), (''tls'', enc_tls (nf_tls f)),
     (''runtime'', enc_runtime (nf_runtime f))]"

definition enc_entry :: "node_entry \<Rightarrow> json" where
  "enc_entry e = JObj ((''id'', enc_int (ne_id e)) # omit_empty_str ''name'' (ne_name e)
     @ (''type'', JStr (ne_type e)) # (''enabled'', JBool (ne_enabled e))
     # omit_empty_str ''token'' (ne_token e) @ [(''server'', enc_server (ne_server e)),
       (''protocol'', enc_protocol (ne_protocol e)), (''tls'', enc_tls (ne_tls e)),
       (''runtime'', enc_runtime (ne_runtime e))])"

definition enc_nodes_file :: "nodes_file \<Rightarrow> json" where
  "enc_nodes_file f = JObj [(''version'', enc_int (nsf_version f)), (''token'', JStr (nsf_token f)),
     (''nodes'', JArr (map enc_entry (nsf_nodes f)))]"

definition enc_xuser :: "xuser \<Rightarrow> json" where
  "enc_xuser u = JObj ((''id'', enc_int (xu_id u)) # (''uuid'', JStr (xu_uuid u))
     # omit_empty_str ''password'' (xu_password u) @ omit_empty_str ''name'' (xu_name u)
     @ omit_empty_int ''speed_limit'' (xu_speed_limit u) @ [(''enabled'', JBool (xu_enabled u))])"

definition enc_users_file :: "users_file \<Rightarrow> json" where
  "enc_users_file f = JObj [(''version'', enc_int (uf_version f)), (''users'', JArr (map enc_xuser (uf_users f)))]"

definition enc_traffic :: "traffic \<Rightarrow> json" where
  "enc_traffic t = JObj [(''upload'', enc_int (sint (upload t))), (''download'', enc_int (sint (download t)))]"

text \<open>Marshal writes the entries of a map in the order of their keys.\<close>

definition sorted_entries :: "(string, 'a) gomap \<Rightarrow> (string, 'a) gomap" where
  "sorted_entries m = sort_key fst m"

definition enc_traffic_file :: "traffic_file \<Rightarrow> json" where
  "enc_traffic_file f = JObj [(''version'', enc_int (tf_version f)), (''updated_at'', enc_int (tf_updated_at f)),
     (''users'', JObj (map (\<lambda>(k, t). (k, enc_traffic t)) (sorted_entries (tf_users f))))]"

lemmas enc_defs = enc_server_def enc_protocol_def enc_tls_def enc_runtime_def enc_node_info_def
  enc_node_file_def enc_entry_def enc_nodes_file_def enc_xuser_def enc_users_file_def
  enc_traffic_def enc_traffic_file_def

section \<open>Round trips\<close>

definition good_server :: "server_cfg \<Rightarrow> bool" where
  "good_server c \<longleftrightarrow> in_int64 (srv_port c)"

definition good_tls :: "tls_cfg \<Rightarrow> bool" where
  "good_tls c \<longleftrightarrow> in_int64 (tls_server_port c)"

definition good_runtime :: "runtime_cfg \<Rightarrow> bool" where
  "good_runtime c \<longleftrightarrow> in_int64 (rt_sync_interval c) \<and> in_int64 (rt_traffic_flush_interval c)"

definition good_node_file :: "node_file \<Rightarrow> bool" where
  "good_node_file f \<longleftrightarrow> in_int64 (nf_version f) \<and> in_int64 (ni_id (nf_node f)) \<and> good_server (nf_server f)
     \<and> good_tls (nf_tls f) \<and> good_runtime (nf_runtime f)"

definition good_entry :: "node_entry \<Rightarrow> bool" where
  "good_entry e \<longleftrightarrow> in_int64 (ne_id e) \<and> good_server (ne_server e) \<and> good_tls (ne_tls e) \<and> good_runtime (ne_runtime e)"

definition good_nodes_file :: "nodes_file \<Rightarrow> bool" where
  "good_nodes_file f \<longleftrightarrow> in_int64 (nsf_version f) \<and> list_all good_entry (nsf_nodes f)"

definition good_xuser :: "xuser \<Rightarrow> bool" where
  "good_xuser u \<longleftrightarrow> in_int64 (xu_id u) \<and> in_int64 (xu_speed_limit u)"

definition good_users_file :: "users_file \<Rightarrow> bool" where
  "good_users_file f \<longleftrightarrow> in_int64 (uf_version f) \<and> list_all good_xuser (uf_users f)"

definition good_traffic_file :: "traffic_file \<Rightarrow> bool" where
  "good_traffic_file f \<longleftrightarrow> in_int64 (tf_version f) \<and> in_int64 (tf_updated_at f) \<and> wf_map (tf_users f)"

lemmas good_defs = good_server_def good_tls_def good_runtime_def good_node_file_def good_entry_def
  good_nodes_file_def good_xuser_def good_users_file_def good_traffic_file_def

lemma dec_parts [simp]:
  "good_server c \<Longrightarrow> dec_struct server_fields (enc_server c) v = (c, False)"
  "dec_struct protocol_fields (enc_protocol p) w = (p, False)"
  "good_tls t \<Longrightarrow> dec_struct tls_fields (enc_tls t) x = (t, False)"
  "good_runtime r \<Longrightarrow> dec_struct runtime_fields (enc_runtime r) y = (r, False)"
  "in_int64 (ni_id i) \<Longrightarrow> dec_struct node_info_fields (enc_node_info i) z = (i, False)"
  by (simp_all add: dec_struct_def enc_defs fields_defs field_of_def good_defs)

lemma wf_parts [simp]:
  "good_server c \<Longrightarrow> wf_json (enc_server c)" "wf_json (enc_protocol p)"
  "good_tls t \<Longrightarrow> wf_json (enc_tls t)" "good_runtime r \<Longrightarrow> wf_json (enc_runtime r)"
  "in_int64 (ni_id i) \<Longrightarrow> wf_json (enc_node_info i)"
  by (simp_all add: enc_defs good_defs)

lemma dec_entry_enc:
  assumes "good_entry e"
  shows "dec_struct entry_fields (enc_entry e) zero_entry = (e, False)"
  using assms
  by (cases e) (auto simp: enc_entry_def entry_fields_def field_of_def zero_entry_def
      dec_members_append omit_empty_str_def good_entry_def)

lemma dec_xuser_enc:
  assumes "good_xuser u"
  shows "dec_struct xuser_fields (enc_xuser u) zero_xuser = (u, False)"
  using assms
  by (cases u) (auto simp: enc_xuser_def xuser_fields_def field_of_def zero_xuser_def
      dec_members_append omit_empty_str_def omit_empty_int_def good_xuser_def)

lemma dec_traffic_enc [simp]: "dec_struct traffic_fields (enc_traffic t) v = (t, False)"
  by (simp add: dec_struct_def enc_traffic_def traffic_fields_def field_of_def)

lemma wf_enc_traffic [simp]: "wf_json (enc_traffic t)"
  by (simp add: enc_traffic_def sint_range64)

lemma wf_enc_entry: "good_entry e \<Longrightarrow> wf_json (enc_entry e)"
  by (simp add: enc_entry_def good_entry_def)

lemma wf_enc_xuser: "good_xuser u \<Longrightarrow> wf_json (enc_xuser u)"
  by (simp add: enc_xuser_def good_xuser_def)

interpretation node_doc: codec enc_node_file dec_node_file zero_node_file good_node_file "\<lambda>f. f"
proof
  fix f assume "good_node_file f"
  then show "wf_json (enc_node_file f)" and "dec_node_file (enc_node_file f) zero_node_file = (f, False)"
    by (simp_all add: enc_node_file_def good_node_file_def dec_node_file_def
        node_file_fields_def auth_fields_def field_of_def zero_node_file_def)
qed

interpretation nodes_doc: codec enc_nodes_file dec_nodes_file zero_nodes_file good_nodes_file "\<lambda>f. f"
proof
  fix f assume good: "good_nodes_file f"
  then have "dec_elems zero_entry (dec_struct entry_fields) (map enc_entry (nsf_nodes f)) [] = (nsf_nodes f, False)"
    by (intro dec_elems_map dec_entry_enc) (auto simp: good_nodes_file_def list_all_iff)
  with good show "dec_nodes_file (enc_nodes_file f) zero_nodes_file = (f, False)"
    by (simp add: enc_nodes_file_def good_nodes_file_def dec_nodes_file_def
        nodes_file_fields_def field_of_def zero_nodes_file_def)
  from good show "wf_json (enc_nodes_file f)"
    by (auto simp: enc_nodes_file_def good_nodes_file_def list_all_iff wf_enc_entry)
qed

interpretation users_doc: codec enc_users_file dec_users_file zero_users_file good_users_file "\<lambda>f. f"
proof
  fix f assume good: "good_users_file f"
  then have "dec_elems zero_xuser (dec_struct xuser_fields) (map enc_xuser (uf_users f)) [] = (uf_users f, False)"
    by (intro dec_elems_map dec_xuser_enc) (auto simp: good_users_file_def list_all_iff)
  with good show "dec_users_file (enc_users_file f) zero_users_file = (f, False)"
    by (simp add: enc_users_file_def good_users_file_def dec_users_file_def
        users_file_fields_def field_of_def zero_users_file_def)
  from good show "wf_json (enc_users_file f)"
    by (auto simp: enc_users_file_def good_users_file_def list_all_iff wf_enc_xuser)
qed

lemma wf_sorted_entries: "wf_map m \<Longrightarrow> wf_map (sorted_entries m)"
  by (simp add: sorted_entries_def distinct_map)

lemma mget_sorted_entries: "wf_map m \<Longrightarrow> mget (sorted_entries m) k = mget m k"
  by (metis map_of_inject_set set_sort sorted_entries_def wf_sorted_entries)

interpretation traffic_doc: codec enc_traffic_file dec_traffic_file zero_traffic_file good_traffic_file
  "\<lambda>f. f\<lparr>tf_users := sorted_entries (tf_users f)\<rparr>"
proof
  fix f assume good: "good_traffic_file f"
  then have "wf_map (sorted_entries (tf_users f))"
    by (simp add: good_traffic_file_def wf_sorted_entries)
  then have "dec_entries zero_traffic (dec_struct traffic_fields)
      (map (\<lambda>(k, t). (k, enc_traffic t)) (sorted_entries (tf_users f))) [] = (sorted_entries (tf_users f), False)"
    using dec_entries_map [of "sorted_entries (tf_users f)" "dec_struct traffic_fields" enc_traffic zero_traffic "[]"]
    by simp
  with good show "dec_traffic_file (enc_traffic_file f) zero_traffic_file
      = (f\<lparr>tf_users := sorted_entries (tf_users f)\<rparr>, False)"
    by (simp add: enc_traffic_file_def good_traffic_file_def dec_traffic_file_def
        traffic_file_fields_def field_of_def zero_traffic_file_def)
  from good show "wf_json (enc_traffic_file f)"
    by (auto simp: enc_traffic_file_def good_traffic_file_def list_all_iff)
qed

end
