(* ===== verification/Persist.thy ===== *)
theory Persist
  imports Schema
begin

text \<open>
  \<^verbatim>\<open>tiny-xboard/persist.go\<close>: replacing a state file atomically and reading it
  back. A file system maps paths to contents. \<open>aw_step\<close> is the step relation of
  \<^verbatim>\<open>AtomicWriteWithBackup\<close>, one rule per system call and outcome; a power loss can
  stop it after any step. \<open>atomic_write\<close> is the same routine as a function of the faults
  that the calls meet, and is proved to follow the relation. \<open>load_file\<close> and
  \<open>load_with_fallback\<close> are the readers.
\<close>

section \<open>Files\<close>

type_synonym fs = "string \<Rightarrow> string option"

definition tmp_of :: "string \<Rightarrow> string" where "tmp_of path = path @ ''.tmp''"
definition bak_of :: "string \<Rightarrow> string" where "bak_of path = path @ ''.bak''"

lemma paths_distinct [simp]:
  "tmp_of p \<noteq> p" "p \<noteq> tmp_of p" "bak_of p \<noteq> p" "p \<noteq> bak_of p" "tmp_of p \<noteq> bak_of p" "bak_of p \<noteq> tmp_of p"
  by (auto simp: tmp_of_def bak_of_def)

definition max_state_file_size :: nat where
  "max_state_file_size = 16777216"

definition bom :: string where
  "bom = [CHR 0xEF, CHR 0xBB, CHR 0xBF]"

definition trim_bom :: "string \<Rightarrow> string" where
  "trim_bom s = (if take 3 s = bom then drop 3 s else s)"

text \<open>\<open>Wrapped\<close> is an error built with \<^verbatim>\<open>fmt.Errorf\<close> and \<^verbatim>\<open>%w\<close>, which
  \<^verbatim>\<open>os.IsNotExist\<close> does not look into.\<close>

datatype load_error = NotExist | TooLarge | BadJson | Wrapped load_error

fun is_not_exist :: "load_error \<Rightarrow> bool" where
  "is_not_exist NotExist \<longleftrightarrow> True"
| "is_not_exist _ \<longleftrightarrow> False"

definition load_file :: "'a decoder \<Rightarrow> fs \<Rightarrow> string \<Rightarrow> 'a \<Rightarrow> 'a \<times> load_error option" where
  "load_file dec fs path v = (case fs path of None \<Rightarrow> (v, Some NotExist)
     | Some content \<Rightarrow>
         if max_state_file_size < length content then (v, Some TooLarge)
         else (case unmarshal_into dec (trim_bom content) v of
             (v', True) \<Rightarrow> (v', Some BadJson)
           | (v', False) \<Rightarrow> (v', None)))"

definition load_with_fallback :: "'a decoder \<Rightarrow> fs \<Rightarrow> string \<Rightarrow> 'a \<Rightarrow> 'a \<times> (bool + load_error)" where
  "load_with_fallback dec fs path v = (case load_file dec fs path v of
     (v', None) \<Rightarrow> (v', Inl False)
   | (v', Some e) \<Rightarrow> (case load_file dec fs (bak_of path) v' of
         (v'', Some e') \<Rightarrow> (v'', Inr (Wrapped e'))
       | (v'', None) \<Rightarrow> (v'', Inl True)))"

section \<open>The write, system call by system call\<close>

datatype pc = Start | Opened | Written | Synced | Closed | Backed | Promoted | Restoring | Cleanup | Done bool

inductive aw_step :: "string \<Rightarrow> string \<Rightarrow> pc \<times> fs \<Rightarrow> pc \<times> fs \<Rightarrow> bool" for path data where
  open_ok: "aw_step path data (Start, fs) (Opened, fs(tmp_of path \<mapsto> []))"
| open_fail: "aw_step path data (Start, fs) (Done False, fs)"
| write_some: "fs (tmp_of path) = Some c \<Longrightarrow> prefix (c @ d) data \<Longrightarrow>
    aw_step path data (Opened, fs) (Opened, fs(tmp_of path \<mapsto> c @ d))"
| write_ok: "fs (tmp_of path) = Some data \<Longrightarrow> aw_step path data (Opened, fs) (Written, fs)"
| write_fail: "aw_step path data (Opened, fs) (Cleanup, fs)"
| sync_ok: "aw_step path data (Written, fs) (Synced, fs)"
| sync_fail: "aw_step path data (Written, fs) (Cleanup, fs)"
| close_ok: "aw_step path data (Synced, fs) (Closed, fs)"
| close_fail: "aw_step path data (Synced, fs) (Cleanup, fs)"
| no_old: "fs path = None \<Longrightarrow> aw_step path data (Closed, fs) (Backed, fs)"
| backup_ok: "fs path = Some old \<Longrightarrow>
    aw_step path data (Closed, fs) (Backed, fs(bak_of path \<mapsto> old, path := None))"
| backup_fail: "fs path = Some old \<Longrightarrow> aw_step path data (Closed, fs) (Cleanup, fs)"
| promote_ok: "fs (tmp_of path) = Some c \<Longrightarrow>
    aw_step path data (Backed, fs) (Promoted, fs(path \<mapsto> c, tmp_of path := None))"
| promote_fail: "aw_step path data (Backed, fs) (Restoring, fs)"
| restore_ok: "fs (bak_of path) = Some b \<Longrightarrow>
    aw_step path data (Restoring, fs) (Cleanup, fs(path \<mapsto> b, bak_of path := None))"
| restore_fail: "aw_step path data (Restoring, fs) (Cleanup, fs)"
| remove_ok: "aw_step path data (Cleanup, fs) (Done False, fs(tmp_of path := None))"
| remove_fail: "aw_step path data (Cleanup, fs) (Done False, fs)"
| dirsync_ok: "aw_step path data (Promoted, fs) (Done True, fs)"
| dirsync_fail: "aw_step path data (Promoted, fs) (Done False, fs)"

inductive aw_reach :: "string \<Rightarrow> string \<Rightarrow> fs \<Rightarrow> pc \<times> fs \<Rightarrow> bool" for path data fs0 where
  aw_start: "aw_reach path data fs0 (Start, fs0)"
| aw_more: "aw_reach path data fs0 s \<Longrightarrow> aw_step path data s t \<Longrightarrow> aw_reach path data fs0 t"

inductive_cases aw_step_from: "aw_step path data (p, fs) t"
inductive_simps aw_step_to: "aw_step path data (p, fs) (q, fs')"

text \<open>\<^verbatim>\<open>os.Stat\<close> is taken to fail only on a missing file.\<close>

section \<open>The write as a function of its faults\<close>

text \<open>\<open>f_write\<close> is \<open>Some n\<close> when the write stops with an error after \<open>n\<close> bytes.\<close>

record faults =
  f_open :: bool
  f_write :: "nat option"
  f_sync :: bool
  f_close :: bool
  f_backup :: bool
  f_promote :: bool
  f_restore :: bool
  f_remove :: bool
  f_dirsync :: bool

definition no_faults :: faults where
  "no_faults = \<lparr>f_open = False, f_write = None, f_sync = False, f_close = False, f_backup = False,
     f_promote = False, f_restore = False, f_remove = False, f_dirsync = False\<rparr>"

definition remove_tmp :: "faults \<Rightarrow> string \<Rightarrow> fs \<Rightarrow> fs" where
  "remove_tmp fl path fs = (if f_remove fl then fs else fs(tmp_of path := None))"

definition restore_backup :: "faults \<Rightarrow> string \<Rightarrow> fs \<Rightarrow> fs" where
  "restore_backup fl path fs = (case fs (bak_of path) of
     Some b \<Rightarrow> if f_restore fl then fs else fs(path \<mapsto> b, bak_of path := None)
   | None \<Rightarrow> fs)"

definition promote :: "faults \<Rightarrow> string \<Rightarrow> string \<Rightarrow> fs \<Rightarrow> fs \<times> bool" where
  "promote fl path data fs =
     (if f_promote fl then (remove_tmp fl path (restore_backup fl path fs), False)
      else (fs(path \<mapsto> data, tmp_of path := None), \<not> f_dirsync fl))"

definition atomic_write :: "faults \<Rightarrow> string \<Rightarrow> string \<Rightarrow> fs \<Rightarrow> fs \<times> bool" where
  "atomic_write fl path data fs =
     (if f_open fl then (fs, False)
      else case f_write fl of
        Some n \<Rightarrow> (remove_tmp fl path (fs(tmp_of path \<mapsto> take n data)), False)
      | None \<Rightarrow>
         (let fs1 = fs(tmp_of path \<mapsto> data) in
          if f_sync fl \<or> f_close fl then (remove_tmp fl path fs1, False)
          else case fs1 path of
            Some old \<Rightarrow> if f_backup fl then (remove_tmp fl path fs1, False)
              else promote fl path data (fs1(bak_of path \<mapsto> old, path := None))
          | None \<Rightarrow> promote fl path data fs1))"

lemma aw_reach_step: "aw_step path data s t \<Longrightarrow> aw_reach path data fs0 s \<Longrightarrow> aw_reach path data fs0 t"
  by (rule aw_more)

lemma remove_tmp_reach:
  "aw_reach path data fs0 (Cleanup, fs) \<Longrightarrow> aw_reach path data fs0 (Done False, remove_tmp fl path fs)"
  by (auto simp: remove_tmp_def intro: aw_more remove_ok remove_fail)

lemma written_reach:
  assumes "prefix c data"
  shows "aw_reach path data fs (Opened, fs(tmp_of path \<mapsto> c))"
proof -
  have "aw_reach path data fs (Opened, fs(tmp_of path \<mapsto> []))"
    by (rule aw_more [OF aw_start open_ok])
  moreover have "aw_step path data (Opened, fs(tmp_of path \<mapsto> [])) (Opened, (fs(tmp_of path \<mapsto> []))(tmp_of path \<mapsto> [] @ c))"
    using assms by (intro write_some) auto
  ultimately show ?thesis by (simp add: aw_more)
qed

lemma promote_reach:
  assumes "aw_reach path data fs0 (Backed, fs)" and "fs (tmp_of path) = Some data"
    and "promote fl path data fs = (fs', ok)"
  shows "aw_reach path data fs0 (Done ok, fs')"
proof (cases "f_promote fl")
  case True
  have r: "aw_reach path data fs0 (Restoring, fs)" by (rule aw_more [OF assms(1) promote_fail])
  then have "aw_reach path data fs0 (Cleanup, restore_backup fl path fs)"
    by (auto simp: restore_backup_def split: option.splits intro: aw_more restore_ok restore_fail)
  then show ?thesis using assms(3) True by (auto simp: promote_def intro: remove_tmp_reach)
next
  case False
  have "aw_reach path data fs0 (Promoted, fs(path \<mapsto> data, tmp_of path := None))"
    using assms(2) by (intro aw_more [OF assms(1) promote_ok]) auto
  then show ?thesis using assms(3) False
    by (cases "f_dirsync fl") (auto simp: promote_def intro: aw_more dirsync_ok dirsync_fail)
qed

lemma atomic_write_reach:
  assumes "atomic_write fl path data fs = (fs', ok)"
  shows "aw_reach path data fs (Done ok, fs')"
proof (cases "f_open fl")
  case True
  then show ?thesis using assms by (auto simp: atomic_write_def intro: aw_more aw_start open_fail)
next
  case opened: False
  show ?thesis
  proof (cases "f_write fl")
    case (Some n)
    have "aw_reach path data fs (Cleanup, fs(tmp_of path \<mapsto> take n data))"
      using written_reach [of "take n data" data] by (auto intro: aw_more write_fail simp: take_is_prefix)
    then show ?thesis using assms opened Some by (auto simp: atomic_write_def intro: remove_tmp_reach)
  next
    case None
    let ?fs1 = "fs(tmp_of path \<mapsto> data)"
    have w: "aw_reach path data fs (Written, ?fs1)"
      by (rule aw_more [OF written_reach write_ok]) auto
    show ?thesis
    proof (cases "f_sync fl \<or> f_close fl")
      case True
      then have "aw_reach path data fs (Cleanup, ?fs1)"
        by (meson aw_more close_fail sync_fail sync_ok w)
      then show ?thesis using assms opened None True
        by (auto simp: atomic_write_def intro: remove_tmp_reach)
    next
      case False
      have c: "aw_reach path data fs (Closed, ?fs1)" by (meson aw_more close_ok sync_ok w)
      show ?thesis
      proof (cases "fs path")
        case no: None
        then have "aw_reach path data fs (Backed, ?fs1)" by (intro aw_more [OF c no_old]) simp
        then show ?thesis using assms opened None False no
          by (auto simp: atomic_write_def intro!: promote_reach)
      next
        case (Some old)
        then have cl: "f_backup fl \<Longrightarrow> aw_reach path data fs (Cleanup, ?fs1)"
          by (intro aw_more [OF c backup_fail]) auto
        have "aw_reach path data fs (Backed, ?fs1(bak_of path \<mapsto> old, path := None))"
          using Some by (intro aw_more [OF c backup_ok]) simp
        then show ?thesis using assms opened None False Some cl
          by (auto simp: atomic_write_def Let_def intro!: promote_reach remove_tmp_reach split: if_splits)
      qed
    qed
  qed
qed

section \<open>What a crash can leave behind\<close>

fun complete_tmp :: "pc \<Rightarrow> bool" where
  "complete_tmp Written \<longleftrightarrow> True"
| "complete_tmp Synced \<longleftrightarrow> True"
| "complete_tmp Closed \<longleftrightarrow> True"
| "complete_tmp Backed \<longleftrightarrow> True"
| "complete_tmp _ \<longleftrightarrow> False"

text \<open>The four shapes of the main file and its backup while \<open>old\<close> is replaced by \<open>data\<close>.\<close>

datatype shape = Untouched | Between | Replaced | Restored

fun shape_holds :: "string \<Rightarrow> string \<Rightarrow> string \<Rightarrow> fs \<Rightarrow> fs \<Rightarrow> shape \<Rightarrow> bool" where
  "shape_holds path data old fs0 fs Untouched \<longleftrightarrow> fs path = Some old \<and> fs (bak_of path) = fs0 (bak_of path)"
| "shape_holds path data old fs0 fs Between \<longleftrightarrow> fs path = None \<and> fs (bak_of path) = Some old"
| "shape_holds path data old fs0 fs Replaced \<longleftrightarrow> fs path = Some data \<and> fs (bak_of path) = Some old"
| "shape_holds path data old fs0 fs Restored \<longleftrightarrow> fs path = Some old \<and> fs (bak_of path) = None"

fun shapes :: "pc \<Rightarrow> shape list" where
  "shapes Backed = [Between]"
| "shapes Restoring = [Between]"
| "shapes Promoted = [Replaced]"
| "shapes (Done True) = [Replaced]"
| "shapes Cleanup = [Untouched, Between, Restored]"
| "shapes (Done False) = [Untouched, Between, Replaced, Restored]"
| "shapes _ = [Untouched]"

lemma reach_shape:
  assumes "aw_reach path data fs0 s" and "fs0 path = Some old"
  shows "(complete_tmp (fst s) \<longrightarrow> snd s (tmp_of path) = Some data)
    \<and> list_ex (shape_holds path data old fs0 (snd s)) (shapes (fst s))
    \<and> (\<forall>q. q \<noteq> path \<longrightarrow> q \<noteq> tmp_of path \<longrightarrow> q \<noteq> bak_of path \<longrightarrow> snd s q = fs0 q)"
  using assms
proof (induction rule: aw_reach.induct)
  case aw_start
  then show ?case by simp
next
  case (aw_more s t)
  from aw_more.hyps(2) aw_more.IH [OF aw_more.prems] aw_more.prems show ?case
    by (cases rule: aw_step.cases) auto
qed

lemma crash_shape:
  assumes "aw_reach path data fs0 (p, fs)" and "fs0 path = Some old"
  shows "fs path = Some old \<or> fs path = Some data \<or> fs path = None \<and> fs (bak_of path) = Some old"
proof -
  have "list_ex (shape_holds path data old fs0 fs) (shapes p)"
    using reach_shape [OF assms] by simp
  then obtain sh where "shape_holds path data old fs0 fs sh" by (auto simp: list_ex_iff)
  then show ?thesis by (cases sh) auto
qed

section \<open>Reading back\<close>

lemma trim_bom_print:
  assumes "wf_json j"
  shows "trim_bom (print_json ind d j) = print_json ind d j"
proof -
  have "hd (print_json ind d j) \<noteq> CHR 0xEF"
  proof (cases j)
    case (JNum s)
    then obtain i where "s = itoa i" using assms by (auto elim: canon_numE)
    moreover obtain c cs where "itoa i = c # cs" "is_digit c \<or> c = CHR ''-''" using itoa_hd by blast
    ultimately show ?thesis using JNum by (auto simp: is_digit_def)
  qed (auto simp: quote_def)
  then have "take 3 (print_json ind d j) \<noteq> bom"
    by (cases "print_json ind d j") (auto simp: bom_def)
  then show ?thesis by (simp add: trim_bom_def)
qed

lemma load_file_cong: "fs p = fs' p' \<Longrightarrow> load_file dec fs p v = load_file dec fs' p' v"
  by (simp add: load_file_def)

lemma load_missing [simp]: "fs p = None \<Longrightarrow> load_file dec fs p v = (v, Some NotExist)"
  by (simp add: load_file_def)

lemma load_file_present: "load_file dec fs p v = (v', None) \<Longrightarrow> fs p \<noteq> None"
  by (auto simp: load_file_def split: option.splits)

definition fits :: "string \<Rightarrow> bool" where
  "fits s \<longleftrightarrow> length s \<le> max_state_file_size"

context codec
begin

lemma unmarshal_print:
  assumes "good x"
  shows "unmarshal_into dec (print_json ind 0 (enc x)) zero = (canon x, False)"
  using unmarshal_marshal [OF assms] by (cases ind) (simp_all add: marshal_def marshal_indent_def)

lemma load_written:
  assumes "good x" and "fs path = Some (print_json ind 0 (enc x))" and "fits (print_json ind 0 (enc x))"
  shows "load_file dec fs path zero = (canon x, None)"
  using assms by (simp add: load_file_def trim_bom_print enc_wf unmarshal_print fits_def)

text \<open>Whatever step a crash interrupts, the reader that falls back to the backup gets the old
  document or the new one.\<close>

lemma load_after_crash:
  assumes "fs0 path = Some old" and "load_file dec fs0 path zero = (x, None)"
    and "good y" and "fits (print_json ind 0 (enc y))"
    and "aw_reach path (print_json ind 0 (enc y)) fs0 (p, fs)"
  shows "load_with_fallback dec fs path zero \<in> {(x, Inl False), (x, Inl True), (canon y, Inl False)}"
proof -
  consider "fs path = Some old" | "fs path = Some (print_json ind 0 (enc y))"
    | "fs path = None" "fs (bak_of path) = Some old"
    using crash_shape [OF assms(5,1)] by auto
  then show ?thesis
  proof cases
    case 1
    then have "load_file dec fs path zero = (x, None)"
      using assms(1,2) load_file_cong [of fs path fs0 path dec zero] by simp
    then show ?thesis by (simp add: load_with_fallback_def)
  next
    case 2
    then show ?thesis using assms(3,4) by (simp add: load_with_fallback_def load_written)
  next
    case 3
    then have "load_file dec fs (bak_of path) zero = (x, None)"
      using assms(1,2) load_file_cong [of fs "bak_of path" fs0 path dec zero] by simp
    then show ?thesis using 3 by (simp add: load_with_fallback_def)
  qed
qed

text \<open>A write that reports success is read back, and one that reports failure at an open, write,
  sync or close changes nothing a reader sees.\<close>

lemma load_after_success:
  assumes "good y" and "fits (print_json ind 0 (enc y))"
    and "atomic_write fl path (print_json ind 0 (enc y)) fs = (fs', True)"
  shows "load_with_fallback dec fs' path zero = (canon y, Inl False)"
proof -
  have "fs' path = Some (print_json ind 0 (enc y))"
    using assms(3) by (auto simp: atomic_write_def promote_def Let_def split: if_splits option.splits)
  then show ?thesis using assms by (simp add: load_with_fallback_def load_written)
qed

end

lemma atomic_write_frame:
  "q \<noteq> path \<Longrightarrow> q \<noteq> tmp_of path \<Longrightarrow> q \<noteq> bak_of path \<Longrightarrow> fst (atomic_write fl path data fs) q = fs q"
  by (auto simp: atomic_write_def promote_def remove_tmp_def restore_backup_def Let_def split: option.split)

lemma atomic_write_ok:
  "\<not> f_open fl \<Longrightarrow> f_write fl = None \<Longrightarrow> \<not> f_sync fl \<Longrightarrow> \<not> f_close fl \<Longrightarrow> \<not> f_backup fl \<Longrightarrow> \<not> f_promote fl \<Longrightarrow>
    fst (atomic_write fl path data fs) path = Some data"
  by (auto simp: atomic_write_def promote_def Let_def split: option.split)

text \<open>C6. Crash safety of the file replacement: whatever step of the write of a new users document
  a power loss interrupts, loading with the backup as fallback yields the old document or the new
  one, never an error and never a mixture.\<close>

theorem users_crash_safe:
  assumes "fs0 path = Some old" and "load_file dec_users_file fs0 path zero_users_file = (x, None)"
    and "good_users_file y" and "fits (marshal_indent (enc_users_file y))"
    and "aw_reach path (marshal_indent (enc_users_file y)) fs0 (p, fs)"
  shows "load_with_fallback dec_users_file fs path zero_users_file
    \<in> {(x, Inl False), (x, Inl True), (y, Inl False)}"
  using users_doc.load_after_crash [of fs0 path old x y True p fs] assms by (simp add: marshal_indent_def)

definition doc1 :: users_file where
  "doc1 = \<lparr>uf_version = 1, uf_users = [zero_xuser\<lparr>xu_id := 1, xu_uuid := ''a''\<rparr>]\<rparr>"

definition doc2 :: users_file where
  "doc2 = \<lparr>uf_version = 1, uf_users = [zero_xuser\<lparr>xu_id := 2, xu_uuid := ''b''\<rparr>]\<rparr>"

definition demo_fs :: fs where
  "demo_fs = [''users.json'' \<mapsto> marshal_indent (enc_users_file doc1)]"

definition both_renames_fail :: faults where
  "both_renames_fail = no_faults\<lparr>f_promote := True, f_restore := True\<rparr>"

lemmas print_simps = fits_def max_state_file_size_def marshal_indent_def marshal_def quote_def newline_def
  colon_def escape_char_def enc_int_def itoa_def nat_itoa.simps omit_empty_str_def omit_empty_int_def

lemma demo_docs: "good_users_file doc1" "good_users_file doc2"
    "fits (marshal_indent (enc_users_file doc1))" "fits (marshal_indent (enc_users_file doc2))"
  by (simp_all add: doc1_def doc2_def zero_xuser_def good_users_file_def good_xuser_def in_int64_def
      min_int64_def max_int64_def enc_users_file_def enc_xuser_def print_simps)

lemma demo_load: "load_file dec_users_file demo_fs ''users.json'' zero_users_file = (doc1, None)"
  using users_doc.load_written [of doc1 demo_fs "''users.json''" True] demo_docs
  by (simp add: demo_fs_def marshal_indent_def)

theorem users_crash_safe_witness:
  "load_with_fallback dec_users_file
     (fst (atomic_write both_renames_fail ''users.json'' (marshal_indent (enc_users_file doc2)) demo_fs))
     ''users.json'' zero_users_file
   \<in> {(doc1, Inl False), (doc1, Inl True), (doc2, Inl False)}"
proof (rule users_crash_safe [OF _ demo_load demo_docs(2,4)])
  show "demo_fs ''users.json'' = Some (marshal_indent (enc_users_file doc1))"
    by (simp add: demo_fs_def)
  show "aw_reach ''users.json'' (marshal_indent (enc_users_file doc2)) demo_fs
     (Done (snd (atomic_write both_renames_fail ''users.json'' (marshal_indent (enc_users_file doc2)) demo_fs)),
      fst (atomic_write both_renames_fail ''users.json'' (marshal_indent (enc_users_file doc2)) demo_fs))"
    by (rule atomic_write_reach) simp
qed

text \<open>C31. What the server writes it reads back: each of the four state documents, marshalled as the save
  routines do and unmarshalled into a zero variable, is the document itself, with the entries of the
  traffic map in key order.\<close>

theorem documents_roundtrip:
  assumes "good_node_file n" and "good_nodes_file ns" and "good_users_file us" and "good_traffic_file t"
  shows "unmarshal_into dec_node_file (marshal_indent (enc_node_file n)) zero_node_file = (n, False)
    \<and> unmarshal_into dec_nodes_file (marshal_indent (enc_nodes_file ns)) zero_nodes_file = (ns, False)
    \<and> unmarshal_into dec_users_file (marshal_indent (enc_users_file us)) zero_users_file = (us, False)
    \<and> unmarshal_into dec_traffic_file (marshal (enc_traffic_file t)) zero_traffic_file
        = (t\<lparr>tf_users := sorted_entries (tf_users t)\<rparr>, False)"
  using assms node_doc.unmarshal_marshal nodes_doc.unmarshal_marshal users_doc.unmarshal_marshal
    traffic_doc.unmarshal_marshal by simp

theorem documents_roundtrip_witness:
  "unmarshal_into dec_users_file (marshal_indent (enc_users_file doc1)) zero_users_file = (doc1, False)"
proof -
  have "good_node_file zero_node_file" "good_nodes_file zero_nodes_file" "good_traffic_file zero_traffic_file"
    by (simp_all add: good_defs zero_defs)
  then show ?thesis using documents_roundtrip demo_docs(1) by blast
qed

text \<open>C19. The routine follows its step relation on every schedule of faults, and after a failed
  write the main file still holds the old contents, or it is missing and the backup holds them,
  or the new contents are in place and only the directory sync failed.\<close>

theorem atomic_write_outcomes:
  assumes "fs path = Some old" and "atomic_write fl path data fs = (fs', ok)"
  shows "aw_reach path data fs (Done ok, fs') \<and> list_ex (shape_holds path data old fs fs') (shapes (Done ok))"
  using atomic_write_reach [OF assms(2)] reach_shape [OF atomic_write_reach [OF assms(2)] assms(1)] by simp

theorem atomic_write_outcomes_witness:
  "\<exists>fs'. atomic_write both_renames_fail ''f'' ''new'' [''f'' \<mapsto> ''old''] = (fs', False)
     \<and> list_ex (shape_holds ''f'' ''new'' ''old'' [''f'' \<mapsto> ''old''] fs') (shapes (Done False))"
proof -
  obtain fs' where w: "atomic_write both_renames_fail ''f'' ''new'' [''f'' \<mapsto> ''old''] = (fs', False)"
    by (simp add: atomic_write_def both_renames_fail_def no_faults_def promote_def)
  have "[''f'' \<mapsto> ''old''] ''f'' = Some ''old''" by simp
  from atomic_write_outcomes [OF this w] w show ?thesis by blast
qed

end
