(* ===== verification/Nodes.thy ===== *)
theory Nodes
  imports Schema
begin

text \<open>
  The pure checks of \<^verbatim>\<open>tiny-xboard/store.go\<close> on its documents: node types,
  validation of node, users and traffic files, and the conversion between the single-node and the
  multi-node form. An error is a value of \<open>xerror\<close>; a check returns \<open>None\<close> for Go's nil.
  Each check is proved equivalent to the condition it stands for.
\<close>

definition known_version :: int where "known_version = 1"
definition max_users :: nat where "max_users = 1000"
definition default_sync_interval :: int where "default_sync_interval = 60"
definition default_traffic_flush_interval :: int where "default_traffic_flush_interval = 300"

datatype xerror = UnsupportedVersion int | NodeIdNotPositive | BadNodeType string | EmptyToken
  | BadPort int | NoNodes | DuplicateNode int | TooManyUsers nat | UserIdNotPositive
  | NoCredential int | NegativeSpeedLimit int | DuplicateUser int
  | UserExists int | UserLimitReached | NoSuchUser int
  | LoadFailed load_failure | SaveFailed | BadRealityKey int | KeyMismatch int | MissingPrivateKey int | NoRandomness
and load_failure = Unreadable | MainAndBackupInvalid

section \<open>Node types\<close>

definition normalize_node_type :: "string \<Rightarrow> string" where
  "normalize_node_type t = (let s = to_lower (trim_space t) in
     if s \<in> set [''vless'', ''vless-reality'', ''reality''] then ''vless''
     else if s \<in> set [''hy2'', ''hysteria'', ''hysteria2''] then ''hy2''
     else if s \<in> set [''both'', ''dual'', ''all''] then ''both''
     else s)"

definition known_type :: "string \<Rightarrow> bool" where
  "known_type t \<longleftrightarrow> normalize_node_type t \<in> set [''vless'', ''hy2'', ''both'']"

lemma lower_trim_idem: "to_lower (trim_space (to_lower (trim_space t))) = to_lower (trim_space t)"
  by (simp add: trim_space_lower to_lower_idem trim_space_idem)

lemma to_lower_constants:
  "to_lower (trim_space ''vless'') = ''vless''" "to_lower (trim_space ''hy2'') = ''hy2''"
  "to_lower (trim_space ''both'') = ''both''"
  by (simp_all add: to_lower_def trim_space_def lower_char_def is_space_def)

lemma normalize_idem: "normalize_node_type (normalize_node_type t) = normalize_node_type t"
  using to_lower_constants lower_trim_idem [of t]
  by (simp add: normalize_node_type_def Let_def)

section \<open>Validation\<close>

definition bad_version :: "int \<Rightarrow> bool" where
  "bad_version v \<longleftrightarrow> v \<noteq> 0 \<and> known_version < v"

definition validate_node :: "node_file \<Rightarrow> xerror option" where
  "validate_node nf =
     (if bad_version (nf_version nf) then Some (UnsupportedVersion (nf_version nf))
      else if ni_id (nf_node nf) \<le> 0 then Some NodeIdNotPositive
      else if \<not> known_type (ni_type (nf_node nf)) then Some (BadNodeType (ni_type (nf_node nf)))
      else if auth_token (nf_auth nf) = [] then Some EmptyToken
      else if srv_port (nf_server nf) < 1 \<or> 65535 < srv_port (nf_server nf)
        then Some (BadPort (srv_port (nf_server nf)))
      else None)"

definition validate_node_entry :: "node_entry \<Rightarrow> xerror option" where
  "validate_node_entry n =
     (if ne_id n \<le> 0 then Some NodeIdNotPositive
      else if \<not> known_type (ne_type n) then Some (BadNodeType (ne_type n))
      else if srv_port (ne_server n) < 1 \<or> 65535 < srv_port (ne_server n)
        then Some (BadPort (srv_port (ne_server n)))
      else None)"

fun check_nodes :: "int list \<Rightarrow> node_entry list \<Rightarrow> xerror option" where
  "check_nodes seen [] = None"
| "check_nodes seen (n # ns) = (case validate_node_entry n of Some e \<Rightarrow> Some e
     | None \<Rightarrow> if ne_id n \<in> set seen then Some (DuplicateNode (ne_id n)) else check_nodes (ne_id n # seen) ns)"

definition validate_nodes_file :: "nodes_file \<Rightarrow> xerror option" where
  "validate_nodes_file nf =
     (if bad_version (nsf_version nf) then Some (UnsupportedVersion (nsf_version nf))
      else if nsf_token nf = [] then Some EmptyToken
      else if nsf_nodes nf = [] then Some NoNodes
      else check_nodes [] (nsf_nodes nf))"

definition validate_user :: "xuser \<Rightarrow> xerror option" where
  "validate_user u =
     (if xu_id u \<le> 0 then Some UserIdNotPositive
      else if xu_uuid u = [] \<and> xu_password u = [] then Some (NoCredential (xu_id u))
      else if xu_speed_limit u < 0 then Some (NegativeSpeedLimit (xu_id u))
      else None)"

fun check_users :: "int list \<Rightarrow> xuser list \<Rightarrow> xerror option" where
  "check_users seen [] = None"
| "check_users seen (u # us) = (case validate_user u of Some e \<Rightarrow> Some e
     | None \<Rightarrow> if xu_id u \<in> set seen then Some (DuplicateUser (xu_id u)) else check_users (xu_id u # seen) us)"

definition validate_users_file :: "users_file \<Rightarrow> xerror option" where
  "validate_users_file uf =
     (if bad_version (uf_version uf) then Some (UnsupportedVersion (uf_version uf))
      else if max_users < length (uf_users uf) then Some (TooManyUsers (length (uf_users uf)))
      else check_users [] (uf_users uf))"

definition validate_traffic_file :: "traffic_file \<Rightarrow> xerror option" where
  "validate_traffic_file tf =
     (if bad_version (tf_version tf) then Some (UnsupportedVersion (tf_version tf)) else None)"

definition valid_entry :: "node_entry \<Rightarrow> bool" where
  "valid_entry n \<longleftrightarrow> 0 < ne_id n \<and> known_type (ne_type n) \<and> 1 \<le> srv_port (ne_server n) \<and> srv_port (ne_server n) \<le> 65535"

definition valid_user :: "xuser \<Rightarrow> bool" where
  "valid_user u \<longleftrightarrow> 0 < xu_id u \<and> (xu_uuid u \<noteq> [] \<or> xu_password u \<noteq> []) \<and> 0 \<le> xu_speed_limit u"

lemma validate_node_entry_iff: "validate_node_entry n = None \<longleftrightarrow> valid_entry n"
  by (auto simp: validate_node_entry_def valid_entry_def)

lemma validate_user_iff: "validate_user u = None \<longleftrightarrow> valid_user u"
  by (auto simp: validate_user_def valid_user_def)

lemma check_nodes_iff:
  "check_nodes seen ns = None \<longleftrightarrow> list_all valid_entry ns \<and> distinct (map ne_id ns) \<and> set (map ne_id ns) \<inter> set seen = {}"
  by (induction ns arbitrary: seen) (auto simp: validate_node_entry_iff [symmetric] split: option.split)

lemma check_users_iff:
  "check_users seen us = None \<longleftrightarrow> list_all valid_user us \<and> distinct (map xu_id us) \<and> set (map xu_id us) \<inter> set seen = {}"
  by (induction us arbitrary: seen) (auto simp: validate_user_iff [symmetric] split: option.split)

text \<open>A users document is accepted exactly when its version is known, it has at most 1000 users,
  every user has a positive id, a credential and a non-negative speed limit, and no id occurs twice.\<close>

theorem validate_users_file_iff:
  "validate_users_file uf = None \<longleftrightarrow> uf_version uf \<le> 1 \<and> length (uf_users uf) \<le> 1000
     \<and> list_all valid_user (uf_users uf) \<and> distinct (map xu_id (uf_users uf))"
  by (auto simp: validate_users_file_def check_users_iff bad_version_def known_version_def max_users_def)

text \<open>A multi-node document is accepted exactly when its version is known, it has a token and at
  least one node, every node has a positive id, a known type and a port in 1..65535, and no id
  occurs twice.\<close>

theorem validate_nodes_file_iff:
  "validate_nodes_file nf = None \<longleftrightarrow> nsf_version nf \<le> 1 \<and> nsf_token nf \<noteq> [] \<and> nsf_nodes nf \<noteq> []
     \<and> list_all valid_entry (nsf_nodes nf) \<and> distinct (map ne_id (nsf_nodes nf))"
  by (auto simp: validate_nodes_file_def check_nodes_iff bad_version_def known_version_def)

section \<open>Single-node and multi-node form\<close>

definition entry_from_node_file :: "node_file \<Rightarrow> node_entry" where
  "entry_from_node_file nf = \<lparr>ne_id = ni_id (nf_node nf), ne_name = ni_name (nf_node nf),
     ne_type = ni_type (nf_node nf), ne_enabled = ni_enabled (nf_node nf), ne_token = [],
     ne_server = nf_server nf, ne_protocol = nf_protocol nf, ne_tls = nf_tls nf, ne_runtime = nf_runtime nf\<rparr>"

definition node_file_from_entry :: "node_entry \<Rightarrow> string \<Rightarrow> node_file" where
  "node_file_from_entry e token = \<lparr>nf_version = known_version,
     nf_node = \<lparr>ni_id = ne_id e, ni_name = ne_name e, ni_type = ne_type e, ni_enabled = ne_enabled e\<rparr>,
     nf_auth = \<lparr>auth_token = token\<rparr>, nf_server = ne_server e, nf_protocol = ne_protocol e,
     nf_tls = ne_tls e, nf_runtime = ne_runtime e\<rparr>"

lemma node_file_entry_roundtrip:
  "node_file_from_entry (entry_from_node_file nf) (auth_token (nf_auth nf)) = nf\<lparr>nf_version := 1\<rparr>"
  by (simp add: node_file_from_entry_def entry_from_node_file_def known_version_def)

lemma entry_node_file_roundtrip:
  "ne_token e = [] \<Longrightarrow> entry_from_node_file (node_file_from_entry e token) = e"
  by (simp add: node_file_from_entry_def entry_from_node_file_def)

lemma validate_node_iff:
  "validate_node nf = None \<longleftrightarrow> nf_version nf \<le> 1 \<and> auth_token (nf_auth nf) \<noteq> [] \<and> valid_entry (entry_from_node_file nf)"
  by (auto simp: validate_node_def valid_entry_def entry_from_node_file_def bad_version_def known_version_def)

section \<open>Traffic files\<close>

definition clamp64 :: "int64 \<Rightarrow> int64" where
  "clamp64 w = (if sint w < 0 then 0 else w)"

definition clamp_traffic :: "traffic \<Rightarrow> traffic" where
  "clamp_traffic t = \<lparr>upload = clamp64 (upload t), download = clamp64 (download t)\<rparr>"

definition normalize_entry :: "string \<times> traffic \<Rightarrow> (int, traffic) gomap \<Rightarrow> (int, traffic) gomap" where
  "normalize_entry = (\<lambda>(id_str, t) m. case atoi id_str of
     Some i \<Rightarrow> if i \<le> 0 then m else mput i (clamp_traffic t) m
   | None \<Rightarrow> m)"

definition normalize_traffic_file :: "traffic_file \<Rightarrow> (int, traffic) gomap" where
  "normalize_traffic_file tf = fold normalize_entry (tf_users tf) []"

definition clean_traffic :: "(int, traffic) gomap \<Rightarrow> bool" where
  "clean_traffic m \<longleftrightarrow> wf_map m \<and> list_all (\<lambda>(i, t). 0 < i \<and> 0 \<le> sint (upload t) \<and> 0 \<le> sint (download t)) m"

lemma clean_mput:
  "clean_traffic m \<Longrightarrow> 0 < i \<Longrightarrow> 0 \<le> sint (upload t) \<Longrightarrow> 0 \<le> sint (download t) \<Longrightarrow> clean_traffic (mput i t m)"
  using set_mput_sub [of i t m] by (fastforce simp: clean_traffic_def list_all_iff)

lemma clean_normalize_entry: "clean_traffic m \<Longrightarrow> clean_traffic (normalize_entry x m)"
  by (auto simp: normalize_entry_def clamp_traffic_def clamp64_def split: prod.split option.split intro!: clean_mput)

lemma clean_fold_normalize: "clean_traffic m \<Longrightarrow> clean_traffic (fold normalize_entry xs m)"
  by (induction xs arbitrary: m) (auto intro: clean_normalize_entry)

lemma normalize_clean: "clean_traffic (normalize_traffic_file tf)"
  unfolding normalize_traffic_file_def
  by (rule clean_fold_normalize) (simp add: clean_traffic_def)

end
