(* ===== verification/Reality.thy ===== *)
theory Reality
  imports Nodes
begin

text \<open>
  \<^verbatim>\<open>tiny-xboard/reality.go\<close>: the X25519 key pair of a VLESS node. The base64url
  coding without padding and the X25519 function of RFC 7748 that the file takes from Go's
  standard library are defined here; the bytes that \<^verbatim>\<open>crypto/rand\<close> returns are an
  argument (\<open>None\<close>: the reader failed).
\<close>

type_synonym bytes = "nat list"

abbreviation byte_list :: "bytes \<Rightarrow> bool" where
  "byte_list bs \<equiv> list_all (\<lambda>b. b < 256) bs"

section \<open>base64.RawURLEncoding\<close>

definition b64_char :: "nat \<Rightarrow> char" where
  "b64_char n = char_of (if n < 26 then n + 65 else if n < 52 then n + 71
     else if n < 62 then n - 4 else if n = 62 then 45 else (95 :: nat))"

definition b64_val :: "char \<Rightarrow> nat option" where
  "b64_val c = (let n = of_char c in
     if 65 \<le> n \<and> n \<le> 90 then Some (n - 65) else if 97 \<le> n \<and> n \<le> 122 then Some (n - 71)
     else if 48 \<le> n \<and> n \<le> 57 then Some (n + 4) else if n = 45 then Some 62
     else if n = (95 :: nat) then Some 63 else None)"

fun b64_encode :: "bytes \<Rightarrow> string" where
  "b64_encode [] = []"
| "b64_encode [a] = map b64_char [a div 4, a mod 4 * 16]"
| "b64_encode [a, b] = map b64_char [a div 4, a mod 4 * 16 + b div 16, b mod 16 * 4]"
| "b64_encode (a # b # c # bs) =
     map b64_char [a div 4, a mod 4 * 16 + b div 16, b mod 16 * 4 + c div 64, c mod 64] @ b64_encode bs"

text \<open>A group of two or three characters may end the input; the spare low bits are dropped.\<close>

fun b64_groups :: "nat list \<Rightarrow> bytes option" where
  "b64_groups [] = Some []"
| "b64_groups [w] = None"
| "b64_groups [w, x] = Some [w * 4 + x div 16]"
| "b64_groups [w, x, y] = Some [w * 4 + x div 16, x mod 16 * 16 + y div 4]"
| "b64_groups (w # x # y # z # vs) = map_option
     (\<lambda>bs. [w * 4 + x div 16, x mod 16 * 16 + y div 4, y mod 4 * 64 + z] @ bs) (b64_groups vs)"

definition b64_decode :: "string \<Rightarrow> bytes option" where
  "b64_decode s = (let vs = map b64_val (filter (\<lambda>c. c \<noteq> CHR 0x0D \<and> c \<noteq> CHR 0x0A) s) in
     if None \<in> set vs then None else b64_groups (map the vs))"

lemma of_char_b64: "n < 64 \<Longrightarrow> of_char (b64_char n) =
    (if n < 26 then n + 65 else if n < 52 then n + 71 else if n < 62 then n - 4 else if n = 62 then 45 else (95 :: nat))"
  by (simp add: b64_char_def)

lemma b64_val_char: "n < 64 \<Longrightarrow> b64_val (b64_char n) = Some n"
  by (auto simp: b64_val_def of_char_b64 Let_def)

lemma b64_char_not_newline: "n < 64 \<Longrightarrow> b64_char n \<noteq> CHR 0x0D \<and> b64_char n \<noteq> CHR 0x0A"
  using of_char_b64 [of n] by (auto split: if_splits)

lemma b64_decode_chars: "list_all (\<lambda>n. n < 64) ns \<Longrightarrow> b64_decode (map b64_char ns) = b64_groups ns"
proof -
  assume *: "list_all (\<lambda>n. n < 64) ns"
  then have "filter (\<lambda>c. c \<noteq> CHR 0x0D \<and> c \<noteq> CHR 0x0A) (map b64_char ns) = map b64_char ns"
    by (intro filter_True) (auto simp: list_all_iff b64_char_not_newline)
  moreover from * have "map b64_val (map b64_char ns) = map Some ns"
    by (auto simp: list_all_iff b64_val_char)
  ultimately show ?thesis by (simp add: b64_decode_def Let_def comp_def del: map_map)
    (simp add: comp_def)
qed

fun b64_digits :: "bytes \<Rightarrow> nat list" where
  "b64_digits [] = []"
| "b64_digits [a] = [a div 4, a mod 4 * 16]"
| "b64_digits [a, b] = [a div 4, a mod 4 * 16 + b div 16, b mod 16 * 4]"
| "b64_digits (a # b # c # bs) =
     [a div 4, a mod 4 * 16 + b div 16, b mod 16 * 4 + c div 64, c mod 64] @ b64_digits bs"

lemma b64_encode_digits: "b64_encode bs = map b64_char (b64_digits bs)"
  by (induction bs rule: b64_encode.induct) auto

lemma sextet: "a mod 4 * 16 + b div 16 < (64 :: nat)" if "b < 256" for a b :: nat
proof -
  have "a mod 4 < 4" and "b div 16 < 16" using that by auto
  then show ?thesis by linarith
qed

lemma sextet': "b mod 16 * 4 + c div 64 < (64 :: nat)" if "c < 256" for b c :: nat
proof -
  have "b mod 16 < 16" and "c div 64 < 4" using that by auto
  then show ?thesis by linarith
qed

lemma sextet_ends: "a < 256 \<Longrightarrow> a div 4 < (64 :: nat)" "a mod 4 * 16 < (64 :: nat)" "a mod 16 * 4 < (64 :: nat)" for a :: nat
  by auto

lemma octets:
  "b < 256 \<Longrightarrow> (a mod 4 * 16 + b div 16) div 16 = a mod (4 :: nat)"
  "b < 256 \<Longrightarrow> (a mod 4 * 16 + b div 16) mod 16 = b div (16 :: nat)"
  "c < 256 \<Longrightarrow> (b mod 16 * 4 + c div 64) div 4 = b mod (16 :: nat)"
  "c < 256 \<Longrightarrow> (b mod 16 * 4 + c div 64) mod 4 = c div (64 :: nat)"
  "a div 4 * 4 + a mod 4 = a" "b div 16 * 16 + b mod 16 = b" "c div 64 * 64 + c mod 64 = c" for a b c :: nat
  by (auto simp: less_mult_imp_div_less)

lemma b64_digits_small: "byte_list bs \<Longrightarrow> list_all (\<lambda>n. n < 64) (b64_digits bs)"
  by (induction bs rule: b64_digits.induct) (auto simp: sextet sextet' sextet_ends)

lemma b64_groups_digits: "byte_list bs \<Longrightarrow> b64_groups (b64_digits bs) = Some bs"
  by (induction bs rule: b64_digits.induct) (auto simp: octets)

lemma b64_decode_encode: "byte_list bs \<Longrightarrow> b64_decode (b64_encode bs) = Some bs"
  by (simp add: b64_encode_digits b64_decode_chars b64_digits_small b64_groups_digits)

lemma b64_encode_empty: "b64_encode bs = [] \<longleftrightarrow> bs = []"
  by (cases bs rule: b64_encode.cases) auto

section \<open>X25519\<close>

definition field_prime :: int where "field_prime = 2 ^ 255 - 19"

definition le_int :: "bytes \<Rightarrow> int" where
  "le_int bs = foldr (\<lambda>b n. int b + 256 * n) bs 0"

fun le_bytes :: "nat \<Rightarrow> int \<Rightarrow> bytes" where
  "le_bytes 0 n = []"
| "le_bytes (Suc k) n = nat (n mod 256) # le_bytes k (n div 256)"

text \<open>Clamping: bits 0 to 2 and bit 255 are cleared and bit 254 is set.\<close>

definition clamp_scalar :: "int \<Rightarrow> int" where
  "clamp_scalar k = (k mod 2 ^ 254) div 8 * 8 + 2 ^ 254"

definition ladder_step :: "int \<Rightarrow> int \<times> int \<times> int \<times> int \<Rightarrow> int \<times> int \<times> int \<times> int" where
  "ladder_step u = (\<lambda>(x2, z2, x3, z3). let
     a = x2 + z2; aa = a * a; b = x2 - z2; bb = b * b; e = aa - bb; c = x3 + z3; d = x3 - z3; da = d * a; cb = c * b
     in (aa * bb mod field_prime, e * (aa + 121665 * e) mod field_prime,
         (da + cb) * (da + cb) mod field_prime, u * ((da - cb) * (da - cb)) mod field_prime))"

definition swap_if :: "bool \<Rightarrow> int \<times> int \<times> int \<times> int \<Rightarrow> int \<times> int \<times> int \<times> int" where
  "swap_if b = (\<lambda>(x2, z2, x3, z3). if b then (x3, z3, x2, z2) else (x2, z2, x3, z3))"

fun ladder :: "nat \<Rightarrow> int \<Rightarrow> int \<Rightarrow> int \<times> int \<times> int \<times> int \<Rightarrow> int \<times> int \<times> int \<times> int" where
  "ladder 0 k u s = s"
| "ladder (Suc t) k u s = (let b = odd (k div 2 ^ t) in ladder t k u (swap_if b (ladder_step u (swap_if b s))))"

fun pow_mod :: "nat \<Rightarrow> int \<Rightarrow> int \<Rightarrow> int" where
  "pow_mod 0 x n = 1"
| "pow_mod (Suc t) x n = (let h = pow_mod t (x * x mod field_prime) (n div 2) in
     if odd n then x * h mod field_prime else h)"

definition x25519 :: "bytes \<Rightarrow> bytes \<Rightarrow> bytes" where
  "x25519 k u = (let ui = le_int u mod 2 ^ 255 mod field_prime;
     (x2, z2, x3, z3) = ladder 255 (clamp_scalar (le_int k)) ui (1, 0, ui, 1) in
     le_bytes 32 (x2 * pow_mod 255 z2 (field_prime - 2) mod field_prime))"

definition x25519_basepoint :: bytes where
  "x25519_basepoint = 9 # replicate 31 0"

definition x25519_public :: "bytes \<Rightarrow> bytes" where
  "x25519_public k = x25519 k x25519_basepoint"

lemma le_bytes_length [simp]: "length (le_bytes k n) = k"
  by (induction k arbitrary: n) auto

lemma le_bytes_bytes: "byte_list (le_bytes k n)"
  by (induction k arbitrary: n) (auto simp: nat_less_iff)

lemma x25519_public_bytes [simp]: "length (x25519_public k) = 32" "byte_list (x25519_public k)"
  by (simp_all add: x25519_public_def x25519_def Let_def le_bytes_bytes split: prod.split)

section \<open>Key pairs\<close>

definition generate_reality_keypair :: "bytes option \<Rightarrow> xerror + string \<times> string" where
  "generate_reality_keypair rnd = (case rnd of None \<Rightarrow> Inl NoRandomness
     | Some k \<Rightarrow> Inr (b64_encode k, b64_encode (x25519_public k)))"

datatype key_error = BadBase64 | BadLength nat

definition derive_reality_public_key :: "string \<Rightarrow> key_error + string" where
  "derive_reality_public_key private_key = (case b64_decode private_key of None \<Rightarrow> Inl BadBase64
     | Some raw \<Rightarrow> if length raw \<noteq> 32 then Inl (BadLength (length raw))
         else Inr (b64_encode (x25519_public raw)))"

definition valid_reality_key :: "string \<Rightarrow> bool" where
  "valid_reality_key s = (case b64_decode s of None \<Rightarrow> False | Some raw \<Rightarrow> length raw = 32)"

abbreviation set_private :: "string \<Rightarrow> node_entry \<Rightarrow> node_entry" where
  "set_private k e \<equiv> e\<lparr>ne_tls := (ne_tls e)\<lparr>tls_private_key := k\<rparr>\<rparr>"

abbreviation set_public :: "string \<Rightarrow> node_entry \<Rightarrow> node_entry" where
  "set_public k e \<equiv> e\<lparr>ne_tls := (ne_tls e)\<lparr>tls_public_key := k\<rparr>\<rparr>"

definition ensure_reality_keypair :: "bytes option \<Rightarrow> node_entry \<Rightarrow> xerror + bool \<times> node_entry" where
  "ensure_reality_keypair rnd e =
     (let typ = normalize_node_type (ne_type e);
          priv = tls_private_key (ne_tls e); pub = tls_public_key (ne_tls e) in
      if typ \<noteq> ''vless'' \<and> typ \<noteq> ''both'' then Inr (False, e)
      else if priv = [] \<and> pub = [] then
        (case generate_reality_keypair rnd of Inl err \<Rightarrow> Inl err
         | Inr (pk, pb) \<Rightarrow> Inr (True, set_public pb (set_private pk e)))
      else if priv \<noteq> [] then
        (if \<not> valid_reality_key priv then Inl (BadRealityKey (ne_id e))
         else case derive_reality_public_key priv of Inl _ \<Rightarrow> Inl (BadRealityKey (ne_id e))
         | Inr expected \<Rightarrow>
             if pub = [] then Inr (True, set_public expected e)
             else if \<not> valid_reality_key pub then Inl (BadRealityKey (ne_id e))
             else if pub \<noteq> expected then Inl (KeyMismatch (ne_id e))
             else Inr (False, e))
      else Inl (MissingPrivateKey (ne_id e)))"

definition serves_vless :: "node_entry \<Rightarrow> bool" where
  "serves_vless e \<longleftrightarrow> normalize_node_type (ne_type e) \<in> {''vless'', ''both''}"

text \<open>A key source returns 32 bytes or fails.\<close>

definition key_source :: "bytes option \<Rightarrow> bool" where
  "key_source rnd \<longleftrightarrow> (case rnd of None \<Rightarrow> True | Some k \<Rightarrow> length k = 32 \<and> byte_list k)"

definition consistent_pair :: "node_entry \<Rightarrow> bool" where
  "consistent_pair e \<longleftrightarrow> derive_reality_public_key (tls_private_key (ne_tls e)) = Inr (tls_public_key (ne_tls e))"

lemma derive_generated:
  "length k = 32 \<Longrightarrow> byte_list k \<Longrightarrow> derive_reality_public_key (b64_encode k) = Inr (b64_encode (x25519_public k))"
  by (simp add: derive_reality_public_key_def b64_decode_encode)

lemma public_not_empty: "x25519_public k \<noteq> []"
  using x25519_public_bytes(1) [of k] by (metis length_0_conv zero_neq_numeral)

lemma b64_decode_empty: "b64_decode [] = Some []"
  by (simp add: b64_decode_def)

lemma derive_valid:
  "derive_reality_public_key s = Inr p \<Longrightarrow> valid_reality_key s \<and> valid_reality_key p \<and> s \<noteq> [] \<and> p \<noteq> []"
  by (auto simp: derive_reality_public_key_def valid_reality_key_def b64_decode_encode b64_encode_empty
      b64_decode_empty public_not_empty split: option.splits if_splits)

lemma consistent_kept:
  "consistent_pair e \<Longrightarrow> ensure_reality_keypair rnd e = Inr (False, e)"
  by (auto simp: ensure_reality_keypair_def consistent_pair_def Let_def dest: derive_valid)

lemma ensure_result:
  assumes "ensure_reality_keypair rnd e = Inr (c, e')" and "serves_vless e"
  shows "(tls_private_key (ne_tls e) = [] \<and> (\<exists>k. rnd = Some k \<and>
      e' = set_public (b64_encode (x25519_public k)) (set_private (b64_encode k) e)))
    \<or> (tls_private_key (ne_tls e) \<noteq> [] \<and> (\<exists>p. derive_reality_public_key (tls_private_key (ne_tls e)) = Inr p \<and>
      e' = set_public p e))"
  using assms
  by (fastforce simp: ensure_reality_keypair_def serves_vless_def Let_def generate_reality_keypair_def
      split: if_splits option.splits sum.splits)

lemma ensure_cases:
  assumes "ensure_reality_keypair rnd e = Inr (c, e')" and "serves_vless e" and "key_source rnd"
  shows "consistent_pair e' \<and> (tls_private_key (ne_tls e) \<noteq> [] \<longrightarrow> tls_private_key (ne_tls e') = tls_private_key (ne_tls e))
    \<and> e' = set_public (tls_public_key (ne_tls e')) (set_private (tls_private_key (ne_tls e')) e)"
  using ensure_result [OF assms(1,2)] assms(3)
  by (auto simp: consistent_pair_def key_source_def derive_generated)

text \<open>C18. When the key pair of a VLESS node is resolved, the stored public key is the X25519 image of
  the stored private key, an existing private key is never changed, nothing but the two keys
  changes, and a later start, whatever randomness it draws, leaves the entry alone.\<close>

theorem reality_keypair_stable:
  assumes "ensure_reality_keypair rnd e = Inr (c, e')" and "serves_vless e" and "key_source rnd"
  shows "consistent_pair e' \<and> (tls_private_key (ne_tls e) \<noteq> [] \<longrightarrow> tls_private_key (ne_tls e') = tls_private_key (ne_tls e))
    \<and> e' = set_public (tls_public_key (ne_tls e')) (set_private (tls_private_key (ne_tls e')) e)
    \<and> ensure_reality_keypair rnd' e' = Inr (False, e')"
  using ensure_cases [OF assms] consistent_kept by blast

definition demo_entry :: node_entry where
  "demo_entry = zero_entry\<lparr>ne_id := 1, ne_type := ''vless''\<rparr>"

lemma demo_entry_vless: "serves_vless demo_entry"
  by (simp add: serves_vless_def demo_entry_def normalize_node_type_def to_lower_constants)

theorem reality_keypair_stable_witness:
  "\<exists>e'. ensure_reality_keypair (Some (replicate 32 7)) demo_entry = Inr (True, e') \<and> consistent_pair e'
     \<and> ensure_reality_keypair None e' = Inr (False, e')"
proof -
  have src: "key_source (Some (replicate 32 7))" by (simp add: key_source_def list_all_iff)
  obtain e' where e': "ensure_reality_keypair (Some (replicate 32 7)) demo_entry = Inr (True, e')"
    using demo_entry_vless
    by (auto simp: ensure_reality_keypair_def serves_vless_def demo_entry_def zero_entry_def zero_tls_def
        generate_reality_keypair_def)
  from reality_keypair_stable [OF e' demo_entry_vless src] e' show ?thesis by blast
qed

end
