(* ===== verification/Store.thy ===== *)
theory Store
  imports Persist Reality
begin

text \<open>
  \<^verbatim>\<open>Store\<close> of \<^verbatim>\<open>tiny-xboard/store.go\<close>: loading and saving the state
  files, the user mutations, the traffic accumulation and the node look-ups, over a file system and
  a schedule of faults for each write. The modification time that \<^verbatim>\<open>os.Stat\<close> reports,
  the clock and the random bytes are arguments. The locks make every operation atomic; the one
  operation that is not, the traffic flush, has its own theory.
\<close>

section \<open>State\<close>

record store =
  st_dir :: string
  st_nodes :: "node_entry list"
  st_token :: string
  st_multi :: bool
  st_users :: "(int, xuser) gomap"
  st_traffic :: "(int, traffic) gomap"
  st_users_mod :: int
  st_users_loaded :: bool
  st_dirty :: bool

definition zero_time :: int where "zero_time = -62135596800"

definition empty_store :: "string \<Rightarrow> store" where
  "empty_store dir = \<lparr>st_dir = dir, st_nodes = [], st_token = [], st_multi = False, st_users = [],
     st_traffic = [], st_users_mod = zero_time, st_users_loaded = False, st_dirty = False\<rparr>"

text \<open>\<^verbatim>\<open>filepath.Join\<close> for a directory name in clean form.\<close>

definition node_path :: "store \<Rightarrow> string" where "node_path s = st_dir s @ ''/node.json''"
definition nodes_path :: "store \<Rightarrow> string" where "nodes_path s = st_dir s @ ''/nodes.json''"
definition users_path :: "store \<Rightarrow> string" where "users_path s = st_dir s @ ''/users.json''"
definition traffic_path :: "store \<Rightarrow> string" where "traffic_path s = st_dir s @ ''/traffic.json''"

section \<open>Saving\<close>

definition node_document :: "store \<Rightarrow> string \<times> string" where
  "node_document s = (if st_multi s
     then (nodes_path s, marshal_indent (enc_nodes_file
       \<lparr>nsf_version = known_version, nsf_token = st_token s, nsf_nodes = st_nodes s\<rparr>))
     else (node_path s, marshal_indent (enc_node_file (case st_nodes s of
         [] \<Rightarrow> zero_node_file\<lparr>nf_version := known_version\<rparr>
       | e # _ \<Rightarrow> node_file_from_entry e (st_token s)))))"

definition save_node :: "faults \<Rightarrow> store \<Rightarrow> fs \<Rightarrow> fs \<times> bool" where
  "save_node fl s fs = (case node_document s of (path, data) \<Rightarrow> atomic_write fl path data fs)"

definition users_snapshot :: "store \<Rightarrow> users_file" where
  "users_snapshot s = \<lparr>uf_version = known_version, uf_users = sort_key xu_id (map snd (st_users s))\<rparr>"

definition save_users :: "faults \<Rightarrow> store \<Rightarrow> fs \<Rightarrow> fs \<times> bool" where
  "save_users fl s fs = atomic_write fl (users_path s) (marshal_indent (enc_users_file (users_snapshot s))) fs"

definition traffic_snapshot :: "int \<Rightarrow> (int, traffic) gomap \<Rightarrow> traffic_file" where
  "traffic_snapshot now tr = \<lparr>tf_version = known_version, tf_updated_at = now,
     tf_users = fold (\<lambda>(i, t). mput (itoa i) t) tr []\<rparr>"

definition save_traffic :: "faults \<Rightarrow> int \<Rightarrow> store \<Rightarrow> fs \<Rightarrow> fs \<times> bool" where
  "save_traffic fl now s fs =
     atomic_write fl (traffic_path s) (marshal (enc_traffic_file (traffic_snapshot now (st_traffic s)))) fs"

section \<open>Loading\<close>

text \<open>The three loaders of validated documents share this shape: a document that fails validation
  is replaced by its backup, decoded afresh.\<close>

definition load_checked ::
  "'a decoder \<Rightarrow> 'a \<Rightarrow> ('a \<Rightarrow> xerror option) \<Rightarrow> fs \<Rightarrow> string \<Rightarrow> xerror + 'a \<times> bool" where
  "load_checked dec zero validate fs path = (case load_with_fallback dec fs path zero of
     (v, Inr e) \<Rightarrow> Inl (LoadFailed Unreadable)
   | (v, Inl used) \<Rightarrow> (case validate v of None \<Rightarrow> Inr (v, used)
     | Some _ \<Rightarrow> (case load_file dec fs (bak_of path) zero of
         (v2, Some _) \<Rightarrow> Inl (LoadFailed MainAndBackupInvalid)
       | (v2, None) \<Rightarrow> (case validate v2 of Some _ \<Rightarrow> Inl (LoadFailed MainAndBackupInvalid)
         | None \<Rightarrow> Inr (v2, True)))))"

definition hex_digit :: "nat \<Rightarrow> char" where
  "hex_digit n = char_of (if n < 10 then n + 48 else n + 87)"

definition hex_encode :: "bytes \<Rightarrow> string" where
  "hex_encode bs = concat (map (\<lambda>b. [hex_digit (b div 16), hex_digit (b mod 16)]) bs)"

definition random_token :: "bytes option \<Rightarrow> string" where
  "random_token rnd = (case rnd of None \<Rightarrow> ''change-me'' | Some bs \<Rightarrow> hex_encode bs)"

definition default_node :: "bytes option \<Rightarrow> node_file" where
  "default_node rnd = \<lparr>nf_version = known_version,
     nf_node = \<lparr>ni_id = 1, ni_name = ''nat-vless-01'', ni_type = ''vless'', ni_enabled = True\<rparr>,
     nf_auth = \<lparr>auth_token = random_token rnd\<rparr>,
     nf_server = \<lparr>srv_listen = ''0.0.0.0'', srv_port = 443\<rparr>,
     nf_protocol = \<lparr>proto_type = ''vless'', proto_network = ''tcp'', proto_flow = ''xtls-rprx-vision'',
       proto_decryption = ''none''\<rparr>,
     nf_tls = \<lparr>tls_enabled = True, tls_server_name = ''www.microsoft.com'', tls_server_port = 443,
       tls_public_key = [], tls_private_key = [], tls_short_id = ''abcd1234'', tls_allow_insecure = True\<rparr>,
     nf_runtime = \<lparr>rt_sync_interval = default_sync_interval,
       rt_traffic_flush_interval = default_traffic_flush_interval\<rparr>\<rparr>"

text \<open>What a start draws from its surroundings: random bytes for a token and for the key of the
  \<open>i\<close>-th node, the clock, the modification time of the users file, and the faults of the three
  possible writes.\<close>

record start_env =
  en_token :: "bytes option"
  en_key :: "nat \<Rightarrow> bytes option"
  en_now :: int
  en_mtime :: int
  en_node :: faults
  en_users :: faults
  en_traffic :: faults

definition saved :: "fs \<times> bool \<Rightarrow> store \<Rightarrow> fs \<times> (xerror + store)" where
  "saved r s = (case r of (fs', ok) \<Rightarrow> (fs', if ok then Inr s else Inl SaveFailed))"

definition load_single_node :: "start_env \<Rightarrow> store \<Rightarrow> fs \<Rightarrow> fs \<times> (xerror + store)" where
  "load_single_node en s fs = (case fs (node_path s) of
     None \<Rightarrow> (let nf = default_node (en_token en) in
       case ensure_reality_keypair (en_key en 0) (entry_from_node_file nf) of Inl e \<Rightarrow> (fs, Inl e)
       | Inr (changed, entry) \<Rightarrow>
           (let s' = s\<lparr>st_nodes := [entry], st_token := auth_token (nf_auth nf), st_multi := False\<rparr>
            in saved (save_node (en_node en) s' fs) s'))
   | Some _ \<Rightarrow> (case load_checked dec_node_file zero_node_file validate_node fs (node_path s) of
       Inl e \<Rightarrow> (fs, Inl e)
     | Inr (nf, used) \<Rightarrow> (case ensure_reality_keypair (en_key en 0) (entry_from_node_file nf) of Inl e \<Rightarrow> (fs, Inl e)
         | Inr (changed, entry) \<Rightarrow>
             (let s' = s\<lparr>st_nodes := [entry], st_token := auth_token (nf_auth nf), st_multi := False\<rparr>
              in if used \<or> changed then saved (save_node (en_node en) s' fs) s' else (fs, Inr s')))))"

fun ensure_all :: "(nat \<Rightarrow> bytes option) \<Rightarrow> nat \<Rightarrow> node_entry list \<Rightarrow> xerror + bool \<times> node_entry list" where
  "ensure_all rnd i [] = Inr (False, [])"
| "ensure_all rnd i (e # es) = (case ensure_reality_keypair (rnd i) e of Inl err \<Rightarrow> Inl err
     | Inr (c, e') \<Rightarrow> (case ensure_all rnd (Suc i) es of Inl err \<Rightarrow> Inl err
         | Inr (c', es') \<Rightarrow> Inr (c \<or> c', e' # es')))"

definition load_nodes_file :: "start_env \<Rightarrow> store \<Rightarrow> fs \<Rightarrow> fs \<times> (xerror + store)" where
  "load_nodes_file en s fs = (case load_checked dec_nodes_file zero_nodes_file validate_nodes_file fs (nodes_path s) of
     Inl e \<Rightarrow> (fs, Inl e)
   | Inr (nf, used) \<Rightarrow> (case ensure_all (en_key en) 0 (nsf_nodes nf) of Inl e \<Rightarrow> (fs, Inl e)
       | Inr (changed, nodes) \<Rightarrow>
           (let s' = s\<lparr>st_nodes := nodes, st_token := nsf_token nf, st_multi := True\<rparr>
            in if used \<or> changed then saved (save_node (en_node en) s' fs) s' else (fs, Inr s'))))"

definition load_node :: "start_env \<Rightarrow> store \<Rightarrow> fs \<Rightarrow> fs \<times> (xerror + store)" where
  "load_node en s fs = (if fs (nodes_path s) \<noteq> None then load_nodes_file en s fs else load_single_node en s fs)"

definition load_users_from_disk :: "fs \<Rightarrow> string \<Rightarrow> xerror + users_file \<times> bool" where
  "load_users_from_disk fs path = (case load_with_fallback dec_users_file fs path zero_users_file of
     (uf, Inr e) \<Rightarrow> if is_not_exist e then Inr (uf, False) else Inl (LoadFailed Unreadable)
   | (uf, Inl used) \<Rightarrow> (case validate_users_file uf of None \<Rightarrow> Inr (uf, used)
     | Some _ \<Rightarrow> (case load_file dec_users_file fs (bak_of path) zero_users_file of
         (uf2, Some _) \<Rightarrow> Inl (LoadFailed MainAndBackupInvalid)
       | (uf2, None) \<Rightarrow> (case validate_users_file uf2 of Some _ \<Rightarrow> Inl (LoadFailed MainAndBackupInvalid)
         | None \<Rightarrow> Inr (uf2, True)))))"

definition users_map :: "xuser list \<Rightarrow> (int, xuser) gomap" where
  "users_map us = fold (\<lambda>u. mput (xu_id u) u) us []"

definition load_users :: "faults \<Rightarrow> int \<Rightarrow> store \<Rightarrow> fs \<Rightarrow> fs \<times> (xerror + store)" where
  "load_users fl mtime s fs = (case fs (users_path s) of
     None \<Rightarrow> saved (save_users fl s fs) s
   | Some _ \<Rightarrow> (case load_users_from_disk fs (users_path s) of Inl e \<Rightarrow> (fs, Inl e)
     | Inr (uf, used) \<Rightarrow>
         (let s' = s\<lparr>st_users := users_map (uf_users uf), st_users_loaded := True, st_users_mod := mtime\<rparr>
          in if used then saved (save_users fl s' fs) s' else (fs, Inr s'))))"

definition prune :: "(int, xuser) gomap \<Rightarrow> (int, traffic) gomap \<Rightarrow> (int, traffic) gomap" where
  "prune us tr = filter (\<lambda>(i, t). mget us i \<noteq> None) tr"

definition prune_traffic :: "store \<Rightarrow> store" where
  "prune_traffic s = s\<lparr>st_traffic := prune (st_users s) (st_traffic s)\<rparr>"

definition load_traffic :: "faults \<Rightarrow> int \<Rightarrow> store \<Rightarrow> fs \<Rightarrow> store \<times> fs" where
  "load_traffic fl now s fs = (case fs (traffic_path s) of
     None \<Rightarrow> (s, fst (save_traffic fl now s fs))
   | Some _ \<Rightarrow> (case load_checked dec_traffic_file zero_traffic_file validate_traffic_file fs (traffic_path s) of
       Inl e \<Rightarrow> (s\<lparr>st_traffic := []\<rparr>, fs)
     | Inr (tf, used) \<Rightarrow> (let s' = s\<lparr>st_traffic := normalize_traffic_file tf\<rparr>
         in (s', if used then fst (save_traffic fl now s' fs) else fs))))"

definition new_store :: "start_env \<Rightarrow> string \<Rightarrow> fs \<Rightarrow> fs \<times> (xerror + store)" where
  "new_store en dir fs = (case load_node en (empty_store dir) fs of
     (fs1, Inl e) \<Rightarrow> (fs1, Inl e)
   | (fs1, Inr s1) \<Rightarrow> (case load_users (en_users en) (en_mtime en) s1 fs1 of
       (fs2, Inl e) \<Rightarrow> (fs2, Inl e)
     | (fs2, Inr s2) \<Rightarrow> (case load_traffic (en_traffic en) (en_now en) s2 fs2 of
         (s3, fs3) \<Rightarrow> (fs3, Inr (prune_traffic s3)))))"

definition refresh_users :: "faults \<Rightarrow> int \<Rightarrow> store \<Rightarrow> fs \<Rightarrow> store \<times> fs \<times> xerror option" where
  "refresh_users fl mtime s fs = (case fs (users_path s) of
     None \<Rightarrow> (s, fs, None)
   | Some _ \<Rightarrow> if st_users_loaded s \<and> mtime \<le> st_users_mod s then (s, fs, None)
     else (case load_users_from_disk fs (users_path s) of
         Inl e \<Rightarrow> (s, fs, Some e)
       | Inr (uf, used) \<Rightarrow>
           (let m = users_map (uf_users uf); tr = prune m (st_traffic s);
                s' = s\<lparr>st_users := m, st_users_loaded := True, st_users_mod := mtime, st_traffic := tr,
                  st_dirty := (st_dirty s \<or> length tr < length (st_traffic s))\<rparr>
            in if used then (case save_users fl s' fs of (fs', ok) \<Rightarrow> (s', fs', if ok then None else Some SaveFailed))
               else (s', fs, None))))"

section \<open>User mutations\<close>

fun first_bad_user :: "xuser list \<Rightarrow> xerror option" where
  "first_bad_user [] = None"
| "first_bad_user (u # us) = (case validate_user u of Some e \<Rightarrow> Some e | None \<Rightarrow> first_bad_user us)"

fun first_duplicate :: "int list \<Rightarrow> xuser list \<Rightarrow> xerror option" where
  "first_duplicate seen [] = None"
| "first_duplicate seen (u # us) =
     (if xu_id u \<in> set seen then Some (DuplicateUser (xu_id u)) else first_duplicate (xu_id u # seen) us)"

definition persisted :: "faults \<Rightarrow> store \<Rightarrow> fs \<Rightarrow> store \<times> fs \<times> xerror option" where
  "persisted fl s fs = (case save_users fl s fs of (fs', ok) \<Rightarrow> (s, fs', if ok then None else Some SaveFailed))"

definition set_users :: "faults \<Rightarrow> xuser list \<Rightarrow> store \<Rightarrow> fs \<Rightarrow> store \<times> fs \<times> xerror option" where
  "set_users fl us s fs =
     (if max_users < length us then (s, fs, Some (TooManyUsers (length us)))
      else case first_bad_user us of Some e \<Rightarrow> (s, fs, Some e)
      | None \<Rightarrow> (case first_duplicate [] us of Some e \<Rightarrow> (s, fs, Some e)
        | None \<Rightarrow> (let m = users_map us in
            persisted fl (s\<lparr>st_traffic := prune m (st_traffic s), st_users := m\<rparr>) fs)))"

definition add_user :: "faults \<Rightarrow> xuser \<Rightarrow> store \<Rightarrow> fs \<Rightarrow> store \<times> fs \<times> xerror option" where
  "add_user fl u s fs = (case validate_user u of Some e \<Rightarrow> (s, fs, Some e)
     | None \<Rightarrow> if mget (st_users s) (xu_id u) \<noteq> None then (s, fs, Some (UserExists (xu_id u)))
       else if max_users \<le> length (st_users s) then (s, fs, Some UserLimitReached)
       else persisted fl (s\<lparr>st_users := mput (xu_id u) u (st_users s)\<rparr>) fs)"

definition delete_user :: "faults \<Rightarrow> int \<Rightarrow> store \<Rightarrow> fs \<Rightarrow> store \<times> fs \<times> xerror option" where
  "delete_user fl i s fs = (if mget (st_users s) i = None then (s, fs, Some (NoSuchUser i))
     else persisted fl (s\<lparr>st_users := mdel i (st_users s), st_traffic := mdel i (st_traffic s)\<rparr>) fs)"

definition enabled_users :: "store \<Rightarrow> xuser list" where
  "enabled_users s = sort_key xu_id (filter xu_enabled (map snd (st_users s)))"

section \<open>Traffic and node look-ups\<close>

definition accumulate :: "int \<Rightarrow> int64 \<Rightarrow> int64 \<Rightarrow> store \<Rightarrow> store \<times> bool" where
  "accumulate uid up down s =
     (if sint up < 0 \<or> sint down < 0 then (s, False)
      else if mget (st_users s) uid = None then (s, False)
      else let t = (case mget (st_traffic s) uid of None \<Rightarrow> zero_traffic | Some t \<Rightarrow> t) in
        (s\<lparr>st_traffic := mput uid \<lparr>upload = upload t + up, download = download t + down\<rparr> (st_traffic s),
           st_dirty := True\<rparr>, True))"

definition snapshot_traffic :: "store \<Rightarrow> (int, traffic) gomap" where
  "snapshot_traffic s = st_traffic s"

fun flush_interval :: "node_entry list \<Rightarrow> int" where
  "flush_interval [] = default_traffic_flush_interval"
| "flush_interval (e # es) = (if 0 < rt_traffic_flush_interval (ne_runtime e)
     then rt_traffic_flush_interval (ne_runtime e) else flush_interval es)"

definition runtime_flush_interval :: "store \<Rightarrow> int" where
  "runtime_flush_interval s = flush_interval (st_nodes s)"

definition store_node_info :: "store \<Rightarrow> node_info" where
  "store_node_info s = (case st_nodes s of [] \<Rightarrow> zero_node_info
     | e # _ \<Rightarrow> \<lparr>ni_id = ne_id e, ni_name = ne_name e, ni_type = ne_type e, ni_enabled = ne_enabled e\<rparr>)"

definition normalized_node_type :: "store \<Rightarrow> string" where
  "normalized_node_type s = (case st_nodes s of [] \<Rightarrow> [] | e # _ \<Rightarrow> normalize_node_type (ne_type e))"

definition lookup_node :: "store \<Rightarrow> int \<Rightarrow> node_entry \<times> bool" where
  "lookup_node s i = (case find (\<lambda>e. ne_id e = i) (st_nodes s) of Some e \<Rightarrow> (e, True) | None \<Rightarrow> (zero_entry, False))"

record node_snapshot =
  snap_found :: bool
  snap_enabled :: bool
  snap_type :: string

definition node_snapshot_of :: "store \<Rightarrow> int \<Rightarrow> node_snapshot" where
  "node_snapshot_of s i = (case find (\<lambda>e. ne_id e = i) (st_nodes s) of
     Some e \<Rightarrow> \<lparr>snap_found = True, snap_enabled = ne_enabled e, snap_type = ne_type e\<rparr>
   | None \<Rightarrow> \<lparr>snap_found = False, snap_enabled = False, snap_type = []\<rparr>)"

definition valid_token :: "store \<Rightarrow> string \<Rightarrow> int \<Rightarrow> bool" where
  "valid_token s token i \<longleftrightarrow> token \<noteq> [] \<and> (case find (\<lambda>e. ne_id e = i) (st_nodes s) of
     Some e \<Rightarrow> if ne_token e \<noteq> [] then token = ne_token e else token = st_token s
   | None \<Rightarrow> False)"

end
