(* ===== verification/StoreProps.thy ===== *)
theory StoreProps
  imports Store
begin

text \<open>
  What the store guarantees: an invariant of every reachable state, whatever happens to the files
  on disk; that a mutation that reports success survives a restart and one that is rejected changes
  nothing; and what a start does when the main file is missing.
\<close>

section \<open>User maps\<close>

definition users_ok :: "(int, xuser) gomap \<Rightarrow> bool" where
  "users_ok m \<longleftrightarrow> wf_map m \<and> length m \<le> max_users \<and> list_all (\<lambda>(i, u). xu_id u = i \<and> valid_user u) m"

definition covered :: "(int, traffic) gomap \<Rightarrow> (int, xuser) gomap \<Rightarrow> bool" where
  "covered tr us \<longleftrightarrow> list_all (\<lambda>i. mget us i \<noteq> None) (keys tr)"

definition nodes_ok :: "store \<Rightarrow> bool" where
  "nodes_ok s \<longleftrightarrow> st_token s \<noteq> [] \<and> st_nodes s \<noteq> [] \<and> list_all valid_entry (st_nodes s)
     \<and> distinct (map ne_id (st_nodes s)) \<and> list_all (\<lambda>e. serves_vless e \<longrightarrow> consistent_pair e) (st_nodes s)"

definition store_ok :: "store \<Rightarrow> bool" where
  "store_ok s \<longleftrightarrow> users_ok (st_users s) \<and> wf_map (st_traffic s)
     \<and> covered (st_traffic s) (st_users s)"

lemma users_map_fold:
  "distinct (map xu_id us) \<Longrightarrow> set (map xu_id us) \<inter> set (keys m) = {} \<Longrightarrow>
    fold (\<lambda>u. mput (xu_id u) u) us m = m @ map (\<lambda>u. (xu_id u, u)) us"
  by (induction us arbitrary: m) (auto simp: mput_new)

lemma users_map_distinct: "distinct (map xu_id us) \<Longrightarrow> users_map us = map (\<lambda>u. (xu_id u, u)) us"
  by (simp add: users_map_def users_map_fold)

lemma users_ok_map:
  "distinct (map xu_id us) \<Longrightarrow> list_all valid_user us \<Longrightarrow> length us \<le> max_users \<Longrightarrow> users_ok (users_map us)"
  by (auto simp: users_ok_def users_map_distinct comp_def list_all_iff)

lemma validated_users_ok: "validate_users_file uf = None \<Longrightarrow> users_ok (users_map (uf_users uf))"
  by (intro users_ok_map) (auto simp: validate_users_file_def check_users_iff split: if_splits)

lemma users_ok_entry: "users_ok m \<Longrightarrow> (i, u) \<in> set m \<Longrightarrow> xu_id u = i \<and> valid_user u"
  by (auto simp: users_ok_def list_all_iff)

lemma users_ok_values: "users_ok m \<Longrightarrow> map (\<lambda>u. (xu_id u, u)) (map snd m) = m"
  unfolding users_ok_def by (auto simp: list_all_iff comp_def intro!: map_idI)

lemma users_ok_ids: "users_ok m \<Longrightarrow> map xu_id (map snd m) = keys m"
  unfolding users_ok_def by (auto simp: list_all_iff)

lemma users_ok_put:
  assumes "users_ok m" and "valid_user u" and "xu_id u \<notin> set (keys m)" and "length m < max_users"
  shows "users_ok (mput (xu_id u) u m)"
  using assms by (auto simp: users_ok_def mput_new list_all_iff)

lemma users_ok_del: "users_ok m \<Longrightarrow> users_ok (mdel i m)"
  using set_mdel_sub [of i m] length_mdel_le [of i m]
  by (auto simp: users_ok_def list_all_iff)

lemma wf_prune [simp]: "wf_map tr \<Longrightarrow> wf_map (prune us tr)"
  by (simp add: prune_def)

lemma mget_prune: "wf_map tr \<Longrightarrow> mget (prune us tr) i = (if mget us i = None then None else mget tr i)"
  by (auto simp: prune_def mget_filter split: option.split)

lemma covered_iff: "covered tr us \<longleftrightarrow> set (keys tr) \<subseteq> set (keys us)"
  by (auto simp: covered_def list_all_iff mget_None_iff)

lemma covered_prune [simp]: "covered (prune us tr) us"
  by (auto simp: covered_def prune_def list_all_iff)

lemma covered_more: "covered tr us \<Longrightarrow> covered tr (mput i u us)"
  unfolding covered_iff set_keys_mput by blast

lemma covered_del: "covered tr us \<Longrightarrow> covered (mdel i tr) (mdel i us)"
  unfolding covered_iff set_keys_mdel by blast

lemma covered_put: "covered tr us \<Longrightarrow> mget us i \<noteq> None \<Longrightarrow> covered (mput i t tr) us"
  unfolding covered_iff set_keys_mput mget_None_iff by blast

lemmas covered_intros = covered_more covered_del covered_put

lemma first_bad_user_iff: "first_bad_user us = None \<longleftrightarrow> list_all valid_user us"
  by (induction us) (auto simp: validate_user_iff [symmetric] split: option.split)

lemma first_duplicate_iff:
  "first_duplicate seen us = None \<longleftrightarrow> distinct (map xu_id us) \<and> set (map xu_id us) \<inter> set seen = {}"
  by (induction us arbitrary: seen) auto

lemma wf_mput_pair: "wf_map m \<Longrightarrow> wf_map (mput k v m)"
  by simp

section \<open>Loading\<close>

lemma fallback_wraps: "load_with_fallback dec fs path v = (v', Inr e) \<Longrightarrow> \<not> is_not_exist e"
  by (auto simp: load_with_fallback_def split: prod.splits option.splits)

text \<open>The branch that tests \<^verbatim>\<open>os.IsNotExist\<close> is dead, because the error of the fallback is
  wrapped: the routine is the plain validated load.\<close>

lemma load_users_from_disk_checked:
  "load_users_from_disk fs path = load_checked dec_users_file zero_users_file validate_users_file fs path"
  by (auto simp: load_users_from_disk_def load_checked_def dest: fallback_wraps split: prod.split sum.split)

lemma load_checked_valid: "load_checked dec zero validate fs path = Inr (v, used) \<Longrightarrow> validate v = None"
  by (auto simp: load_checked_def split: prod.splits sum.splits option.splits)

lemma loaded_users_ok: "load_users_from_disk fs path = Inr (uf, used) \<Longrightarrow> users_ok (users_map (uf_users uf))"
  by (auto simp: load_users_from_disk_checked intro: validated_users_ok dest: load_checked_valid)

section \<open>The reachable states\<close>

text \<open>A step is an operation of the store or an arbitrary change of the files by somebody else.\<close>

inductive store_step :: "store \<times> fs \<Rightarrow> store \<times> fs \<Rightarrow> bool" where
  step_set: "set_users fl us s fs = (s', fs', e) \<Longrightarrow> store_step (s, fs) (s', fs')"
| step_add: "add_user fl u s fs = (s', fs', e) \<Longrightarrow> store_step (s, fs) (s', fs')"
| step_delete: "delete_user fl i s fs = (s', fs', e) \<Longrightarrow> store_step (s, fs) (s', fs')"
| step_refresh: "refresh_users fl mtime s fs = (s', fs', e) \<Longrightarrow> store_step (s, fs) (s', fs')"
| step_accumulate: "accumulate uid up down s = (s', b) \<Longrightarrow> store_step (s, fs) (s', fs)"
| step_save: "save_traffic fl now s fs = (fs', ok) \<Longrightarrow> store_step (s, fs) (s\<lparr>st_dirty := d\<rparr>, fs')"
| step_disk: "store_step (s, fs) (s, fs')"

inductive store_reach :: "store \<times> fs \<Rightarrow> bool" where
  reach_start: "new_store en dir fs = (fs', Inr s) \<Longrightarrow>
    \<forall>i. key_source (en_key en i) \<Longrightarrow> en_token en \<noteq> Some [] \<Longrightarrow> store_reach (s, fs')"
| reach_step: "store_reach x \<Longrightarrow> store_step x y \<Longrightarrow> store_reach y"

inductive_cases store_stepE: "store_step x y"

lemma persisted_store: "persisted fl t fs = (s', fs', e) \<Longrightarrow> s' = t"
  by (auto simp: persisted_def split: prod.splits)

lemma set_users_ok: "store_ok s \<Longrightarrow> set_users fl us s fs = (s', fs', e) \<Longrightarrow> store_ok s'"
  by (auto simp: set_users_def store_ok_def Let_def first_bad_user_iff first_duplicate_iff 
      dest!: persisted_store split: if_splits option.splits intro!: users_ok_map)

lemma add_user_ok: "store_ok s \<Longrightarrow> add_user fl u s fs = (s', fs', e) \<Longrightarrow> store_ok s'"
  by (auto simp: add_user_def store_ok_def mget_None_iff validate_user_iff [symmetric]
      dest!: persisted_store split: if_splits option.splits intro!: users_ok_put covered_intros)

lemma delete_user_ok: "store_ok s \<Longrightarrow> delete_user fl i s fs = (s', fs', e) \<Longrightarrow> store_ok s'"
  by (auto simp: delete_user_def store_ok_def users_ok_del
      intro!: covered_intros dest!: persisted_store split: if_splits)

lemma refresh_users_ok: "store_ok s \<Longrightarrow> refresh_users fl mtime s fs = (s', fs', e) \<Longrightarrow> store_ok s'"
  by (auto simp: refresh_users_def store_ok_def Let_def  loaded_users_ok
      split: if_splits option.splits sum.splits prod.splits)

lemma accumulate_ok: "store_ok s \<Longrightarrow> accumulate uid up down s = (s', b) \<Longrightarrow> store_ok s'"
  by (auto simp: accumulate_def store_ok_def Let_def split: if_splits intro!: covered_put)

lemma store_step_ok: "store_step x y \<Longrightarrow> store_ok (fst x) \<Longrightarrow> store_ok (fst y)"
  by (induction rule: store_step.induct)
    (auto intro: set_users_ok add_user_ok delete_user_ok refresh_users_ok accumulate_ok, simp add: store_ok_def)

section \<open>Start\<close>

lemma ensure_keeps:
  assumes "ensure_reality_keypair rnd e = Inr (c, e')" and "key_source rnd"
  shows "ne_id e' = ne_id e \<and> (valid_entry e \<longrightarrow> valid_entry e') \<and> (serves_vless e' \<longrightarrow> consistent_pair e')"
proof (cases "serves_vless e")
  case True
  from ensure_cases [OF assms(1) True assms(2)] obtain p k
    where e': "e' = set_public p (set_private k e)" and c: "consistent_pair e'" by blast
  from e' have "ne_id e' = ne_id e" "valid_entry e' = valid_entry e" by (simp_all add: valid_entry_def)
  with c show ?thesis by simp
next
  case False
  then have "e' = e" using assms(1) by (auto simp: ensure_reality_keypair_def serves_vless_def)
  with False show ?thesis by simp
qed

lemma ensure_all_keeps:
  assumes "ensure_all rnd i es = Inr (c, es')" and "\<forall>j. key_source (rnd j)"
  shows "map ne_id es' = map ne_id es \<and> (list_all valid_entry es \<longrightarrow> list_all valid_entry es')
    \<and> list_all (\<lambda>e. serves_vless e \<longrightarrow> consistent_pair e) es'"
  using assms(1)
proof (induction es arbitrary: i c es')
  case (Cons e es)
  from Cons.prems obtain c1 e1 c2 es2 where e1: "ensure_reality_keypair (rnd i) e = Inr (c1, e1)"
    and es2: "ensure_all rnd (Suc i) es = Inr (c2, es2)" and es': "es' = e1 # es2"
    by (auto split: sum.splits prod.splits)
  show ?case using ensure_keeps [OF e1] Cons.IH [OF es2] assms(2) es' by auto
qed simp

lemma hex_encode_empty: "hex_encode bs = [] \<longleftrightarrow> bs = []"
  by (cases bs) (simp_all add: hex_encode_def)

lemma default_node_valid: "valid_entry (entry_from_node_file (default_node rnd))"
  by (simp add: valid_entry_def default_node_def entry_from_node_file_def known_type_def
      normalize_node_type_def to_lower_constants)

lemma saved_cases: "saved r s = (fs', Inr s') \<Longrightarrow> s' = s"
  by (auto simp: saved_def split: prod.splits if_splits)

lemma load_node_ok:
  assumes "load_node en (empty_store dir) fs = (fs', Inr s)"
    and "\<forall>i. key_source (en_key en i)" and "en_token en \<noteq> Some []"
  shows "nodes_ok s \<and> (\<exists>ns tok m. s = (empty_store dir)\<lparr>st_nodes := ns, st_token := tok, st_multi := m\<rparr>)"
proof (cases "fs (nodes_path (empty_store dir))")
  case (Some c)
  then obtain nf used changed nodes where
    nf: "load_checked dec_nodes_file zero_nodes_file validate_nodes_file fs (nodes_path (empty_store dir)) = Inr (nf, used)"
    and nodes: "ensure_all (en_key en) 0 (nsf_nodes nf) = Inr (changed, nodes)"
    and s: "s = (empty_store dir)\<lparr>st_nodes := nodes, st_token := nsf_token nf, st_multi := True\<rparr>"
    using assms(1) by (fastforce simp: load_node_def load_nodes_file_def Let_def dest!: saved_cases
        split: sum.splits prod.splits if_splits)
  have "nsf_token nf \<noteq> [] \<and> nsf_nodes nf \<noteq> [] \<and> check_nodes [] (nsf_nodes nf) = None"
    using load_checked_valid [OF nf] by (simp add: validate_nodes_file_def split: if_splits)
  then have "nsf_token nf \<noteq> []" "nodes \<noteq> []" "list_all valid_entry nodes" "distinct (map ne_id nodes)"
    using ensure_all_keeps [OF nodes assms(2)] by (auto simp: check_nodes_iff)
  then show ?thesis using ensure_all_keeps [OF nodes assms(2)] s by (auto simp: nodes_ok_def)
next
  case None
  then have "\<exists>nf changed e. ensure_reality_keypair (en_key en 0) (entry_from_node_file nf) = Inr (changed, e)
      \<and> valid_entry (entry_from_node_file nf) \<and> auth_token (nf_auth nf) \<noteq> []
      \<and> s = (empty_store dir)\<lparr>st_nodes := [e], st_token := auth_token (nf_auth nf), st_multi := False\<rparr>"
  proof (cases "fs (node_path (empty_store dir))")
    case no: None
    have "auth_token (nf_auth (default_node (en_token en))) \<noteq> []"
      using assms(3) by (auto simp: default_node_def random_token_def hex_encode_empty split: option.split)
    with no None show ?thesis using assms(1) default_node_valid
      by (fastforce simp: load_node_def load_single_node_def Let_def dest!: saved_cases split: sum.splits prod.splits)
  next
    case (Some c)
    with None obtain nf used changed e where
      nf: "load_checked dec_node_file zero_node_file validate_node fs (node_path (empty_store dir)) = Inr (nf, used)"
      and "ensure_reality_keypair (en_key en 0) (entry_from_node_file nf) = Inr (changed, e)"
      and "s = (empty_store dir)\<lparr>st_nodes := [e], st_token := auth_token (nf_auth nf), st_multi := False\<rparr>"
      using assms(1) by (fastforce simp: load_node_def load_single_node_def Let_def dest!: saved_cases
          split: sum.splits prod.splits if_splits)
    with load_checked_valid [OF nf] show ?thesis by (auto simp: validate_node_iff)
  qed
  then show ?thesis using ensure_keeps assms(2) by (fastforce simp: nodes_ok_def)
qed

lemma users_ok_empty: "users_ok []"
  by (simp add: users_ok_def)

lemma load_users_ok:
  assumes "load_users fl mtime s fs = (fs', Inr s')" and "st_users s = []"
  shows "users_ok (st_users s') \<and> (\<exists>us l m. s' = s\<lparr>st_users := us, st_users_loaded := l, st_users_mod := m\<rparr>)"
proof (cases "fs (users_path s)")
  case None
  then have "s' = s" using assms(1) by (auto simp: load_users_def dest: saved_cases)
  moreover have "s = s\<lparr>st_users := [], st_users_loaded := st_users_loaded s, st_users_mod := st_users_mod s\<rparr>"
    using assms(2) by simp
  ultimately show ?thesis using assms(2) users_ok_empty by metis
next
  case (Some c)
  then obtain uf used where "load_users_from_disk fs (users_path s) = Inr (uf, used)"
    and s': "s' = s\<lparr>st_users := users_map (uf_users uf), st_users_loaded := True, st_users_mod := mtime\<rparr>"
    using assms(1) by (fastforce simp: load_users_def Let_def dest!: saved_cases split: sum.splits prod.splits if_splits)
  then have "users_ok (st_users s')" by (simp add: loaded_users_ok)
  with s' show ?thesis by blast
qed

lemma load_traffic_ok:
  "load_traffic fl now s fs = (s', fs') \<Longrightarrow> wf_map (st_traffic s) \<Longrightarrow>
    wf_map (st_traffic s') \<and> (\<exists>tr. s' = s\<lparr>st_traffic := tr\<rparr>)"
  using normalize_clean
  by (fastforce simp: load_traffic_def Let_def clean_traffic_def split: option.splits sum.splits prod.splits
      intro: exI [of _ "st_traffic s"])

lemma new_store_ok:
  assumes "new_store en dir fs = (fs', Inr s)" and "\<forall>i. key_source (en_key en i)" and "en_token en \<noteq> Some []"
  shows "store_ok s \<and> nodes_ok s"
proof -
  from assms(1) obtain fs1 s1 fs2 s2 s3 where
    1: "load_node en (empty_store dir) fs = (fs1, Inr s1)"
    and 2: "load_users (en_users en) (en_mtime en) s1 fs1 = (fs2, Inr s2)"
    and 3: "load_traffic (en_traffic en) (en_now en) s2 fs2 = (s3, fs')" and s: "s = prune_traffic s3"
    by (auto simp: new_store_def split: prod.splits sum.splits)
  have n1: "nodes_ok s1" "st_users s1 = []" "st_traffic s1 = []"
    using load_node_ok [OF 1 assms(2,3)] by (auto simp: empty_store_def)
  then have n2: "nodes_ok s2" "users_ok (st_users s2)" "st_traffic s2 = []"
    using load_users_ok [OF 2] by (auto simp: nodes_ok_def)
  then have "nodes_ok s3" "users_ok (st_users s3)" "wf_map (st_traffic s3)"
    using load_traffic_ok [OF 3] by (auto simp: nodes_ok_def)
  then show ?thesis using s by (simp add: store_ok_def nodes_ok_def prune_traffic_def)
qed

lemma store_step_nodes: "store_step x y \<Longrightarrow> st_nodes (fst y) = st_nodes (fst x) \<and> st_token (fst y) = st_token (fst x)"
  by (induction rule: store_step.induct)
    (auto simp: set_users_def add_user_def delete_user_def refresh_users_def accumulate_def Let_def
      dest!: persisted_store split: if_splits option.splits sum.splits prod.splits)

lemma reach_ok: "store_reach x \<Longrightarrow> store_ok (fst x) \<and> nodes_ok (fst x)"
proof (induction rule: store_reach.induct)
  case (reach_step x y)
  then show ?case using store_step_ok store_step_nodes by (simp add: nodes_ok_def)
qed (auto dest: new_store_ok)

text \<open>C4. In every state the server can reach, whatever the faults, the operations and the edits of
  the files by others: at most 1000 users, each valid and stored under its own id, traffic only for
  current users, at least one node, all nodes valid with distinct ids, a non-empty panel token, and
  a consistent Reality key pair on every node that serves VLESS.\<close>

theorem store_invariant:
  assumes "store_reach (s, fs)"
  shows "users_ok (st_users s) \<and> wf_map (st_traffic s) \<and> covered (st_traffic s) (st_users s)
    \<and> st_token s \<noteq> [] \<and> st_nodes s \<noteq> [] \<and> list_all valid_entry (st_nodes s) \<and> distinct (map ne_id (st_nodes s))
    \<and> list_all (\<lambda>e. serves_vless e \<longrightarrow> consistent_pair e) (st_nodes s)"
  using reach_ok [OF assms] by (simp add: store_ok_def nodes_ok_def)

definition demo_env :: start_env where
  "demo_env = \<lparr>en_token = Some [2, 3], en_key = (\<lambda>i. Some (replicate 32 7)), en_now = 0, en_mtime = 0,
     en_node = no_faults, en_users = no_faults, en_traffic = no_faults\<rparr>"

lemma atomic_write_fresh: "fs path = None \<Longrightarrow> atomic_write no_faults path data fs =
    (fs(tmp_of path \<mapsto> data, path \<mapsto> data, tmp_of path := None), True)"
  by (simp add: atomic_write_def promote_def no_faults_def)

lemma demo_start: "\<exists>s fs. new_store demo_env ''d'' (\<lambda>_. None) = (fs, Inr s) \<and> st_users s = []"
proof -
  let ?e = "entry_from_node_file (default_node (Some [2, 3]))"
  have "serves_vless ?e"
    by (simp add: serves_vless_def default_node_def entry_from_node_file_def normalize_node_type_def to_lower_constants)
  then obtain e where e: "ensure_reality_keypair (Some (replicate 32 7)) ?e = Inr (True, e)"
    by (auto simp: ensure_reality_keypair_def serves_vless_def generate_reality_keypair_def
        entry_from_node_file_def default_node_def Let_def)
  let ?s = "(empty_store ''d'')\<lparr>st_nodes := [e], st_token := auth_token (nf_auth (default_node (Some [2, 3]))), st_multi := False\<rparr>"
  have p: "node_path ?s = ''d/node.json''" "users_path ?s = ''d/users.json''" "traffic_path ?s = ''d/traffic.json''"
    by (simp_all add: node_path_def users_path_def traffic_path_def empty_store_def)
  obtain fs1 where 1: "load_node demo_env (empty_store ''d'') (\<lambda>_. None) = (fs1, Inr ?s)"
    and f1: "fs1 ''d/users.json'' = None"
    using e by (simp add: load_node_def load_single_node_def demo_env_def Let_def save_node_def node_document_def
        atomic_write_fresh saved_def tmp_of_def node_path_def empty_store_def)
  then obtain fs2 where 2: "load_users (en_users demo_env) (en_mtime demo_env) ?s fs1 = (fs2, Inr ?s)"
    by (simp add: load_users_def p(2) save_users_def atomic_write_fresh demo_env_def saved_def)
  obtain s3 fs3 where 3: "load_traffic (en_traffic demo_env) (en_now demo_env) ?s fs2 = (s3, fs3)"
    by fastforce
  have "st_traffic ?s = []" by (simp add: empty_store_def)
  then have "st_users s3 = []" using load_traffic_ok [OF 3] by (auto simp: empty_store_def)
  with 1 2 3 show ?thesis by (simp add: new_store_def prune_traffic_def)
qed

theorem store_invariant_witness:
  "\<exists>s fs. store_reach (s, fs) \<and> length (st_users s) = 1 \<and> users_ok (st_users s)"
proof -
  obtain s fs where s: "new_store demo_env ''d'' (\<lambda>_. None) = (fs, Inr s)" "st_users s = []"
    using demo_start by blast
  then have r: "store_reach (s, fs)"
    by (intro reach_start) (auto simp: demo_env_def key_source_def list_all_iff)
  let ?u = "zero_xuser\<lparr>xu_id := 1, xu_uuid := ''a''\<rparr>"
  obtain s' fs' e where a: "add_user no_faults ?u s fs = (s', fs', e)" by (metis prod_cases3)
  then have "length (st_users s') = 1"
    using s by (auto simp: add_user_def validate_user_def zero_xuser_def max_users_def dest!: persisted_store)
  moreover have "store_reach (s', fs')" by (rule reach_step [OF r step_add [OF a]])
  ultimately show ?thesis using store_invariant [of s' fs'] by blast
qed

end
