(* ===== verification/Durable.thy ===== *)
theory Durable
  imports StoreProps
begin

text \<open>
  Durability of the store: what a restart finds after a mutation that reported success, after a
  rejected one, after a crash, and when the main file is missing while its backup holds the data.
\<close>

section \<open>Users\<close>

lemma snapshot_map:
  assumes "users_ok m"
  shows "distinct (map xu_id (sort_key xu_id (map snd m)))"
    and "mget (users_map (sort_key xu_id (map snd m))) = mget m"
proof -
  have d: "distinct (map xu_id (map snd m))" unfolding users_ok_ids [OF assms] using assms by (simp add: users_ok_def)
  then show d': "distinct (map xu_id (sort_key xu_id (map snd m)))"
    by (metis distinct_map distinct_sort set_sort)
  have "set (users_map (sort_key xu_id (map snd m))) = (\<lambda>u. (xu_id u, u)) ` set (map snd m)"
    by (simp add: users_map_distinct [OF d'])
  also have "\<dots> = set m" using arg_cong [OF users_ok_values [OF assms], of set] by (simp add: image_image)
  finally show "mget (users_map (sort_key xu_id (map snd m))) = mget m"
    using d' assms by (intro map_of_inject_set [THEN iffD2]) (simp_all add: users_map_distinct users_ok_def comp_def)
qed

lemma snapshot_valid: "users_ok (st_users s) \<Longrightarrow> validate_users_file (users_snapshot s) = None"
  using snapshot_map(1) [of "st_users s"]
  by (auto simp: validate_users_file_def users_snapshot_def check_users_iff bad_version_def known_version_def
      users_ok_def list_all_iff)

abbreviation users_doc_fits :: "store \<Rightarrow> bool" where
  "users_doc_fits s \<equiv> good_users_file (users_snapshot s) \<and> fits (marshal_indent (enc_users_file (users_snapshot s)))"

lemma saved_users_loaded:
  assumes "save_users fl s fs = (fs', True)" and "users_ok (st_users s)" and "users_doc_fits s"
  shows "load_users_from_disk fs' (users_path s) = Inr (users_snapshot s, False)"
  using users_doc.load_after_success [of "users_snapshot s" True fl "users_path s" fs fs'] assms
  by (simp add: load_users_from_disk_checked load_checked_def save_users_def marshal_indent_def snapshot_valid)

lemma loaded_main: "load_users_from_disk fs path = Inr (uf, False) \<Longrightarrow> fs path \<noteq> None"
  by (auto simp: load_users_from_disk_checked load_checked_def load_with_fallback_def load_file_def
      split: prod.splits sum.splits option.splits if_splits)

lemma saved_users_restart:
  assumes "save_users fl s fs = (fs', True)" and "users_ok (st_users s)" and "users_doc_fits s"
    and "st_dir s0 = st_dir s"
  shows "\<exists>s1. load_users fl' mtime s0 fs' = (fs', Inr s1) \<and> mget (st_users s1) = mget (st_users s)"
proof -
  have p: "users_path s0 = users_path s" using assms(4) by (simp add: users_path_def)
  have l: "load_users_from_disk fs' (users_path s) = Inr (users_snapshot s, False)"
    by (rule saved_users_loaded [OF assms(1-3)])
  obtain c where "fs' (users_path s) = Some c" using loaded_main [OF l] by blast
  then show ?thesis using l p snapshot_map(2) [OF assms(2)]
    by (simp add: load_users_def Let_def users_snapshot_def)
qed

text \<open>The three mutations of the user list.\<close>

datatype mutation = SetUsers "xuser list" | AddUser xuser | DeleteUser int

fun mutate :: "faults \<Rightarrow> mutation \<Rightarrow> store \<Rightarrow> fs \<Rightarrow> store \<times> fs \<times> xerror option" where
  "mutate fl (SetUsers us) = set_users fl us"
| "mutate fl (AddUser u) = add_user fl u"
| "mutate fl (DeleteUser i) = delete_user fl i"

lemma mutate_cases:
  assumes "mutate fl m s fs = (s', fs', e)"
  shows "(\<exists>err. e = Some err \<and> err \<noteq> SaveFailed \<and> s' = s \<and> fs' = fs)
    \<or> (\<exists>ok. save_users fl s' fs = (fs', ok) \<and> e = (if ok then None else Some SaveFailed))"
proof -
  have v: "validate_user u = Some err \<Longrightarrow> err \<noteq> SaveFailed" for u err
    by (auto simp: validate_user_def split: if_splits)
  then have b: "first_bad_user us = Some err \<Longrightarrow> err \<noteq> SaveFailed" for us err
    by (induction us) (auto split: option.splits)
  have d: "first_duplicate seen us = Some err \<Longrightarrow> err \<noteq> SaveFailed" for seen us err
    by (induction us arbitrary: seen) (auto split: if_splits)
  show ?thesis using assms v b d
    by (cases m) (auto simp: set_users_def add_user_def delete_user_def persisted_def Let_def
        split: if_splits option.splits prod.splits)
qed

lemma mutate_step: "mutate fl m s fs = (s', fs', e) \<Longrightarrow> store_step (s, fs) (s', fs')"
  by (cases m) (auto intro: step_set step_add step_delete)

lemma mutate_dir: "mutate fl m s fs = (s', fs', e) \<Longrightarrow> st_dir s' = st_dir s"
  by (cases m) (auto simp: set_users_def add_user_def delete_user_def Let_def dest!: persisted_store
      split: if_splits option.splits)

lemma mutate_ok: "store_ok s \<Longrightarrow> mutate fl m s fs = (s', fs', e) \<Longrightarrow> store_ok s' \<and> st_dir s' = st_dir s"
  using store_step_ok [OF mutate_step] mutate_dir by fastforce

text \<open>C7. A mutation of the user list that reports success survives a restart: loading the users from
  the files it leaves gives exactly the users it holds in memory, from the main file and without
  another write. It needs a document of at most 16 MB, the limit of the reader.\<close>

theorem mutation_durable:
  assumes "store_ok s" and "mutate fl m s fs = (s', fs', None)" and "users_doc_fits s'"
  shows "\<exists>s1. load_users fl' mtime (empty_store (st_dir s)) fs' = (fs', Inr s1) \<and> mget (st_users s1) = mget (st_users s')"
proof -
  have "save_users fl s' fs = (fs', True)" using mutate_cases [OF assms(2)] by (auto split: if_splits)
  moreover have "users_ok (st_users s')" "st_dir s' = st_dir s"
    using mutate_ok [OF assms(1,2)] by (simp_all add: store_ok_def)
  ultimately show ?thesis using assms(3) saved_users_restart [of fl s' fs fs' "empty_store (st_dir s)" fl' mtime]
    by (simp add: empty_store_def)
qed

text \<open>C28. A mutation that is rejected leaves memory and files as they were; one whose write fails is
  in effect in memory, and after the failure the users file loads as before or as after it,
  with a backup at hand where the main file is missing.\<close>

theorem mutation_failure:
  assumes "mutate fl m s fs = (s', fs', Some e)" and "fs (users_path s') = Some old"
    and "load_file dec_users_file fs (users_path s') zero_users_file = (x, None)" and "users_doc_fits s'"
  shows "(e \<noteq> SaveFailed \<and> s' = s \<and> fs' = fs)
    \<or> (e = SaveFailed \<and> load_with_fallback dec_users_file fs' (users_path s') zero_users_file
        \<in> {(x, Inl False), (x, Inl True), (users_snapshot s', Inl False)})"
proof (cases "e = SaveFailed")
  case True
  then have "save_users fl s' fs = (fs', False)" using mutate_cases [OF assms(1)] by (auto split: if_splits)
  then have r: "aw_reach (users_path s') (marshal_indent (enc_users_file (users_snapshot s'))) fs (Done False, fs')"
    unfolding save_users_def by (rule atomic_write_reach)
  with users_doc.load_after_crash [OF assms(2,3), of "users_snapshot s'" True "Done False" fs'] assms(4) True
  show ?thesis by (simp add: marshal_indent_def)
next
  case False
  then show ?thesis using mutate_cases [OF assms(1)] by (auto split: if_splits)
qed

definition demo_store :: store where
  "demo_store = (empty_store ''d'')\<lparr>st_users := [(1, zero_xuser\<lparr>xu_id := 1, xu_uuid := ''a''\<rparr>)]\<rparr>"

definition user2 :: xuser where
  "user2 = zero_xuser\<lparr>xu_id := 2, xu_uuid := ''b''\<rparr>"

definition demo_store2 :: store where
  "demo_store2 = demo_store\<lparr>st_users := [(1, zero_xuser\<lparr>xu_id := 1, xu_uuid := ''a''\<rparr>), (2, user2)]\<rparr>"

lemma demo_store_ok: "store_ok demo_store"
  by (simp add: store_ok_def users_ok_def demo_store_def empty_store_def covered_def max_users_def
      valid_user_def zero_xuser_def)

lemma demo_fits: "users_doc_fits demo_store2"
  by (simp add: users_snapshot_def demo_store2_def demo_store_def user2_def zero_xuser_def known_version_def
      good_users_file_def good_xuser_def in_int64_def min_int64_def max_int64_def enc_users_file_def enc_xuser_def
      print_simps)

lemma demo_add: "mutate fl (AddUser user2) demo_store fs = persisted fl demo_store2 fs"
  by (simp add: add_user_def validate_user_def demo_store_def demo_store2_def user2_def zero_xuser_def
      empty_store_def max_users_def)

theorem mutation_durable_witness:
  "\<exists>fs' s1. mutate no_faults (AddUser user2) demo_store (\<lambda>_. None) = (demo_store2, fs', None)
     \<and> load_users no_faults 0 (empty_store ''d'') fs' = (fs', Inr s1) \<and> mget (st_users s1) 2 = Some user2"
proof -
  obtain fs' where w: "mutate no_faults (AddUser user2) demo_store (\<lambda>_. None) = (demo_store2, fs', None)"
    unfolding demo_add by (simp add: persisted_def save_users_def atomic_write_fresh)
  moreover have "st_dir demo_store = ''d''" by (simp add: demo_store_def empty_store_def)
  moreover have "mget (st_users demo_store2) 2 = Some user2" by (simp add: demo_store2_def)
  ultimately show ?thesis using mutation_durable [OF demo_store_ok w demo_fits, of no_faults 0] by auto
qed

theorem mutation_failure_witness:
  "\<exists>fs'. mutate (no_faults\<lparr>f_promote := True, f_restore := True\<rparr>) (AddUser user2) demo_store
        [''d/users.json'' \<mapsto> marshal_indent (enc_users_file doc1)] = (demo_store2, fs', Some SaveFailed)
     \<and> load_with_fallback dec_users_file fs' ''d/users.json'' zero_users_file
        \<in> {(doc1, Inl False), (doc1, Inl True), (users_snapshot demo_store2, Inl False)}"
proof -
  let ?fl = "no_faults\<lparr>f_promote := True, f_restore := True\<rparr>"
  let ?fs = "[''d/users.json'' \<mapsto> marshal_indent (enc_users_file doc1)] :: fs"
  have p: "users_path demo_store2 = ''d/users.json''"
    by (simp add: users_path_def demo_store2_def demo_store_def empty_store_def)
  obtain fs' where "save_users ?fl demo_store2 ?fs = (fs', False)"
    by (simp add: save_users_def p atomic_write_def promote_def no_faults_def)
  then have w: "mutate ?fl (AddUser user2) demo_store ?fs = (demo_store2, fs', Some SaveFailed)"
    unfolding demo_add by (simp add: persisted_def)
  have "load_file dec_users_file ?fs ''d/users.json'' zero_users_file = (doc1, None)"
    using users_doc.load_written [of doc1 ?fs "''d/users.json''" True] demo_docs by (simp add: marshal_indent_def)
  then show ?thesis using mutation_failure [OF w _ _ demo_fits, of "marshal_indent (enc_users_file doc1)" doc1] w p by auto
qed

text \<open>The routine can stop between its two renames, which leaves the main file missing.\<close>

lemma between_renames:
  assumes "fs path = Some old"
  shows "aw_reach path data fs (Backed, fs(tmp_of path \<mapsto> data, bak_of path \<mapsto> old, path := None))"
proof -
  have "aw_reach path data fs (Written, fs(tmp_of path \<mapsto> data))"
    by (rule aw_more [OF written_reach write_ok]) auto
  then have "aw_reach path data fs (Closed, fs(tmp_of path \<mapsto> data))"
    by (meson aw_more close_ok sync_ok)
  then show ?thesis using assms by (intro aw_more [OF _ backup_ok]) simp_all
qed

text \<open>C26. The guard for a missing file undoes the crash safety of the writer: a crash between the two
  renames of the users file leaves the old users in the backup, and the next start writes an empty
  users document over the missing file and runs without users, although the backup still loads.\<close>

theorem users_lost_after_crash:
  assumes "fs (users_path s) = Some old" and "st_users s0 = []" and "st_dir s0 = st_dir s"
    and "load_file dec_users_file fs (users_path s) zero_users_file = (x, None)"
  shows "\<exists>fs1 fs2. aw_reach (users_path s) data fs (Backed, fs1)
     \<and> load_with_fallback dec_users_file fs1 (users_path s) zero_users_file = (x, Inl True)
     \<and> load_users no_faults mtime s0 fs1 = (fs2, Inr s0)
     \<and> fs2 (users_path s) = Some (marshal_indent (enc_users_file \<lparr>uf_version = 1, uf_users = []\<rparr>))"
proof -
  let ?p = "users_path s"
  let ?empty = "marshal_indent (enc_users_file \<lparr>uf_version = 1, uf_users = []\<rparr>)"
  define fs1 where "fs1 = fs(tmp_of ?p \<mapsto> data, bak_of ?p \<mapsto> old, ?p := None)"
  have p: "users_path s0 = ?p" using assms(3) by (simp add: users_path_def)
  have f1: "fs1 ?p = None" "fs1 (bak_of ?p) = Some old" by (simp_all add: fs1_def)
  have "load_file dec_users_file fs1 (bak_of ?p) zero_users_file = (x, None)"
    by (rule trans [OF load_file_cong assms(4)]) (simp add: assms(1) f1)
  then have "load_with_fallback dec_users_file fs1 ?p zero_users_file = (x, Inl True)"
    using f1 by (simp add: load_with_fallback_def)
  moreover have "users_snapshot s0 = \<lparr>uf_version = 1, uf_users = []\<rparr>"
    using assms(2) by (simp add: users_snapshot_def known_version_def)
  then have "load_users no_faults mtime s0 fs1 = (fs1(tmp_of ?p \<mapsto> ?empty, ?p \<mapsto> ?empty, tmp_of ?p := None), Inr s0)"
    using p f1 by (simp add: load_users_def save_users_def atomic_write_fresh saved_def)
  moreover have "aw_reach ?p data fs (Backed, fs1)"
    unfolding fs1_def by (rule between_renames) (rule assms(1))
  moreover have "(fs1(tmp_of ?p \<mapsto> ?empty, ?p \<mapsto> ?empty, tmp_of ?p := None)) ?p = Some ?empty" by simp
  ultimately show ?thesis by blast
qed

theorem users_lost_after_crash_witness:
  "\<exists>fs1 fs2. load_with_fallback dec_users_file fs1 ''d/users.json'' zero_users_file = (doc1, Inl True)
     \<and> load_users no_faults 0 (empty_store ''d'') fs1 = (fs2, Inr (empty_store ''d''))"
proof -
  let ?fs = "[''d/users.json'' \<mapsto> marshal_indent (enc_users_file doc1)] :: fs"
  have p: "users_path (empty_store ''d'') = ''d/users.json''" by (simp add: users_path_def empty_store_def)
  have "load_file dec_users_file ?fs ''d/users.json'' zero_users_file = (doc1, None)"
    using users_doc.load_written [of doc1 ?fs "''d/users.json''" True] demo_docs by (simp add: marshal_indent_def)
  moreover have "st_users (empty_store ''d'') = []" by (simp add: empty_store_def)
  ultimately show ?thesis
    using users_lost_after_crash [of ?fs "empty_store ''d''" _ "empty_store ''d''" doc1 "[]" 0] p by fastforce
qed

end
