(* ===== verification/Restart.thy ===== *)
theory Restart
  imports Durable
begin

text \<open>
  Restart of the node identity and of the traffic counters, the sorted list of enabled users, and
  the exact effect of adding a user and of accumulating traffic.
\<close>

section \<open>Node identity\<close>

definition node_doc_good :: "store \<Rightarrow> bool" where
  "node_doc_good s \<longleftrightarrow> list_all good_entry (st_nodes s) \<and> fits (snd (node_document s))"

lemma ensure_consistent: "(serves_vless e \<longrightarrow> consistent_pair e) \<Longrightarrow> ensure_reality_keypair rnd e = Inr (False, e)"
  using consistent_kept by (auto simp: ensure_reality_keypair_def serves_vless_def)

lemma ensure_all_consistent:
  "list_all (\<lambda>e. serves_vless e \<longrightarrow> consistent_pair e) es \<Longrightarrow> ensure_all rnd i es = Inr (False, es)"
  by (induction es arbitrary: i) (auto simp: ensure_consistent)

context codec
begin

lemma written_checked:
  assumes "good x" and "fits (print_json ind 0 (enc x))"
    and "atomic_write fl path (print_json ind 0 (enc x)) fs = (fs', True)" and "validate (canon x) = None"
  shows "load_checked dec zero validate fs' path = Inr (canon x, False) \<and> fs' path \<noteq> None"
  using load_after_success [OF assms(1-3)] assms(4)
  by (auto simp: load_checked_def load_with_fallback_def dest: load_file_present split: prod.splits option.splits)

end

lemma multi_node_restart:
  assumes "nodes_ok s" and "st_multi s" and "node_doc_good s" and "save_node fl s fs = (fs', True)"
    and "st_dir s0 = st_dir s"
  shows "load_node en s0 fs' = (fs', Inr (s0\<lparr>st_nodes := st_nodes s, st_token := st_token s, st_multi := True\<rparr>))"
proof -
  let ?doc = "\<lparr>nsf_version = known_version, nsf_token = st_token s, nsf_nodes = st_nodes s\<rparr>"
  have "validate_nodes_file ?doc = None"
    using assms(1) by (simp add: validate_nodes_file_def check_nodes_iff bad_version_def nodes_ok_def)
  moreover have "good_nodes_file ?doc"
    using assms(3) by (simp add: good_nodes_file_def node_doc_good_def known_version_def in_int64_def
        min_int64_def max_int64_def)
  ultimately have "load_checked dec_nodes_file zero_nodes_file validate_nodes_file fs' (nodes_path s) = Inr (?doc, False)
      \<and> fs' (nodes_path s) \<noteq> None"
    using assms(2-4) by (intro nodes_doc.written_checked [where ind = True])
      (simp_all add: save_node_def node_document_def node_doc_good_def marshal_indent_def)
  moreover have "nodes_path s0 = nodes_path s" using assms(5) by (simp add: nodes_path_def)
  moreover have "ensure_all (en_key en) 0 (st_nodes s) = Inr (False, st_nodes s)"
    using assms(1) by (intro ensure_all_consistent) (simp add: nodes_ok_def)
  ultimately show ?thesis by (simp add: load_node_def load_nodes_file_def)
qed

lemma single_node_restart:
  assumes "nodes_ok s" and "\<not> st_multi s" and "node_doc_good s" and "save_node fl s fs = (fs', True)"
    and "st_dir s0 = st_dir s" and "st_nodes s = [e]" and "ne_token e = []" and "fs (nodes_path s) = None"
  shows "load_node en s0 fs' = (fs', Inr (s0\<lparr>st_nodes := st_nodes s, st_token := st_token s, st_multi := False\<rparr>))"
proof -
  let ?doc = "node_file_from_entry e (st_token s)"
  have e: "entry_from_node_file ?doc = e" using assms(7) by (rule entry_node_file_roundtrip)
  have "validate_node ?doc = None"
    using assms(1,6) e unfolding validate_node_iff by (simp add: node_file_from_entry_def nodes_ok_def known_version_def)
  moreover have "good_node_file ?doc"
    using assms(3,6) by (simp add: good_node_file_def node_doc_good_def known_version_def in_int64_def
        min_int64_def max_int64_def node_file_from_entry_def good_entry_def)
  ultimately have l: "load_checked dec_node_file zero_node_file validate_node fs' (node_path s) = Inr (?doc, False)
      \<and> fs' (node_path s) \<noteq> None"
    using assms(2-6) by (intro node_doc.written_checked [where ind = True])
      (simp_all add: save_node_def node_document_def node_doc_good_def marshal_indent_def)
  have p: "node_path s0 = node_path s" "nodes_path s0 = nodes_path s"
    using assms(5) by (simp_all add: node_path_def nodes_path_def)
  have "fs' (nodes_path s) = None"
    using assms(2,4,6,8) atomic_write_frame [of "nodes_path s" "node_path s" fl _ fs]
    by (simp add: save_node_def node_document_def nodes_path_def node_path_def tmp_of_def bak_of_def)
      (metis fst_conv)
  moreover have "ensure_reality_keypair (en_key en 0) e = Inr (False, e)"
    using assms(1,6) by (intro ensure_consistent) (simp add: nodes_ok_def)
  moreover have "auth_token (nf_auth ?doc) = st_token s" by (simp add: node_file_from_entry_def)
  ultimately show ?thesis using l p e assms(6) by (auto simp: load_node_def load_single_node_def)
qed

text \<open>C27. Node identity survives a restart: once the node configuration has been written, a later
  start reads back the same nodes, keys and panel token, draws no new key whatever its randomness,
  and writes nothing. In single-node form there must be no nodes.json.\<close>

theorem node_identity_stable:
  assumes "nodes_ok s" and "node_doc_good s" and "save_node fl s fs = (fs', True)"
    and "st_multi s \<or> (\<exists>e. st_nodes s = [e] \<and> ne_token e = [] \<and> fs (nodes_path s) = None)"
  shows "load_node en (empty_store (st_dir s)) fs'
    = (fs', Inr ((empty_store (st_dir s))\<lparr>st_nodes := st_nodes s, st_token := st_token s, st_multi := st_multi s\<rparr>))"
  using assms multi_node_restart [of s fl fs fs' "empty_store (st_dir s)" en]
    single_node_restart [of s fl fs fs' "empty_store (st_dir s)" _ en]
  by (cases "st_multi s") (auto simp: empty_store_def)

definition hy2_entry :: node_entry where
  "hy2_entry = zero_entry\<lparr>ne_id := 3, ne_type := ''hy2'', ne_enabled := True, ne_server := \<lparr>srv_listen = [], srv_port = 443\<rparr>\<rparr>"

definition hy2_store :: store where
  "hy2_store = (empty_store ''d'')\<lparr>st_nodes := [hy2_entry], st_token := ''t'', st_multi := True\<rparr>"

lemma hy2_store_ok: "nodes_ok hy2_store" "node_doc_good hy2_store"
  by (simp_all add: nodes_ok_def hy2_store_def hy2_entry_def zero_entry_def valid_entry_def known_type_def
      normalize_node_type_def to_lower_constants serves_vless_def node_doc_good_def node_document_def good_entry_def
      good_server_def good_tls_def good_runtime_def zero_tls_def zero_runtime_def zero_protocol_def in_int64_def min_int64_def max_int64_def
      enc_nodes_file_def enc_entry_def enc_server_def enc_protocol_def enc_tls_def enc_runtime_def known_version_def
      print_simps)

theorem node_identity_stable_witness:
  "\<exists>fs' s'. save_node no_faults hy2_store (\<lambda>_. None) = (fs', True)
     \<and> load_node demo_env (empty_store ''d'') fs' = (fs', Inr s') \<and> st_nodes s' = [hy2_entry] \<and> st_token s' = ''t''"
proof -
  obtain fs' where w: "save_node no_faults hy2_store (\<lambda>_. None) = (fs', True)"
    by (cases "node_document hy2_store") (simp add: save_node_def atomic_write_fresh)
  from node_identity_stable [OF hy2_store_ok w] w show ?thesis
    by (simp add: hy2_store_def empty_store_def)
qed

section \<open>Traffic\<close>

abbreviation named :: "int \<times> traffic \<Rightarrow> string \<times> traffic" where
  "named \<equiv> \<lambda>(i, t). (itoa i, t)"

lemma insort_map: "insort_key k (f x) (map f xs) = map f (insort_key (\<lambda>y. k (f y)) x xs)"
  by (induction xs) auto

lemma sort_map: "sort_key k (map f xs) = map f (sort_key (\<lambda>y. k (f y)) xs)"
  by (induction xs) (auto simp: insort_map)

lemma named_keys: "keys (map named tr) = map itoa (keys tr)"
  by auto

lemma wf_named:
  assumes "wf_map tr" and "list_all in_int64 (keys tr)"
  shows "wf_map (map named tr)"
proof -
  have "inj_on itoa (set (keys tr))" using assms(2) itoa_inj_on by (auto simp: inj_on_def list_all_iff)
  then show ?thesis unfolding named_keys using assms(1) distinct_map by blast
qed

lemma snapshot_fold:
  "wf_map (m @ map named tr) \<Longrightarrow> fold (\<lambda>(i, t). mput (itoa i) t) tr m = m @ map named tr"
proof (induction tr arbitrary: m)
  case (Cons p tr)
  obtain i t where p: "p = (i, t)" by (cases p)
  then have "mput (itoa i) t m = m @ [(itoa i, t)]" using Cons.prems by (simp add: mput_new)
  then show ?case using Cons.IH [of "m @ [(itoa i, t)]"] Cons.prems p by simp
qed simp

lemma clamp_id: "0 \<le> sint (upload t) \<Longrightarrow> 0 \<le> sint (download t) \<Longrightarrow> clamp_traffic t = t"
  by (cases t) (simp add: clamp_traffic_def clamp64_def)

lemma normalize_named:
  "clean_traffic tr \<Longrightarrow> list_all in_int64 (keys tr) \<Longrightarrow> set (keys m) \<inter> set (keys tr) = {} \<Longrightarrow>
    fold normalize_entry (map named tr) m = m @ tr"
proof (induction tr arbitrary: m)
  case (Cons p tr)
  obtain i t where p: "p = (i, t)" by (cases p)
  have "normalize_entry (named p) m = m @ [(i, t)]"
    using Cons.prems p by (auto simp: normalize_entry_def clean_traffic_def atoi_itoa clamp_id mput_new)
  moreover have "fold normalize_entry (map named tr) (m @ [(i, t)]) = (m @ [(i, t)]) @ tr"
    using Cons.prems p by (intro Cons.IH) (auto simp: clean_traffic_def)
  ultimately show ?case using p by simp
qed simp

lemma saved_traffic_normalized:
  assumes "clean_traffic tr" and "list_all in_int64 (keys tr)"
  shows "mget (normalize_traffic_file ((traffic_snapshot now tr)\<lparr>tf_users := sorted_entries (tf_users (traffic_snapshot now tr))\<rparr>)) = mget tr"
proof -
  let ?ys = "sort_key (\<lambda>y. fst (named y)) tr"
  have wf: "wf_map tr" using assms(1) by (simp add: clean_traffic_def)
  have "tf_users (traffic_snapshot now tr) = map named tr"
    using snapshot_fold [of "[]" tr] wf_named [OF wf assms(2)] by (simp add: traffic_snapshot_def)
  then have s: "sorted_entries (tf_users (traffic_snapshot now tr)) = map named ?ys"
    by (simp add: sorted_entries_def sort_map)
  have d: "wf_map ?ys" using wf by (simp add: distinct_map)
  then have "clean_traffic ?ys" and "list_all in_int64 (keys ?ys)"
    using assms by (simp_all add: clean_traffic_def list_all_iff)
  then have "fold normalize_entry (map named ?ys) [] = ?ys" using normalize_named [of ?ys "[]"] by simp
  then have "normalize_traffic_file ((traffic_snapshot now tr)\<lparr>tf_users := sorted_entries (tf_users (traffic_snapshot now tr))\<rparr>) = ?ys"
    by (simp add: normalize_traffic_file_def s)
  then show ?thesis using d wf by (simp add: map_of_inject_set)
qed

abbreviation traffic_doc_fits :: "int \<Rightarrow> store \<Rightarrow> bool" where
  "traffic_doc_fits now s \<equiv> in_int64 now \<and> fits (marshal (enc_traffic_file (traffic_snapshot now (st_traffic s))))"

lemma saved_traffic_restart:
  assumes "clean_traffic (st_traffic s)" and "list_all in_int64 (keys (st_traffic s))" and "traffic_doc_fits now s"
    and "save_traffic fl now s fs = (fs', True)" and "st_dir s0 = st_dir s"
  shows "\<exists>s1. load_traffic fl' now' s0 fs' = (s1, fs') \<and> mget (st_traffic s1) = mget (st_traffic s)"
proof -
  let ?tf = "traffic_snapshot now (st_traffic s)"
  have "wf_map (map named (st_traffic s))" using assms(1,2) by (intro wf_named) (simp_all add: clean_traffic_def)
  then have "wf_map (tf_users ?tf)"
    using snapshot_fold [of "[]" "st_traffic s"] by (simp add: traffic_snapshot_def)
  then have "good_traffic_file ?tf"
    using assms(3) by (simp add: good_traffic_file_def traffic_snapshot_def known_version_def in_int64_def
        min_int64_def max_int64_def)
  moreover have "validate_traffic_file (?tf\<lparr>tf_users := sorted_entries (tf_users ?tf)\<rparr>) = None"
    by (simp add: validate_traffic_file_def bad_version_def traffic_snapshot_def)
  ultimately have "load_checked dec_traffic_file zero_traffic_file validate_traffic_file fs' (traffic_path s)
      = Inr (?tf\<lparr>tf_users := sorted_entries (tf_users ?tf)\<rparr>, False) \<and> fs' (traffic_path s) \<noteq> None"
    using assms(3,4) by (intro traffic_doc.written_checked [where ind = False])
      (simp_all add: save_traffic_def marshal_def)
  moreover have "traffic_path s0 = traffic_path s" using assms(5) by (simp add: traffic_path_def)
  ultimately show ?thesis using saved_traffic_normalized [OF assms(1,2), of now]
    by (auto simp: load_traffic_def)
qed

lemma enabled_users_facts:
  assumes "store_ok s"
  shows "sorted_wrt (<) (map xu_id (enabled_users s))
    \<and> set (enabled_users s) = {u. mget (st_users s) (xu_id u) = Some u \<and> xu_enabled u}"
proof -
  have ok: "users_ok (st_users s)" using assms by (simp add: store_ok_def)
  have "distinct (map xu_id (map snd (st_users s)))"
    unfolding users_ok_ids [OF ok] using ok by (simp add: users_ok_def)
  then have "distinct (map xu_id (enabled_users s))"
    unfolding enabled_users_def by (metis distinct_map distinct_map_filter distinct_sort set_sort)
  moreover have "sorted (map xu_id (enabled_users s))" by (simp add: enabled_users_def)
  moreover have "u \<in> snd ` set (st_users s) \<longleftrightarrow> mget (st_users s) (xu_id u) = Some u" for u
  proof
    assume "u \<in> snd ` set (st_users s)"
    then obtain i where "(i, u) \<in> set (st_users s)" by auto
    with users_ok_entry [OF ok this] ok show "mget (st_users s) (xu_id u) = Some u"
      by (auto simp: users_ok_def intro: in_mget)
  qed (force dest: mget_Some_in)
  ultimately show ?thesis by (auto simp: strict_sorted_iff enabled_users_def)
qed

text \<open>Traffic counters survive a restart: after a flush that reports success, loading the traffic
  file gives every user the counters that were in memory.\<close>

theorem traffic_restart:
  assumes "clean_traffic (st_traffic s)" and "list_all in_int64 (keys (st_traffic s))" and "traffic_doc_fits now s"
    and "save_traffic fl now s fs = (fs', True)" and "st_dir s0 = st_dir s"
  shows "\<exists>s1. load_traffic fl' now' s0 fs' = (s1, fs') \<and> mget (st_traffic s1) = mget (st_traffic s)"
  by (rule saved_traffic_restart [OF assms])

definition traffic_store :: store where
  "traffic_store = demo_store\<lparr>st_traffic := [(1, \<lparr>upload = 5, download = 7\<rparr>)]\<rparr>"

lemma demo_traffic_good:
  "clean_traffic (st_traffic traffic_store)" "list_all in_int64 (keys (st_traffic traffic_store))"
  "traffic_doc_fits 9 traffic_store"
  by (simp_all add: clean_traffic_def traffic_store_def demo_store_def empty_store_def in_int64_def min_int64_def
      max_int64_def traffic_snapshot_def enc_traffic_file_def enc_traffic_def sorted_entries_def known_version_def
      print_simps)

theorem traffic_restart_witness:
  "\<exists>fs' s1. save_traffic no_faults 9 traffic_store (\<lambda>_. None) = (fs', True)
     \<and> load_traffic no_faults 10 (empty_store ''d'') fs' = (s1, fs')
     \<and> mget (st_traffic s1) 1 = Some \<lparr>upload = 5, download = 7\<rparr>"
proof -
  obtain fs' where w: "save_traffic no_faults 9 traffic_store (\<lambda>_. None) = (fs', True)"
    by (simp add: save_traffic_def atomic_write_fresh)
  have d: "st_dir (empty_store ''d'') = st_dir traffic_store"
    by (simp add: traffic_store_def demo_store_def empty_store_def)
  from traffic_restart [OF demo_traffic_good w d] w show ?thesis by (fastforce simp: traffic_store_def)
qed

section \<open>Exact effects\<close>

text \<open>The list served to agents holds exactly the enabled users, each once, in increasing order of
  their ids.\<close>

theorem enabled_users_spec:
  assumes "store_ok s"
  shows "sorted_wrt (<) (map xu_id (enabled_users s))
    \<and> set (enabled_users s) = {u. mget (st_users s) (xu_id u) = Some u \<and> xu_enabled u}"
  by (rule enabled_users_facts [OF assms])

theorem enabled_users_spec_witness:
  "set (enabled_users demo_store) = {}"
  using enabled_users_spec [OF demo_store_ok]
  by (auto simp: demo_store_def empty_store_def zero_xuser_def split: if_splits)

text \<open>Adding a user, on every branch: an invalid user, an id in use and a full store are refused
  without effect; otherwise the user is in the store, nobody else changes, and the result of the
  write is reported.\<close>

theorem add_user_branches:
  "add_user fl u s fs =
     (case validate_user u of Some e \<Rightarrow> (s, fs, Some e)
      | None \<Rightarrow> if xu_id u \<in> set (keys (st_users s)) then (s, fs, Some (UserExists (xu_id u)))
        else if 1000 \<le> length (st_users s) then (s, fs, Some UserLimitReached)
        else (let s' = s\<lparr>st_users := st_users s @ [(xu_id u, u)]\<rparr>; r = save_users fl s' fs
              in (s', fst r, if snd r then None else Some SaveFailed)))"
  by (auto simp: add_user_def mget_None_iff mput_new max_users_def persisted_def Let_def split: option.split prod.split)

lemma sint_plus_nonneg:
  assumes "0 \<le> sint (a :: int64)" and "0 \<le> sint b" and "sint a + sint b \<le> max_int64"
  shows "sint (a + b) = sint a + sint b"
  using assms sint_of_int64 [of "sint a + sint b"]
  by (simp add: in_int64_def min_int64_def)

definition traffic_of :: "store \<Rightarrow> int \<Rightarrow> traffic" where
  "traffic_of s i = (case mget (st_traffic s) i of None \<Rightarrow> zero_traffic | Some t \<Rightarrow> t)"

lemma accumulate_result:
  assumes "uid \<in> set (keys (st_users s))" and "0 \<le> sint up" and "0 \<le> sint down"
  shows "accumulate uid up down s = (s\<lparr>st_traffic := mput uid
      \<lparr>upload = upload (traffic_of s uid) + up, download = download (traffic_of s uid) + down\<rparr> (st_traffic s),
      st_dirty := True\<rparr>, True)"
  using assms by (simp add: accumulate_def traffic_of_def mget_None_iff Let_def)

lemma accumulate_refused:
  "uid \<notin> set (keys (st_users s)) \<or> sint up < 0 \<or> sint down < 0 \<Longrightarrow> accumulate uid up down s = (s, False)"
  by (auto simp: accumulate_def dest: mget_Some_key)

text \<open>Accumulating traffic: a negative amount or an unknown user is refused without effect; a
  known user's counters grow by exactly the amounts as long as they stay in the 64-bit range, no
  other user's counters change, and the store is marked for the next flush.\<close>

theorem accumulate_exact:
  assumes "0 \<le> sint (upload (traffic_of s uid))" and "0 \<le> sint (download (traffic_of s uid))"
    and "sint (upload (traffic_of s uid)) + sint up \<le> max_int64"
    and "sint (download (traffic_of s uid)) + sint down \<le> max_int64"
    and "accumulate uid up down s = (s', ok)"
  shows "(ok \<longleftrightarrow> uid \<in> set (keys (st_users s)) \<and> 0 \<le> sint up \<and> 0 \<le> sint down)
    \<and> (\<not> ok \<longrightarrow> s' = s)
    \<and> (ok \<longrightarrow> sint (upload (traffic_of s' uid)) = sint (upload (traffic_of s uid)) + sint up
        \<and> sint (download (traffic_of s' uid)) = sint (download (traffic_of s uid)) + sint down
        \<and> st_users s' = st_users s \<and> st_dirty s' \<and> (\<forall>i. i \<noteq> uid \<longrightarrow> traffic_of s' i = traffic_of s i))"
proof (cases "uid \<in> set (keys (st_users s)) \<and> 0 \<le> sint up \<and> 0 \<le> sint down")
  case True
  then have "sint (upload (traffic_of s uid) + up) = sint (upload (traffic_of s uid)) + sint up"
    and "sint (download (traffic_of s uid) + down) = sint (download (traffic_of s uid)) + sint down"
    using assms by (auto intro!: sint_plus_nonneg)
  moreover have "i \<noteq> uid \<Longrightarrow> traffic_of s' i = traffic_of s i" for i
    using True assms(5) by (auto simp: accumulate_result traffic_of_def mget_mput)
  ultimately show ?thesis using True assms(5)
    by (auto simp: accumulate_result traffic_of_def [of s'] mget_mput)
next
  case False
  then have "accumulate uid up down s = (s, False)" by (intro accumulate_refused) auto
  with False assms(5) show ?thesis by auto
qed

theorem accumulate_exact_witness:
  "\<exists>s'. accumulate 1 3 4 traffic_store = (s', True) \<and> sint (upload (traffic_of s' 1)) = 8"
proof -
  have t: "traffic_of traffic_store 1 = \<lparr>upload = 5, download = 7\<rparr>"
    by (simp add: traffic_of_def traffic_store_def)
  obtain s' where a: "accumulate 1 3 4 traffic_store = (s', True)"
    by (simp add: accumulate_def traffic_store_def demo_store_def)
  have "sint (upload (traffic_of s' 1)) = sint (upload (traffic_of traffic_store 1)) + sint (3 :: int64)"
    using accumulate_exact [OF _ _ _ _ a] t by (simp add: max_int64_def)
  with a t show ?thesis by auto
qed

end
