(* ===== verification/Flusher.thy ===== *)
theory Flusher
  imports Restart
begin

text \<open>
  The traffic flush of \<^verbatim>\<open>tiny-xboard\<close>: \<^verbatim>\<open>flushTrafficIfDirty\<close> as a function,
  the period of its ticker, and the protocol between flushes and pushes. Within a flush the flag is claimed, the
  counters are copied and the file is written in three separate steps, and \<^verbatim>\<open>Accumulate\<close> changes
  the counters and sets the flag in two; the ticker's flush and the last one of \<^verbatim>\<open>serve\<close> run
  beside each other. \<open>flush_step\<close> interleaves all these steps freely.
\<close>

section \<open>The flush as a function\<close>

definition flush_traffic_if_dirty :: "faults \<Rightarrow> int \<Rightarrow> store \<Rightarrow> fs \<Rightarrow> store \<times> fs" where
  "flush_traffic_if_dirty fl now s fs =
     (if \<not> st_dirty s then (s, fs)
      else let s1 = s\<lparr>st_dirty := False\<rparr> in
        (case save_traffic fl now s1 fs of (fs', ok) \<Rightarrow> (if ok then s1 else s1\<lparr>st_dirty := True\<rparr>, fs')))"

text \<open>The ticker's period in nanoseconds, a 64-bit \<^verbatim>\<open>time.Duration\<close> whose
  multiplication can wrap.\<close>

definition second :: int where "second = 1000000000"

definition flusher_period :: "store \<Rightarrow> int" where
  "flusher_period s = (let d = sint (word_of_int (runtime_flush_interval s * second) :: int64) in
     if d \<le> 0 then default_traffic_flush_interval * second else d)"

lemma flush_interval_pos: "0 < flush_interval es"
  by (induction es) (auto simp: default_traffic_flush_interval_def)

lemma flush_interval_find:
  "flush_interval es = (case find (\<lambda>e. 0 < rt_traffic_flush_interval (ne_runtime e)) es of
     Some e \<Rightarrow> rt_traffic_flush_interval (ne_runtime e) | None \<Rightarrow> 300)"
  by (induction es) (auto simp: default_traffic_flush_interval_def)

text \<open>The flusher always ticks with a positive period, and the period is the first positive
  interval among the nodes, else 300 seconds, as long as it can be expressed in nanoseconds.\<close>

theorem flusher_period_spec:
  assumes "runtime_flush_interval s \<le> 9223372036"
  shows "0 < flusher_period s \<and> flusher_period s = 1000000000 *
    (case find (\<lambda>e. 0 < rt_traffic_flush_interval (ne_runtime e)) (st_nodes s) of
       Some e \<Rightarrow> rt_traffic_flush_interval (ne_runtime e) | None \<Rightarrow> 300)"
proof -
  have "0 < runtime_flush_interval s" using flush_interval_pos by (simp add: runtime_flush_interval_def)
  with assms have "sint (word_of_int (runtime_flush_interval s * second) :: int64) = runtime_flush_interval s * second"
    by (intro sint_of_int64) (simp add: in_int64_def min_int64_def max_int64_def second_def)
  with \<open>0 < runtime_flush_interval s\<close> have "flusher_period s = runtime_flush_interval s * second"
    by (simp add: flusher_period_def second_def)
  with \<open>0 < runtime_flush_interval s\<close> show ?thesis
    by (simp add: runtime_flush_interval_def second_def flush_interval_find)
qed

theorem flusher_period_spec_witness: "flusher_period hy2_store = 300000000000"
proof -
  have z: "rt_traffic_flush_interval (ne_runtime hy2_entry) = 0"
    by (simp add: hy2_entry_def zero_entry_def zero_runtime_def)
  then have "runtime_flush_interval hy2_store \<le> 9223372036"
    by (simp add: runtime_flush_interval_def hy2_store_def default_traffic_flush_interval_def)
  from flusher_period_spec [OF this] z show ?thesis by (simp add: hy2_store_def)
qed

section \<open>Interleaving\<close>

text \<open>The goroutines that flush: the ticker's and, at the end, the one of \<^verbatim>\<open>serve\<close>. The lock
  \<^verbatim>\<open>saveMu\<close> is held from the copy of the counters until the file is written.\<close>

datatype flusher = Ticker | Final

datatype flush_pc = FlushIdle | FlushClaimed | FlushCopied "(int, traffic) gomap" | FlushFailed

record flush_state =
  f_store :: store
  f_marks :: nat \<comment> \<open>calls of Accumulate between the change of the counters and the flag\<close>
  f_pc :: "flusher \<Rightarrow> flush_pc"
  f_disk :: "(int, traffic) gomap" \<comment> \<open>the counters in the traffic file\<close>

definition save_mu_free :: "flush_state \<Rightarrow> bool" where
  "save_mu_free x \<longleftrightarrow> (\<forall>k tr. f_pc x k \<noteq> FlushCopied tr)"

inductive flush_step :: "flush_state \<Rightarrow> flush_state \<Rightarrow> bool" where
  acc_counters: "accumulate uid up down (f_store x) = (s', True) \<Longrightarrow>
    flush_step x (x\<lparr>f_store := s'\<lparr>st_dirty := st_dirty (f_store x)\<rparr>, f_marks := Suc (f_marks x)\<rparr>)"
| acc_flag: "f_marks x = Suc n \<Longrightarrow> flush_step x (x\<lparr>f_store := (f_store x)\<lparr>st_dirty := True\<rparr>, f_marks := n\<rparr>)"
| forget: "flush_step x (x\<lparr>f_store := (f_store x)\<lparr>st_traffic := filter P (st_traffic (f_store x))\<rparr>\<rparr>)"
| claim: "f_pc x k = FlushIdle \<Longrightarrow> st_dirty (f_store x) \<Longrightarrow>
    flush_step x (x\<lparr>f_store := (f_store x)\<lparr>st_dirty := False\<rparr>, f_pc := (f_pc x)(k := FlushClaimed)\<rparr>)"
| copy: "f_pc x k = FlushClaimed \<Longrightarrow> save_mu_free x \<Longrightarrow>
    flush_step x (x\<lparr>f_pc := (f_pc x)(k := FlushCopied (snapshot_traffic (f_store x)))\<rparr>)"
| written: "f_pc x k = FlushCopied tr \<Longrightarrow> flush_step x (x\<lparr>f_pc := (f_pc x)(k := FlushIdle), f_disk := tr\<rparr>)"
| failed: "f_pc x k = FlushCopied tr \<Longrightarrow> flush_step x (x\<lparr>f_pc := (f_pc x)(k := FlushFailed), f_disk := d\<rparr>)"
| remark: "f_pc x k = FlushFailed \<Longrightarrow>
    flush_step x (x\<lparr>f_store := (f_store x)\<lparr>st_dirty := True\<rparr>, f_pc := (f_pc x)(k := FlushIdle)\<rparr>)"

inductive_cases flush_stepE: "flush_step x y"

inductive flush_reach :: "flush_state \<Rightarrow> flush_state \<Rightarrow> bool" for x0 where
  flush_refl: "flush_reach x0 x0"
| flush_more: "flush_reach x0 x \<Longrightarrow> flush_step x y \<Longrightarrow> flush_reach x0 y"

definition on_disk :: "(int, traffic) gomap \<Rightarrow> (int, traffic) gomap \<Rightarrow> bool" where
  "on_disk tr d \<longleftrightarrow> list_all (\<lambda>(i, t). mget d i = Some t) tr"

text \<open>Nobody owes the disk anything: the flag is clear, no accumulation is about to set it, and no flush has
  claimed it without having copied the counters.\<close>

definition settled_marks :: "flush_state \<Rightarrow> bool" where
  "settled_marks x \<longleftrightarrow> f_marks x = 0 \<and> \<not> st_dirty (f_store x) \<and> (\<forall>k. f_pc x k \<noteq> FlushClaimed \<and> f_pc x k \<noteq> FlushFailed)"

definition flush_inv :: "flush_state \<Rightarrow> bool" where
  "flush_inv x \<longleftrightarrow> wf_map (st_traffic (f_store x))
     \<and> (\<forall>k k' tr tr'. f_pc x k = FlushCopied tr \<longrightarrow> f_pc x k' = FlushCopied tr' \<longrightarrow> k = k')
     \<and> (settled_marks x \<longrightarrow> (\<forall>k tr. f_pc x k = FlushCopied tr \<longrightarrow> on_disk (st_traffic (f_store x)) tr)
         \<and> (save_mu_free x \<longrightarrow> on_disk (st_traffic (f_store x)) (f_disk x)))"

lemma on_disk_self: "wf_map tr \<Longrightarrow> on_disk tr tr"
  by (auto simp: on_disk_def list_all_iff intro: in_mget)

lemma on_disk_filter: "on_disk tr d \<Longrightarrow> on_disk (filter P tr) d"
  by (auto simp: on_disk_def list_all_iff)

lemma accumulate_wf: "accumulate uid up down s = (s', b) \<Longrightarrow> wf_map (st_traffic s) \<Longrightarrow> wf_map (st_traffic s')"
  by (auto simp: accumulate_def Let_def split: if_splits)

lemma flush_step_inv: "flush_step x y \<Longrightarrow> flush_inv x \<Longrightarrow> flush_inv y"
proof (induction rule: flush_step.induct)
  case (copy x k)
  then show ?case by (auto simp: flush_inv_def settled_marks_def save_mu_free_def snapshot_traffic_def on_disk_self)
next
  case (written x k tr)
  let ?y = "x\<lparr>f_pc := (f_pc x)(k := FlushIdle), f_disk := tr\<rparr>"
  have o: "f_pc x k' \<noteq> FlushCopied tr'" if "k' \<noteq> k" for k' tr' using written that by (auto simp: flush_inv_def)
  have "settled_marks x" if y: "settled_marks ?y"
  proof -
    have "f_pc x k' \<noteq> FlushClaimed \<and> f_pc x k' \<noteq> FlushFailed" for k'
      using written(1) y by (cases "k' = k") (auto simp: settled_marks_def split: if_splits)
    then show ?thesis using y by (simp add: settled_marks_def)
  qed
  then show ?case using written o by (auto simp: flush_inv_def split: if_splits)
next
  case (failed x k tr d)
  have "f_pc x k' \<noteq> FlushCopied tr'" if "k' \<noteq> k" for k' tr' using failed that by (auto simp: flush_inv_def)
  then show ?case using failed by (auto simp: flush_inv_def settled_marks_def split: if_splits)
qed (auto simp: flush_inv_def settled_marks_def save_mu_free_def on_disk_self on_disk_filter accumulate_wf split: if_splits)

lemma flush_reach_inv: "flush_reach x0 x \<Longrightarrow> flush_inv x0 \<Longrightarrow> flush_inv x"
  by (induction rule: flush_reach.induct) (auto intro: flush_step_inv)

text \<open>C8. No accumulated traffic is forgotten by the flush protocol: however pushes, the ticker's flushes and the
  final one interleave, when no flush is under way, the flag is clear and every accumulation has set it, each
  counter in memory is the one in the file. (While a flush has claimed the flag and not yet written, the
  flag is clear although the file is behind.)\<close>

theorem flush_loses_nothing:
  assumes "flush_reach x0 x" and "wf_map (st_traffic (f_store x0))" and "on_disk (st_traffic (f_store x0)) (f_disk x0)"
    and "\<forall>k. f_pc x0 k = FlushIdle" and "\<forall>k. f_pc x k = FlushIdle" and "f_marks x = 0" and "\<not> st_dirty (f_store x)"
    and "mget (st_traffic (f_store x)) i = Some t"
  shows "mget (f_disk x) i = Some t"
proof -
  have "flush_inv x0" using assms(2-4) by (simp add: flush_inv_def)
  then have "on_disk (st_traffic (f_store x)) (f_disk x)"
    using flush_reach_inv [OF assms(1)] assms(5-7) by (simp add: flush_inv_def settled_marks_def save_mu_free_def)
  then show ?thesis using assms(8) by (auto simp: on_disk_def list_all_iff dest: mget_Some_in)
qed

definition flush_start :: flush_state where
  "flush_start = \<lparr>f_store = demo_store, f_marks = 0, f_pc = (\<lambda>_. FlushIdle), f_disk = []\<rparr>"

definition counted :: "bool \<Rightarrow> store" where
  "counted d = demo_store\<lparr>st_traffic := [(1, \<lparr>upload = 3, download = 4\<rparr>)], st_dirty := d\<rparr>"

lemma demo_counted: "accumulate 1 3 4 demo_store = (counted True, True)"
  by (simp add: accumulate_def counted_def demo_store_def empty_store_def zero_traffic_def)

lemma demo_claimed:
  "flush_reach flush_start \<lparr>f_store = counted False, f_marks = 0, f_pc = (\<lambda>_. FlushIdle)(Ticker := FlushClaimed), f_disk = []\<rparr>"
proof -
  let ?c = "\<lambda>d n p. \<lparr>f_store = counted d, f_marks = n, f_pc = p, f_disk = []\<rparr>"
  have d: "\<not> st_dirty demo_store" "st_traffic demo_store = []" by (simp_all add: demo_store_def empty_store_def)
  have 1: "flush_step flush_start (?c False 1 (\<lambda>_. FlushIdle))"
    using acc_counters [of 1 3 4 flush_start "counted True"] d demo_counted by (simp add: flush_start_def counted_def)
  have 2: "flush_step (?c False 1 (\<lambda>_. FlushIdle)) (?c True 0 (\<lambda>_. FlushIdle))"
    using acc_flag [of "?c False 1 (\<lambda>_. FlushIdle)" 0] by (simp add: counted_def)
  have 3: "flush_step (?c True 0 (\<lambda>_. FlushIdle)) (?c False 0 ((\<lambda>_. FlushIdle)(Ticker := FlushClaimed)))"
    using claim [of "?c True 0 (\<lambda>_. FlushIdle)" Ticker] by (simp add: counted_def)
  show ?thesis by (rule flush_more [OF flush_more [OF flush_more [OF flush_refl 1] 2] 3])
qed

theorem flush_loses_nothing_witness:
  "\<exists>x. flush_reach flush_start x \<and> mget (f_disk x) 1 = Some \<lparr>upload = 3, download = 4\<rparr>"
proof -
  let ?c = "\<lambda>p d. \<lparr>f_store = counted False, f_marks = 0, f_pc = (\<lambda>_. FlushIdle)(Ticker := p), f_disk = d\<rparr>"
  let ?tr = "st_traffic (counted False)"
  have "flush_step (?c FlushClaimed []) (?c (FlushCopied ?tr) [])"
    using copy [of "?c FlushClaimed []" Ticker] by (simp add: snapshot_traffic_def save_mu_free_def)
  moreover have "flush_step (?c (FlushCopied ?tr) []) (?c FlushIdle ?tr)"
    using written [of "?c (FlushCopied ?tr) []" Ticker] by simp
  ultimately have r: "flush_reach flush_start (?c FlushIdle ?tr)" using demo_claimed by (blast intro: flush_more)
  have "mget (f_disk (?c FlushIdle ?tr)) 1 = Some \<lparr>upload = 3, download = 4\<rparr>"
    by (rule flush_loses_nothing [OF r]) (simp_all add: flush_start_def counted_def demo_store_def empty_store_def on_disk_def)
  with r show ?thesis by blast
qed

section \<open>One flush\<close>

text \<open>A flush that finds the flag set and whose write succeeds clears the flag and leaves a file
  from which a restart reads exactly the counters in memory; a flush whose write fails keeps the
  counters and sets the flag again, so that the next tick retries.\<close>

theorem flush_persists:
  assumes "st_dirty s" and "clean_traffic (st_traffic s)" and "list_all in_int64 (keys (st_traffic s))"
    and "traffic_doc_fits now s" and "flush_traffic_if_dirty fl now s fs = (s', fs')"
  shows "st_traffic s' = st_traffic s \<and>
    (st_dirty s' \<or> (\<exists>s1. load_traffic fl' now' (empty_store (st_dir s)) fs' = (s1, fs')
       \<and> mget (st_traffic s1) = mget (st_traffic s)))"
proof -
  let ?s1 = "s\<lparr>st_dirty := False\<rparr>"
  obtain ok where sv: "save_traffic fl now ?s1 fs = (fs', ok)" and s': "s' = ?s1\<lparr>st_dirty := \<not> ok\<rparr>"
    using assms(1,5) by (auto simp: flush_traffic_if_dirty_def Let_def split: prod.splits if_splits)
  show ?thesis
  proof (cases ok)
    case True
    then have "save_traffic fl now ?s1 fs = (fs', True)" using sv by simp
    from saved_traffic_restart [OF _ _ _ this, of "empty_store (st_dir s)" fl' now'] assms(2-4) s'
    show ?thesis by (simp add: empty_store_def)
  qed (simp add: s')
qed

theorem flush_persists_witness:
  "\<exists>s' fs'. flush_traffic_if_dirty no_faults 9 (traffic_store\<lparr>st_dirty := True\<rparr>) (\<lambda>_. None) = (s', fs')
     \<and> st_traffic s' = [(1, \<lparr>upload = 5, download = 7\<rparr>)]"
proof -
  let ?s = "traffic_store\<lparr>st_dirty := True\<rparr>"
  obtain s' fs' where w: "flush_traffic_if_dirty no_faults 9 ?s (\<lambda>_. None) = (s', fs')" by fastforce
  have "st_traffic s' = st_traffic ?s"
    using flush_persists [OF _ _ _ _ w] demo_traffic_good by simp
  with w show ?thesis by (simp add: traffic_store_def)
qed

end
