(* ===== verification/Api.thy ===== *)
theory Api
  imports Flusher "HOL-Library.Multiset"
begin

text \<open>
  The HTTP interface of \<^verbatim>\<open>tiny-xboard\<close> (\<^verbatim>\<open>auth.go\<close>, \<^verbatim>\<open>api.go\<close>): a handler takes a
  request and the state of the store and returns the new state with the response. The query is the
  function that \<^verbatim>\<open>Query().Get\<close> computes, empty for an absent key. What
  \<^verbatim>\<open>MaxBytesReader\<close> lets the decoder see is part of the request: \<open>BodyTooLarge\<close> when
  the limit is met before the first JSON value is complete.
\<close>

section \<open>Requests and responses\<close>

datatype push_body = BodyRead string | BodyTooLarge

record request =
  rq_method :: string
  rq_query :: "string \<Rightarrow> string"
  rq_body :: push_body

record response =
  rs_status :: nat
  rs_allow :: "string option"
  rs_body :: json

definition max_push_body_size :: nat where "max_push_body_size = 256 * 1024"
definition max_concurrent_body_reads :: nat where "max_concurrent_body_reads = 8"

definition write_json :: "nat \<Rightarrow> json \<Rightarrow> response" where
  "write_json status v = \<lparr>rs_status = status, rs_allow = None, rs_body = v\<rparr>"

definition message :: "string \<Rightarrow> json" where
  "message m = JObj [(''message'', JStr m)]"

definition write_method_not_allowed :: "string \<Rightarrow> response" where
  "write_method_not_allowed allow = (write_json 405 (message ''method not allowed''))\<lparr>rs_allow := Some allow\<rparr>"

section \<open>auth.go\<close>

definition match_node_type :: "string \<Rightarrow> string \<Rightarrow> bool" where
  "match_node_type cfg_type requested = (let cfg = normalize_node_type cfg_type in
     if cfg = ''both'' then True else cfg = normalize_node_type requested)"

definition no_server :: response where
  "no_server = write_json 404 (message ''Server does not exist'')"

definition authenticate :: "store \<Rightarrow> request \<Rightarrow> response + node_entry" where
  "authenticate s r = (case atoi (rq_query r ''node_id'') of None \<Rightarrow> Inl no_server
     | Some i \<Rightarrow> if i \<le> 0 then Inl no_server
       else let snap = node_snapshot_of s i in
         if \<not> snap_found snap \<or> \<not> snap_enabled snap then Inl no_server
         else if \<not> valid_token s (rq_query r ''token'') i then Inl (write_json 401 (message ''invalid token''))
         else if \<not> match_node_type (snap_type snap) (rq_query r ''node_type'') then Inl no_server
         else Inr (fst (lookup_node s i)))"

section \<open>api.go\<close>

definition handle_user :: "faults \<Rightarrow> int \<Rightarrow> store \<Rightarrow> fs \<Rightarrow> request \<Rightarrow> store \<times> fs \<times> response" where
  "handle_user fl mtime s fs r =
     (if rq_method r \<noteq> ''GET'' then (s, fs, write_method_not_allowed ''GET'')
      else case authenticate s r of Inl resp \<Rightarrow> (s, fs, resp)
      | Inr _ \<Rightarrow> (case refresh_users fl mtime s fs of (s', fs', _) \<Rightarrow>
          (s', fs', write_json 200 (JObj [(''users'', JArr (map enc_xuser (enabled_users s')))]))))"

definition put_nonempty :: "string \<Rightarrow> string \<Rightarrow> (string, json) gomap \<Rightarrow> (string, json) gomap" where
  "put_nonempty k v m = (if v \<noteq> [] then mput k (JStr v) m else m)"

text \<open>Marshal writes a map in the order of its keys.\<close>

definition jmap :: "(string, json) gomap \<Rightarrow> json" where
  "jmap m = JObj (sorted_entries m)"

definition put_settings :: "(string, json) gomap \<Rightarrow> (string, json) gomap \<Rightarrow> (string, json) gomap" where
  "put_settings ts out = (if ts \<noteq> [] then mput ''tls_settings'' (jmap ts) out else out)"

definition vless_tls_settings :: "tls_cfg \<Rightarrow> (string, json) gomap" where
  "vless_tls_settings t =
     (let ts = put_nonempty ''server_name'' (tls_server_name t) [];
          ts = (if 0 < tls_server_port t then mput ''server_port'' (JStr (itoa (tls_server_port t))) ts else ts);
          ts = put_nonempty ''public_key'' (tls_public_key t) ts;
          ts = put_nonempty ''private_key'' (tls_private_key t) ts;
          ts = put_nonempty ''short_id'' (tls_short_id t) ts
      in if tls_allow_insecure t then mput ''allow_insecure'' (JBool True) ts else ts)"

definition config_members :: "node_entry \<Rightarrow> (string, json) gomap" where
  "config_members e =
     (let port = (if srv_port (ne_server e) \<le> 0 then 443 else srv_port (ne_server e));
          typ = normalize_node_type (ne_type e); t = ne_tls e;
          out = (if typ = ''vless'' then
            (let out = mput ''protocol'' (JStr ''vless'') [];
                 out = mput ''listen_ip'' (JStr (srv_listen (ne_server e))) out;
                 out = mput ''server_port'' (enc_int port) out;
                 out = mput ''network'' (JStr (first_non_empty [proto_network (ne_protocol e), ''tcp''])) out;
                 out = put_nonempty ''flow'' (proto_flow (ne_protocol e)) out;
                 out = put_nonempty ''decryption'' (proto_decryption (ne_protocol e)) out;
                 out = mput ''tls'' (enc_int (if tls_enabled t then 2 else 0)) out
             in put_settings (vless_tls_settings t) out)
          else if typ = ''hy2'' then
            (let out = mput ''protocol'' (JStr ''hysteria'') [];
                 out = mput ''version'' (enc_int 2) out;
                 out = mput ''server_port'' (enc_int port) out;
                 out = mput ''listen_ip'' (JStr (srv_listen (ne_server e))) out;
                 out = put_nonempty ''server_name'' (tls_server_name t) out;
                 ts = put_nonempty ''server_name'' (tls_server_name t) [];
                 ts = (if tls_allow_insecure t then mput ''allow_insecure'' (JBool True) ts else ts)
             in put_settings ts out)
          else []);
          sync = (if rt_sync_interval (ne_runtime e) \<le> 0 then default_sync_interval else rt_sync_interval (ne_runtime e))
      in mput ''base_config'' (jmap [(''push_interval'', enc_int sync), (''pull_interval'', enc_int sync)]) out)"

definition node_config_response :: "node_entry \<Rightarrow> json" where
  "node_config_response e = jmap (config_members e)"

definition handle_config :: "store \<Rightarrow> request \<Rightarrow> response" where
  "handle_config s r = (if rq_method r \<noteq> ''GET'' then write_method_not_allowed ''GET''
     else case authenticate s r of Inl resp \<Rightarrow> resp
     | Inr e \<Rightarrow> write_json 200 (node_config_response e))"

subsection \<open>Push\<close>

record push_entry =
  pe_uid :: int
  pe_up :: int64
  pe_down :: int64

definition zero_push_entry :: push_entry where
  "zero_push_entry = \<lparr>pe_uid = 0, pe_up = 0, pe_down = 0\<rparr>"

definition push_entry_fields :: "push_entry field list" where
  "push_entry_fields = [(''uid'', field_of dec_int pe_uid (\<lambda>x. pe_uid_update (\<lambda>_. x))),
     (''up'', field_of dec_int64 pe_up (\<lambda>x. pe_up_update (\<lambda>_. x))),
     (''down'', field_of dec_int64 pe_down (\<lambda>x. pe_down_update (\<lambda>_. x)))]"

definition dec_raw :: "json decoder" where "dec_raw j v = (j, False)"

text \<open>An array of two takes the first two elements and clears what the JSON array does not reach.\<close>

definition dec_pair :: "(int64 \<times> int64) decoder" where
  "dec_pair j v = (case j of JNull \<Rightarrow> (v, False)
     | JArr js \<Rightarrow> (case js of [] \<Rightarrow> ((0, 0), False)
         | [a] \<Rightarrow> (let (x, e) = dec_int64 a (fst v) in ((x, 0), e))
         | a # b # _ \<Rightarrow> (let (x, e) = dec_int64 a (fst v); (y, e') = dec_int64 b (snd v) in ((x, y), e \<or> e')))
     | _ \<Rightarrow> (v, True))"

definition dec_push :: "string \<Rightarrow> (string, json) gomap \<times> bool" where
  "dec_push body = (case decode_prefix body of None \<Rightarrow> ([], True) | Some j \<Rightarrow> dec_map JNull dec_raw j [])"

definition push_one :: "int \<Rightarrow> int64 \<Rightarrow> int64 \<Rightarrow> store \<times> nat \<Rightarrow> store \<times> nat" where
  "push_one uid up down = (\<lambda>(s, accepted). case accumulate uid up down s of
     (s', ok) \<Rightarrow> (s', if ok then Suc accepted else accepted))"

definition push_entries :: "push_entry list \<Rightarrow> store \<times> nat \<Rightarrow> store \<times> nat" where
  "push_entries es = fold (\<lambda>e. push_one (pe_uid e) (pe_up e) (pe_down e)) es"

definition push_compact :: "(string, json) gomap \<Rightarrow> store \<times> nat \<Rightarrow> store \<times> nat" where
  "push_compact raw = fold (\<lambda>(id_str, v) x. case dec_pair v (0, 0) of
       (_, True) \<Rightarrow> x
     | ((up, down), False) \<Rightarrow> (case atoi id_str of None \<Rightarrow> x | Some i \<Rightarrow> push_one i up down x)) raw"

definition accepted_response :: "nat \<Rightarrow> response" where
  "accepted_response n = write_json 200 (JObj [(''accepted'', enc_int (int n)), (''success'', JBool True)])"

definition apply_push :: "store \<Rightarrow> (string, json) gomap \<Rightarrow> store \<times> response" where
  "apply_push s raw = (case mget raw ''traffic'' of
     Some j \<Rightarrow> (case dec_slice zero_push_entry (dec_struct push_entry_fields) j [] of
         (_, True) \<Rightarrow> (s, write_json 400 (message ''invalid payload''))
       | (es, False) \<Rightarrow> (case push_entries es (s, 0) of (s', n) \<Rightarrow> (s', accepted_response n)))
   | None \<Rightarrow> (case push_compact raw (s, 0) of (s', n) \<Rightarrow> (s', accepted_response n)))"

text \<open>\<open>busy\<close>: no body slot became free in time.\<close>

definition handle_push :: "bool \<Rightarrow> faults \<Rightarrow> int \<Rightarrow> store \<Rightarrow> fs \<Rightarrow> request \<Rightarrow> store \<times> fs \<times> response" where
  "handle_push busy fl mtime s fs r =
     (if rq_method r \<noteq> ''POST'' then (s, fs, write_method_not_allowed ''POST'')
      else case authenticate s r of Inl resp \<Rightarrow> (s, fs, resp)
      | Inr _ \<Rightarrow> if busy then (s, fs, write_json 503 (message ''server busy''))
        else (case refresh_users fl mtime s fs of (s1, fs1, _) \<Rightarrow>
          (case rq_body r of
            BodyTooLarge \<Rightarrow> (s1, fs1, write_json 413 (message ''payload too large''))
          | BodyRead body \<Rightarrow> (case dec_push body of
              (_, True) \<Rightarrow> (s1, fs1, write_json 400 (message ''invalid payload''))
            | (raw, False) \<Rightarrow> (case apply_push s1 raw of (s2, resp) \<Rightarrow> (s2, fs1, resp))))))"

datatype route = UserRoute | ConfigRoute | PushRoute

definition routes :: "string \<Rightarrow> route option" where
  "routes path = (if path = ''/api/v1/server/UniProxy/user'' then Some UserRoute
     else if path = ''/api/v1/server/UniProxy/config'' then Some ConfigRoute
     else if path = ''/api/v1/server/UniProxy/push'' then Some PushRoute else None)"

section \<open>Authentication\<close>

lemma find_node: "distinct (map ne_id ns) \<Longrightarrow> find (\<lambda>e. ne_id e = i) ns = Some e \<longleftrightarrow> e \<in> set ns \<and> ne_id e = i"
  by (induction ns) auto

definition admits :: "store \<Rightarrow> request \<Rightarrow> node_entry \<Rightarrow> bool" where
  "admits s r e \<longleftrightarrow> e \<in> set (st_nodes s) \<and> atoi (rq_query r ''node_id'') = Some (ne_id e) \<and> 0 < ne_id e \<and> ne_enabled e
     \<and> rq_query r ''token'' \<noteq> []
     \<and> rq_query r ''token'' = (if ne_token e \<noteq> [] then ne_token e else st_token s)
     \<and> (normalize_node_type (ne_type e) = ''both''
        \<or> normalize_node_type (ne_type e) = normalize_node_type (rq_query r ''node_type''))"

lemma authenticate_found:
  assumes "atoi (rq_query r ''node_id'') = Some i" and "0 < i" and "find (\<lambda>e. ne_id e = i) (st_nodes s) = Some e"
  shows "authenticate s r = (if \<not> ne_enabled e then Inl no_server
    else if rq_query r ''token'' = [] \<or> rq_query r ''token'' \<noteq> (if ne_token e \<noteq> [] then ne_token e else st_token s)
      then Inl (write_json 401 (message ''invalid token''))
    else if normalize_node_type (ne_type e) \<noteq> ''both''
        \<and> normalize_node_type (ne_type e) \<noteq> normalize_node_type (rq_query r ''node_type'') then Inl no_server
    else Inr e)"
  using assms
  by (simp add: authenticate_def node_snapshot_of_def valid_token_def lookup_node_def match_node_type_def Let_def)

lemma authenticate_unknown:
  assumes "\<And>i. atoi (rq_query r ''node_id'') = Some i \<Longrightarrow> 0 < i \<Longrightarrow> find (\<lambda>e. ne_id e = i) (st_nodes s) = None"
  shows "authenticate s r = Inl no_server"
  using assms by (auto simp: authenticate_def node_snapshot_of_def Let_def split: option.split)

lemma authenticate_admits:
  assumes "distinct (map ne_id (st_nodes s))"
  shows "authenticate s r = Inr e \<longleftrightarrow> admits s r e"
proof (cases "\<exists>i e'. atoi (rq_query r ''node_id'') = Some i \<and> 0 < i \<and> find (\<lambda>e. ne_id e = i) (st_nodes s) = Some e'")
  case True
  then obtain i e' where a: "atoi (rq_query r ''node_id'') = Some i" "0 < i"
    and f: "find (\<lambda>e. ne_id e = i) (st_nodes s) = Some e'" by blast
  have e': "e' \<in> set (st_nodes s)" "ne_id e' = i" using f find_node [OF assms] by auto
  have "e = e' \<longleftrightarrow> e \<in> set (st_nodes s) \<and> ne_id e = i" using f find_node [OF assms, of i e] by auto
  then show ?thesis using a e' unfolding authenticate_found [OF a f] admits_def by auto
next
  case False
  then have "authenticate s r = Inl no_server"
    by (intro authenticate_unknown) (meson not_None_eq)
  moreover have "\<not> admits s r e" using False find_node [OF assms, of "ne_id e" e] by (auto simp: admits_def)
  ultimately show ?thesis by simp
qed

text \<open>C17. A request is authenticated for a node exactly when its node_id is the id of a managed and
  enabled node, its token is the node's own token, or the panel token where the node has none, and
  the node serves the requested type. An empty token never authenticates.\<close>

theorem authenticate_iff:
  assumes "distinct (map ne_id (st_nodes s))"
  shows "authenticate s r = Inr e \<longleftrightarrow>
    e \<in> set (st_nodes s) \<and> atoi (rq_query r ''node_id'') = Some (ne_id e) \<and> 0 < ne_id e \<and> ne_enabled e
    \<and> rq_query r ''token'' \<noteq> [] \<and> rq_query r ''token'' = (if ne_token e \<noteq> [] then ne_token e else st_token s)
    \<and> (normalize_node_type (ne_type e) = ''both''
       \<or> normalize_node_type (ne_type e) = normalize_node_type (rq_query r ''node_type''))"
  using authenticate_admits [OF assms] by (simp add: admits_def)

definition single_node :: store where
  "single_node = hy2_store\<lparr>st_users := st_users demo_store\<rparr>"

definition request_for :: "string \<Rightarrow> string \<Rightarrow> string \<Rightarrow> request" where
  "request_for method token body = \<lparr>rq_method = method,
     rq_query = (\<lambda>k. if k = ''node_id'' then ''3'' else if k = ''token'' then token else ''hysteria2''),
     rq_body = BodyRead body\<rparr>"

lemma hysteria2_type: "normalize_node_type ''hysteria2'' = ''hy2'' \<and> normalize_node_type ''hy2'' = ''hy2''"
  by (simp add: normalize_node_type_def to_lower_def trim_space_def lower_char_def is_space_def)

lemma demo_admits: "admits single_node (request_for m ''t'' b) hy2_entry"
  using hysteria2_type
  by (simp add: admits_def single_node_def request_for_def hy2_store_def hy2_entry_def zero_entry_def
      atoi_eval)

theorem authenticate_iff_witness:
  "authenticate single_node (request_for ''GET'' ''t'' []) = Inr hy2_entry
   \<and> (\<forall>e. authenticate single_node (request_for ''GET'' [] []) \<noteq> Inr e)"
proof -
  have d: "distinct (map ne_id (st_nodes single_node))" by (simp add: single_node_def hy2_store_def)
  show ?thesis using authenticate_iff [OF d] demo_admits [of "''GET''" "[]"]
    by (auto simp: admits_def) (simp_all add: request_for_def)
qed

text \<open>Without valid credentials nothing happens: whatever the handler, the store and the files are
  untouched and the status is 401, 404 or 405.\<close>

theorem unauthenticated_no_effect:
  assumes "\<forall>e. authenticate s r \<noteq> Inr e"
  shows "(\<exists>resp. handle_push busy fl mtime s fs r = (s, fs, resp) \<and> rs_status resp \<in> {401, 404, 405})
    \<and> (\<exists>resp. handle_user fl mtime s fs r = (s, fs, resp) \<and> rs_status resp \<in> {401, 404, 405})
    \<and> rs_status (handle_config s r) \<in> {401, 404, 405}"
proof -
  obtain resp where a: "authenticate s r = Inl resp" using assms by (cases "authenticate s r") auto
  then have "rs_status resp \<in> {401, 404}"
    by (auto simp: authenticate_def no_server_def write_json_def Let_def split: option.splits if_splits)
  then show ?thesis
    using a by (auto simp: handle_push_def handle_user_def handle_config_def write_method_not_allowed_def write_json_def)
qed

lemma demo_wrong_token: "authenticate single_node (request_for m ''x'' b) \<noteq> Inr e"
  using authenticate_admits [of single_node "request_for m ''x'' b" e]
  by (auto simp: admits_def single_node_def hy2_store_def hy2_entry_def zero_entry_def request_for_def)

theorem unauthenticated_no_effect_witness:
  "\<exists>resp. handle_push False no_faults 0 single_node (\<lambda>_. None) (request_for ''POST'' ''x'' ''{}'')
     = (single_node, \<lambda>_. None, resp) \<and> rs_status resp \<in> {401, 404, 405}"
  using unauthenticated_no_effect [of single_node "request_for ''POST'' ''x'' ''{}''" False no_faults 0 "\<lambda>_. None"]
    demo_wrong_token by blast

section \<open>What a push adds\<close>

type_synonym amount = "int \<times> int64 \<times> int64"

definition push_list :: "amount list \<Rightarrow> store \<times> nat \<Rightarrow> store \<times> nat" where
  "push_list = fold (\<lambda>(i, up, down). push_one i up down)"

definition accepted :: "store \<Rightarrow> amount \<Rightarrow> bool" where
  "accepted s = (\<lambda>(i, up, down). i \<in> set (keys (st_users s)) \<and> 0 \<le> sint up \<and> 0 \<le> sint down)"

definition pushed_up :: "store \<Rightarrow> amount list \<Rightarrow> int \<Rightarrow> int64" where
  "pushed_up s xs i = sum_list (map (\<lambda>(j, up, down). up) (filter (\<lambda>(j, up, down). j = i) (filter (accepted s) xs)))"

definition pushed_down :: "store \<Rightarrow> amount list \<Rightarrow> int \<Rightarrow> int64" where
  "pushed_down s xs i = sum_list (map (\<lambda>(j, up, down). down) (filter (\<lambda>(j, up, down). j = i) (filter (accepted s) xs)))"

lemma push_one_result:
  "push_one i up down (s, n) =
    (if accepted s (i, up, down) then (s\<lparr>st_traffic := mput i
       \<lparr>upload = upload (traffic_of s i) + up, download = download (traffic_of s i) + down\<rparr> (st_traffic s),
       st_dirty := True\<rparr>, Suc n) else (s, n))"
  by (auto simp: push_one_def accepted_def accumulate_result accumulate_refused not_le)

lemma push_list_effect:
  "push_list xs (s, n) = (s', n') \<Longrightarrow> n' = n + length (filter (accepted s) xs) \<and> st_users s' = st_users s
    \<and> upload (traffic_of s' i) = upload (traffic_of s i) + pushed_up s xs i
    \<and> download (traffic_of s' i) = download (traffic_of s i) + pushed_down s xs i"
proof (induction xs arbitrary: s n)
  case (Cons x xs)
  obtain j up down where x: "x = (j, up, down)" by (cases x)
  obtain s1 n1 where 1: "push_one j up down (s, n) = (s1, n1)" by fastforce
  then have 2: "push_list xs (s1, n1) = (s', n')" using Cons.prems x by (simp add: push_list_def)
  have u: "st_users s1 = st_users s" using 1 by (auto simp: push_one_result split: if_splits)
  then have a: "accepted s1 = accepted s" by (simp add: accepted_def fun_eq_iff)
  show ?case using Cons.IH [OF 2] 1 u a x
    by (auto simp: push_one_result traffic_of_def mget_mput pushed_up_def pushed_down_def add.assoc split: if_splits)
qed (simp add: push_list_def pushed_up_def pushed_down_def)

definition compact_amount :: "string \<times> json \<Rightarrow> amount list" where
  "compact_amount = (\<lambda>(id_str, v). case dec_pair v (0, 0) of
     (_, True) \<Rightarrow> [] | ((up, down), False) \<Rightarrow> (case atoi id_str of None \<Rightarrow> [] | Some i \<Rightarrow> [(i, up, down)]))"

lemma push_compact_list: "push_compact raw x = push_list (concat (map compact_amount raw)) x"
  by (induction raw arbitrary: x)
    (auto simp: push_compact_def push_list_def compact_amount_def split: prod.split bool.split option.split)

lemma push_entries_list: "push_entries es x = push_list (map (\<lambda>e. (pe_uid e, pe_up e, pe_down e)) es) x"
  by (simp add: push_entries_def push_list_def fold_map comp_def)

text \<open>What a decoded payload asks for; \<open>None\<close> for a malformed list of entries.\<close>

definition push_amounts :: "(string, json) gomap \<Rightarrow> amount list option" where
  "push_amounts raw = (case mget raw ''traffic'' of
     Some j \<Rightarrow> (case dec_slice zero_push_entry (dec_struct push_entry_fields) j [] of
         (_, True) \<Rightarrow> None | (es, False) \<Rightarrow> Some (map (\<lambda>e. (pe_uid e, pe_up e, pe_down e)) es))
   | None \<Rightarrow> Some (concat (map compact_amount raw)))"

lemma apply_push_amounts:
  "apply_push s raw = (case push_amounts raw of None \<Rightarrow> (s, write_json 400 (message ''invalid payload''))
     | Some xs \<Rightarrow> (case push_list xs (s, 0) of (s', n) \<Rightarrow> (s', accepted_response n)))"
  by (auto simp: apply_push_def push_amounts_def push_entries_list push_compact_list split: option.split prod.split bool.split)

text \<open>C16. A push adds exactly what it asks for: in either form, every known user's counters grow by the
  sum of the user's accepted amounts, modulo \<open>2 ^ 64\<close>, all other entries are skipped without failing
  the push, the reply counts the accepted ones, and a malformed list of entries changes nothing.\<close>

theorem push_exact:
  assumes "apply_push s raw = (s', resp)"
  shows "case push_amounts raw of
      None \<Rightarrow> s' = s \<and> rs_status resp = 400
    | Some xs \<Rightarrow> resp = accepted_response (length (filter (accepted s) xs)) \<and> st_users s' = st_users s
        \<and> upload (traffic_of s' i) = upload (traffic_of s i) + pushed_up s xs i
        \<and> download (traffic_of s' i) = download (traffic_of s i) + pushed_down s xs i"
  using assms push_list_effect [of _ s 0]
  by (auto simp: apply_push_amounts write_json_def split: option.splits prod.splits)

theorem push_exact_witness:
  "\<exists>s'. apply_push demo_store [(''1'', JArr [JNum ''3'', JNum ''4'']), (''9'', JArr [JNum ''1'', JNum ''1''])]
      = (s', accepted_response 1) \<and> upload (traffic_of s' 1) = 3"
proof -
  let ?raw = "[(''1'', JArr [JNum ''3'', JNum ''4'']), (''9'', JArr [JNum ''1'', JNum ''1''])]"
  have d: "atoi ''1'' = Some 1" "atoi ''3'' = Some 3" "atoi ''4'' = Some 4" "atoi ''9'' = Some 9"
    by (simp_all add: atoi_eval)
  then have a: "push_amounts ?raw = Some [(1, 3, 4), (9, 1, 1)]"
    by (simp add: push_amounts_def compact_amount_def dec_pair_def dec_int64_def)
  obtain s' resp where p: "apply_push demo_store ?raw = (s', resp)" by fastforce
  have "accepted demo_store (1, 3, 4)" "\<not> accepted demo_store (9, 1, 1)" "upload (traffic_of demo_store 1) = 0"
    by (simp_all add: accepted_def demo_store_def empty_store_def traffic_of_def zero_traffic_def)
  then show ?thesis using push_exact [OF p, of 1] p a by (simp add: pushed_up_def)
qed

lemma mset_concat_map: "mset (concat (map f xs)) = sum_mset (image_mset (\<lambda>x. mset (f x)) (mset xs))"
  by (induction xs) auto

lemma pushed_mset:
  "pushed_up s xs i = sum_mset (image_mset (\<lambda>(j, up, down). up) (filter_mset (\<lambda>(j, up, down). j = i) (filter_mset (accepted s) (mset xs))))"
  "pushed_down s xs i = sum_mset (image_mset (\<lambda>(j, up, down). down) (filter_mset (\<lambda>(j, up, down). j = i) (filter_mset (accepted s) (mset xs))))"
  "length (filter (accepted s) xs) = size (filter_mset (accepted s) (mset xs))"
  unfolding pushed_up_def pushed_down_def
  by (simp_all flip: mset_filter mset_map sum_mset_sum_list size_mset)

text \<open>C29. The order in which Go iterates over the payload does not matter: two orders give the same
  reply and the same counters.\<close>

theorem push_order_free:
  assumes "wf_map raw" and "mset raw' = mset raw"
    and "apply_push s raw = (s1, r1)" and "apply_push s raw' = (s2, r2)"
  shows "r1 = r2 \<and> upload (traffic_of s1 i) = upload (traffic_of s2 i) \<and> download (traffic_of s1 i) = download (traffic_of s2 i)"
proof -
  have "wf_map raw'" using assms(1,2) by (metis distinct_map mset_eq_imp_distinct_iff mset_map)
  then have g: "mget raw' = mget raw" using assms(1) mset_eq_setD [OF assms(2)] by (simp add: map_of_inject_set)
  have "mset (concat (map compact_amount raw)) = mset (concat (map compact_amount raw'))"
    unfolding mset_concat_map assms(2) ..
  then have "(push_amounts raw = None \<and> push_amounts raw' = None)
      \<or> (\<exists>xs ys. push_amounts raw = Some xs \<and> push_amounts raw' = Some ys \<and> mset xs = mset ys)"
    by (cases "push_amounts raw") (auto simp: push_amounts_def g split: option.splits prod.splits bool.splits)
  then show ?thesis
  proof (elim disjE exE conjE)
    fix xs ys assume xs: "push_amounts raw = Some xs" "push_amounts raw' = Some ys" and m: "mset xs = mset ys"
    obtain t1 n1 t2 n2 where p: "push_list xs (s, 0) = (t1, n1)" "push_list ys (s, 0) = (t2, n2)" by fastforce
    have "pushed_up s xs i = pushed_up s ys i" "pushed_down s xs i = pushed_down s ys i"
      "length (filter (accepted s) xs) = length (filter (accepted s) ys)"
      by (simp_all only: pushed_mset m)
    then show ?thesis using push_list_effect [OF p(1), of i] push_list_effect [OF p(2), of i] assms(3,4) p xs
      by (auto simp: apply_push_amounts)
  next
    assume "push_amounts raw = None" "push_amounts raw' = None"
    then show ?thesis using assms(3,4) by (simp add: apply_push_amounts)
  qed
qed

theorem push_order_free_witness:
  "\<exists>s1 s2 resp. apply_push demo_store [(''1'', JArr [JNum ''3'', JNum ''4'']), (''01'', JArr [JNum ''1'', JNum ''1''])] = (s1, resp)
     \<and> apply_push demo_store [(''01'', JArr [JNum ''1'', JNum ''1'']), (''1'', JArr [JNum ''3'', JNum ''4''])] = (s2, resp)
     \<and> upload (traffic_of s1 1) = upload (traffic_of s2 1)"
proof -
  let ?a = "(''1'', JArr [JNum ''3'', JNum ''4''])" and ?b = "(''01'', JArr [JNum ''1'', JNum ''1''])"
  obtain s1 r1 s2 r2 where "apply_push demo_store [?a, ?b] = (s1, r1)" "apply_push demo_store [?b, ?a] = (s2, r2)"
    by fastforce
  with push_order_free [OF _ _ this, of 1] show ?thesis by auto
qed

end
