(* ===== verification/Hook.thy ===== *)
theory Hook
  imports Sync
begin

text \<open>
  The traffic hook of the agent (\<^verbatim>\<open>cmd/mini-sb-agent/main.go\<close>): one counter per inbound
  tag, created on first use, and the operations that the synchroniser plugs in. The hook
  interprets \<open>traffic_source\<close>, the synchroniser's interface.
\<close>

type_synonym hook = "(string, tcounter) gomap"

section \<open>Operations\<close>

definition tag_or_default :: "string \<Rightarrow> string" where
  "tag_or_default tag = (if tag = [] then ''default'' else tag)"

definition hook_tc :: "string \<Rightarrow> hook \<Rightarrow> tcounter \<times> hook" where
  "hook_tc tag h = (let tag = tag_or_default tag in
     case mget h tag of Some c \<Rightarrow> (c, h) | None \<Rightarrow> (new_traffic_counter, mput tag new_traffic_counter h))"

text \<open>\<^verbatim>\<open>h.tc(tag).GetCounter(user)\<close>: the address of the user's storage in the counter of the tag.\<close>

definition hook_get_counter :: "string \<Rightarrow> string \<Rightarrow> hook \<Rightarrow> nat \<times> hook" where
  "hook_get_counter tag user h = (case hook_tc tag h of (c, h1) \<Rightarrow>
     (case get_counter c user of (a, c') \<Rightarrow> (a, mput (tag_or_default tag) c' h1)))"

definition hook_snapshot :: "hook \<Rightarrow> bool \<Rightarrow> delta" where
  "hook_snapshot h reset = map (\<lambda>(k, c). (k, snapshot c reset)) h"

definition hook_snapshot_delta :: "hook \<Rightarrow> delta" where
  "hook_snapshot_delta h = filter (\<lambda>(k, d). d \<noteq> []) (map (\<lambda>(k, c). (k, snapshot_delta c)) h)"

definition hook_commit_one :: "string \<times> snapshot \<Rightarrow> hook \<Rightarrow> hook" where
  "hook_commit_one = (\<lambda>(tag, users) h. case mget h tag of
     Some c \<Rightarrow> mput tag (commit_snapshot c users) h | None \<Rightarrow> h)"

definition hook_commit :: "hook \<Rightarrow> delta \<Rightarrow> hook" where
  "hook_commit h d = fold hook_commit_one d h"

definition hook_remove_absent :: "string list \<Rightarrow> hook \<Rightarrow> hook" where
  "hook_remove_absent active h = map (\<lambda>(k, c). (k, remove_absent c active)) h"

text \<open>The statistics endpoint: \<^verbatim>\<open>/stats\<close> with its \<^verbatim>\<open>reset\<close> and
  \<^verbatim>\<open>delta\<close> parameters.\<close>

definition stats :: "(string \<Rightarrow> string) \<Rightarrow> hook \<Rightarrow> delta" where
  "stats query h = (if query ''delta'' = ''1'' then hook_snapshot_delta h
     else hook_snapshot h (query ''reset'' = ''1''))"

section \<open>Invariant and pending traffic\<close>

definition wf_hook :: "hook \<Rightarrow> bool" where
  "wf_hook h \<longleftrightarrow> wf_map h \<and> (\<forall>(t, c) \<in> set h. wf_counter c)"

definition hook_tracks :: "hook \<Rightarrow> string \<Rightarrow> string \<Rightarrow> bool" where
  "hook_tracks h t u \<longleftrightarrow> (case mget h t of None \<Rightarrow> False | Some c \<Rightarrow> tracked c u)"

definition hook_pending :: "hook \<Rightarrow> string \<Rightarrow> string \<Rightarrow> pair64" where
  "hook_pending h t u = (case mget h t of None \<Rightarrow> pzero | Some c \<Rightarrow> pending c u)"

lemma wf_hook_get: "wf_hook h \<Longrightarrow> mget h t = Some c \<Longrightarrow> wf_counter c"
  by (auto simp: wf_hook_def dest!: mget_Some_in)

lemma wf_hook_map: "wf_hook h \<Longrightarrow> wf_map h"
  by (simp add: wf_hook_def)

lemma wf_hook_put:
  assumes "wf_hook h" and "wf_counter c"
  shows "wf_hook (mput t c h)"
  using assms set_mput_sub [of t c h] by (auto simp: wf_hook_def)

lemma wf_hook_empty: "wf_hook []"
  by (simp add: wf_hook_def)

lemma wf_commit_one: "wf_hook h \<Longrightarrow> wf_hook (hook_commit_one x h)"
  by (auto simp: hook_commit_one_def intro!: wf_hook_put intro: wf_hook_get split: prod.split option.split)

lemma wf_hook_commit: "wf_hook h \<Longrightarrow> wf_hook (hook_commit h d)"
  unfolding hook_commit_def by (induction d arbitrary: h) (auto intro: wf_commit_one)

lemma wf_hook_remove_absent: "wf_hook h \<Longrightarrow> wf_hook (hook_remove_absent active h)"
  by (auto simp: wf_hook_def hook_remove_absent_def wf_remove_absent)

lemma wf_hook_get_counter: "wf_hook h \<Longrightarrow> wf_hook (snd (hook_get_counter tag user h))"
  by (auto simp: hook_get_counter_def hook_tc_def Let_def intro!: wf_hook_put
      dest: wf_hook_get split: prod.splits option.splits)
    (metis snd_conv wf_get_counter wf_new, metis snd_conv wf_get_counter wf_hook_get)

lemma mget_hook_delta:
  assumes "wf_hook h"
  shows "mget (hook_snapshot_delta h) t =
    (case mget h t of None \<Rightarrow> None | Some c \<Rightarrow> if snapshot_delta c = [] then None else Some (snapshot_delta c))"
proof -
  have wf: "wf_map (map (\<lambda>(k, c). (k, snapshot_delta c)) h)" using assms by (simp add: wf_hook_def)
  show ?thesis unfolding hook_snapshot_delta_def mget_filter [OF wf] mget_map_val
    by (simp split: option.split)
qed

lemma reported_at_hook_delta:
  assumes "wf_hook h"
  shows "reported_at (hook_snapshot_delta h) t u = (if has_delta (hook_pending h t u) then hook_pending h t u else pzero)"
proof (cases "mget h t")
  case (Some c)
  then have "reported (snapshot_delta c) u = (if has_delta (pending c u) then pending c u else pzero)"
    using wf_hook_get [OF assms] by (simp add: reported_snapshot_delta)
  moreover have "snapshot_delta c = [] \<Longrightarrow> reported (snapshot_delta c) u = pzero" by (simp add: reported_def)
  ultimately show ?thesis using Some
    by (auto simp: reported_at_def mget_hook_delta [OF assms] hook_pending_def)
qed (simp add: reported_at_def mget_hook_delta [OF assms] hook_pending_def)

lemma wf_hook_delta:
  assumes "wf_hook h"
  shows "wf_delta (hook_snapshot_delta h)"
proof -
  have "wf_map (map (\<lambda>(k, c). (k, snapshot_delta c)) h)" using assms by (simp add: wf_hook_def)
  then show ?thesis using assms by (auto simp: wf_delta_def hook_snapshot_delta_def wf_hook_def)
qed

lemma mget_commit_one:
  "mget (hook_commit_one (t', m) h) t = (if t = t' then map_option (\<lambda>c. commit_snapshot c m) (mget h t) else mget h t)"
  by (auto simp: hook_commit_one_def mget_mput split: option.split)

lemma mget_hook_commit:
  assumes "wf_map d"
  shows "mget (hook_commit h d) t = (case mget d t of None \<Rightarrow> mget h t
     | Some m \<Rightarrow> map_option (\<lambda>c. commit_snapshot c m) (mget h t))"
  using assms unfolding hook_commit_def
proof (induction d arbitrary: h)
  case (Cons x d)
  obtain t' m where x: "x = (t', m)" by (cases x)
  have "mget d t' = None" using Cons.prems x by (simp add: mget_None_iff)
  then show ?case using Cons x by (auto simp: mget_commit_one split: option.split)
qed simp

lemma hook_commit_pend:
  assumes "wf_hook h" and "wf_delta d" and "hook_tracks h t u \<or> reported_at d t u = pzero"
  shows "hook_pending (hook_commit h d) t u = psub (hook_pending h t u) (reported_at d t u)"
proof (cases "mget h t")
  case None
  then have "reported_at d t u = pzero" using assms(3) by (simp add: hook_tracks_def)
  moreover have "mget (hook_commit h d) t = None"
    using None assms(2) by (auto simp: mget_hook_commit wf_delta_def split: option.split)
  ultimately show ?thesis using None by (simp add: hook_pending_def)
next
  case (Some c)
  show ?thesis
  proof (cases "mget d t")
    case None
    then show ?thesis using Some assms(2) by (simp add: hook_pending_def mget_hook_commit wf_delta_def reported_at_def)
  next
    case d: (Some m)
    have p: "pending (commit_snapshot c m) u = (if tracked c u then psub (pending c u) (reported m u) else pending c u)"
      using pending_commit wf_hook_get [OF assms(1) Some] wf_delta_get [OF assms(2) d] by blast
    have "hook_pending (hook_commit h d) t u = pending (commit_snapshot c m) u"
      using Some d assms(2) by (simp add: hook_pending_def mget_hook_commit wf_delta_def)
    then show ?thesis using p assms(3) Some d by (auto simp: hook_pending_def hook_tracks_def reported_at_def)
  qed
qed

lemma hook_pend_tracked: "has_delta (hook_pending h t u) \<Longrightarrow> hook_tracks h t u"
  by (auto simp: hook_pending_def hook_tracks_def dest: has_delta_tracked split: option.splits)

interpretation hs: traffic_source hook_snapshot_delta hook_commit wf_hook hook_tracks hook_pending
  by unfold_locales
    (simp_all add: wf_hook_delta reported_at_hook_delta hook_pend_tracked wf_hook_commit hook_commit_pend)

section \<open>Connections between snapshot and commit\<close>

datatype hook_event = HConnect string string | HRecv string nat int64 | HSent string nat int64

definition at_tag :: "string \<Rightarrow> (tcounter \<Rightarrow> tcounter) \<Rightarrow> hook \<Rightarrow> hook" where
  "at_tag t f h = (case mget h t of None \<Rightarrow> h | Some c \<Rightarrow> mput t (f c) h)"

fun apply_hook_event :: "hook_event \<Rightarrow> hook \<Rightarrow> hook" where
  "apply_hook_event (HConnect tag user) h = snd (hook_get_counter tag user h)"
| "apply_hook_event (HRecv tag a n) h = at_tag tag (add_up a n) h"
| "apply_hook_event (HSent tag a n) h = at_tag tag (add_down a n) h"

definition hook_run :: "hook_event list \<Rightarrow> hook \<Rightarrow> hook" where
  "hook_run evs h = fold apply_hook_event evs h"

text \<open>What the events mean for the counter of one tag.\<close>

fun tag_event :: "string \<Rightarrow> hook_event \<Rightarrow> tevent list" where
  "tag_event t (HConnect tag user) = (if tag_or_default tag = t then [Connect user] else [])"
| "tag_event t (HRecv tag a n) = (if tag = t then [Recv a n] else [])"
| "tag_event t (HSent tag a n) = (if tag = t then [Sent a n] else [])"

definition tag_events :: "string \<Rightarrow> hook_event list \<Rightarrow> tevent list" where
  "tag_events t evs = concat (map (tag_event t) evs)"

lemma mget_hook_event: "mget h t = Some c \<Longrightarrow> mget (apply_hook_event e h) t = Some (run_events (tag_event t e) c)"
  by (cases e) (auto simp: hook_get_counter_def hook_tc_def Let_def at_tag_def mget_mput split: prod.split option.split)

lemma mget_hook_run: "mget h t = Some c \<Longrightarrow> mget (hook_run evs h) t = Some (run_events (tag_events t evs) c)"
proof (induction evs arbitrary: h c)
  case (Cons e evs)
  then show ?case using mget_hook_event [OF Cons.prems, of e] Cons.IH
    by (simp add: hook_run_def tag_events_def run_events_def)
qed (simp add: hook_run_def tag_events_def)

lemma wf_hook_event: "wf_hook h \<Longrightarrow> wf_hook (apply_hook_event e h)"
  by (cases e) (auto simp: at_tag_def wf_hook_get_counter intro!: wf_hook_put intro: wf_hook_get split: option.split)

lemma wf_hook_run: "wf_hook h \<Longrightarrow> wf_hook (hook_run evs h)"
  unfolding hook_run_def by (induction evs arbitrary: h) (auto intro: wf_hook_event)

lemma tracked_run_events: "tracked c u \<Longrightarrow> tracked (run_events evs c) u"
  by (auto simp: tracked_iff mget_run_events)

lemma hook_run_carries: "hs.carries (hook_run evs)"
  unfolding hs.carries_def
  by (auto simp: wf_hook_run hook_tracks_def mget_hook_run tracked_run_events split: option.splits)

section \<open>The synchroniser over the hook\<close>

lemma hook_pending_run:
  assumes "wf_hook h" and "mget h t = Some c" and "mget (counters c) u = Some a"
  shows "hook_pending (hook_run evs h) t u = padd (hook_pending h t u) (traffic_at a (tag_events t evs))"
  using assms wf_hook_get pending_run_events by (simp add: hook_pending_def mget_hook_run)

text \<open>One flush over the agent's counters: whatever the connections do while the push is under
  way, a push that succeeds bills each numeric user's delta exactly once and leaves the bytes that
  arrived meanwhile pending, and a push that fails leaves everything pending.\<close>

theorem flush_bills_once:
  assumes "wf_hook h" and "snapshot_cb sy = Some hook_snapshot_delta" and "commit_cb sy = Some hook_commit"
    and "panel sy = Some pan" and "has_traffic (hook_snapshot_delta h)" and "is_numeric_user u"
    and "mget h t = Some c" and "mget (counters c) u = Some a"
    and "flush sy (hook_run evs) (p, h) = (p', h')"
  shows "padd (hook_pending h t u) (traffic_at a (tag_events t evs)) =
    (if snd (push_traffic pan (hook_snapshot_delta h) p)
     then padd (reported_at (hook_snapshot_delta h) t u) (hook_pending h' t u) else hook_pending h' t u)"
proof -
  have "hs.plugged sy" using assms(2,3) by (simp add: hs.plugged_def)
  from hs.flush_pend [OF assms(1) hook_run_carries this assms(4,5), of evs p t u] assms(6,9)
    hook_pending_run [OF assms(1,7,8), of evs]
  show ?thesis by (simp add: padd_ac(2))
qed

definition demo_hook :: hook where
  "demo_hook = [(''vless-in'', demo_counter)]"

definition demo_panel :: "nat panel_ops" where
  "demo_panel = \<lparr>fetch_users = (\<lambda>n. (n, None)), push_traffic = (\<lambda>d n. (Suc n, True))\<rparr>"

definition demo_syncer :: "(nat, hook) syncer" where
  "demo_syncer = \<lparr>panel = Some demo_panel, snapshot_cb = Some hook_snapshot_delta, commit_cb = Some hook_commit,
     users_cb = None, every = 0\<rparr>"

lemma demo_hook_facts:
  "wf_hook demo_hook" "has_traffic (hook_snapshot_delta demo_hook)" "is_numeric_user ''7''"
  "mget demo_hook ''vless-in'' = Some demo_counter" "hook_pending demo_hook ''vless-in'' ''7'' = (40, 0)"
  using wf_demo_counter
  by (simp_all add: wf_hook_def demo_hook_def has_traffic_def hook_snapshot_delta_def snapshot_delta_def demo_counter_def
      storage_delta_def has_delta_def pos64_def is_numeric_user_def is_digit_def hook_pending_def pending_def)

theorem flush_bills_once_witness:
  "\<exists>h'. flush demo_syncer (hook_run [HRecv ''vless-in'' 0 5]) (0, demo_hook) = (1, h')
     \<and> padd (40, 0) (hook_pending h' ''vless-in'' ''7'') = (45, 0)"
proof -
  obtain p' h' where f: "flush demo_syncer (hook_run [HRecv ''vless-in'' 0 5]) (0, demo_hook) = (p', h')" by fastforce
  have "p' = 1" using f demo_hook_facts(2)
    by (auto simp: flush_def demo_syncer_def demo_panel_def Let_def has_traffic_def split: if_splits)
  have s: "snapshot_cb demo_syncer = Some hook_snapshot_delta" "commit_cb demo_syncer = Some hook_commit"
    "panel demo_syncer = Some demo_panel" by (simp_all add: demo_syncer_def)
  have "reported_at (hook_snapshot_delta demo_hook) ''vless-in'' ''7'' = (40, 0)"
    using reported_at_hook_delta [OF demo_hook_facts(1)] demo_hook_facts(5) by (simp add: has_delta_def pos64_def)
  moreover have "traffic_at 0 (tag_events ''vless-in'' [HRecv ''vless-in'' 0 5]) = (5, 0)"
    by (simp add: tag_events_def)
  ultimately show ?thesis
    using flush_bills_once [OF demo_hook_facts(1) s demo_hook_facts(2,3,4) wf_demo_counter(2) f] demo_hook_facts(5)
      f \<open>p' = 1\<close>
    by (simp add: demo_panel_def padd_def)
qed

end
