(* ===== verification/Client.thy ===== *)
theory Client
  imports Sync Decode "HOL-Library.List_Lexorder" "HOL-Library.Char_ord"
begin

text \<open>
  The panels of \<^verbatim>\<open>panelapi\<close>: the HTTP client (\<^verbatim>\<open>client.go\<close>), the
  combination of several panels (\<^verbatim>\<open>multi.go\<close>) and the local user file
  (\<^verbatim>\<open>local.go\<close>). The network is the argument \<open>tr\<close>, an arbitrary function from a request and
  the state of the world to a result; a URL that cannot be parsed is one of its errors.
\<close>

section \<open>Requests\<close>

record client =
  cl_base :: string
  cl_token :: string
  cl_node_id :: string
  cl_node_type :: string

definition new_client :: "string \<Rightarrow> string \<Rightarrow> string \<Rightarrow> string \<Rightarrow> client" where
  "new_client base token node_id node_type = \<lparr>cl_base = trim_right_slash base, cl_token = token,
     cl_node_id = node_id, cl_node_type = node_type\<rparr>"

record http_request =
  hr_method :: string
  hr_url :: string
  hr_query :: "(string, string) gomap"
  hr_body :: string

datatype http_result = HttpError | HttpResponse nat string

type_synonym 'w transport = "http_request \<Rightarrow> 'w \<Rightarrow> 'w \<times> http_result"

definition set_query :: "string \<Rightarrow> string \<Rightarrow> (string, string) gomap \<Rightarrow> (string, string) gomap" where
  "set_query k v q = (if v \<noteq> [] then mput k v q else q)"

definition endpoint :: "client \<Rightarrow> string \<Rightarrow> (string \<times> (string, string) gomap) option" where
  "endpoint c path = (if cl_base c = [] then None
     else Some (cl_base c @ path, set_query ''node_type'' (cl_node_type c)
       (set_query ''node_id'' (cl_node_id c) (set_query ''token'' (cl_token c) []))))"

definition success :: "nat \<Rightarrow> bool" where
  "success status \<longleftrightarrow> status div 100 = 2"

definition http_get :: "'w transport \<Rightarrow> client \<Rightarrow> string \<Rightarrow> 'w \<Rightarrow> 'w \<times> http_result" where
  "http_get tr c path w = (case endpoint c path of None \<Rightarrow> (w, HttpError)
     | Some (url, q) \<Rightarrow> tr \<lparr>hr_method = ''GET'', hr_url = url, hr_query = q, hr_body = []\<rparr> w)"

section \<open>Users\<close>

definition zero_user :: user where
  "zero_user = \<lparr>ID = 0, UUID = [], Password = [], Name = [], SpeedLimit = 0\<rparr>"

definition user_fields :: "user field list" where
  "user_fields = [(''id'', field_of dec_int ID (\<lambda>x. ID_update (\<lambda>_. x))),
     (''uuid'', field_of dec_string UUID (\<lambda>x. UUID_update (\<lambda>_. x))),
     (''password'', field_of dec_string Password (\<lambda>x. Password_update (\<lambda>_. x))),
     (''name'', field_of dec_string Name (\<lambda>x. Name_update (\<lambda>_. x))),
     (''speed_limit'', field_of dec_int SpeedLimit (\<lambda>x. SpeedLimit_update (\<lambda>_. x)))]"

definition dec_users :: "user list decoder" where
  "dec_users = dec_slice zero_user (dec_struct user_fields)"

record user_list =
  ul_users :: "user list"
  ul_data :: "user list"

definition user_list_fields :: "user_list field list" where
  "user_list_fields = [(''users'', field_of dec_users ul_users (\<lambda>x. ul_users_update (\<lambda>_. x))),
     (''data'', field_of dec_users ul_data (\<lambda>x. ul_data_update (\<lambda>_. x)))]"

definition fill_user :: "user \<Rightarrow> user" where
  "fill_user u = (let u = (if Password u = [] then u\<lparr>Password := UUID u\<rparr> else u)
     in if Name u = [] then u\<lparr>Name := itoa (ID u)\<rparr> else u)"

definition decode_user_list :: "string \<Rightarrow> user list option" where
  "decode_user_list body = (case decode_prefix body of None \<Rightarrow> None
     | Some j \<Rightarrow> (case dec_struct user_list_fields j \<lparr>ul_users = [], ul_data = []\<rparr> of
         (_, True) \<Rightarrow> None
       | (l, False) \<Rightarrow> Some (map fill_user (if ul_users l = [] then ul_data l else ul_users l))))"

definition client_fetch_users :: "'w transport \<Rightarrow> client \<Rightarrow> 'w \<Rightarrow> 'w \<times> user list option" where
  "client_fetch_users tr c w = (case http_get tr c ''/api/v1/server/UniProxy/user'' w of
     (w', HttpError) \<Rightarrow> (w', None)
   | (w', HttpResponse status body) \<Rightarrow> (w', if \<not> success status then None else decode_user_list body))"

section \<open>Pushing traffic\<close>

definition matches_inbound :: "client \<Rightarrow> string \<Rightarrow> bool" where
  "matches_inbound c tag = (let t = to_lower (cl_node_type c) in
     if t \<in> set [''vless'', ''vless-reality'', ''reality''] then tag = ''vless-in''
     else if t \<in> set [''hy2'', ''hysteria'', ''hysteria2''] then tag = ''hy2-in''
     else contains (to_lower tag) t)"

definition push_flat :: "client \<Rightarrow> delta \<Rightarrow> snapshot" where
  "push_flat c d = fold (\<lambda>(tag, users) out. if \<not> matches_inbound c tag then out
     else fold flatten_user users out) d []"

definition push_payload :: "snapshot \<Rightarrow> (int, pair64) gomap" where
  "push_payload flat = fold (\<lambda>(user, v) p. case atoi user of None \<Rightarrow> p | Some uid \<Rightarrow> mput uid v p) flat []"

definition enc_pair :: "pair64 \<Rightarrow> json" where
  "enc_pair v = JArr [enc_int (sint (fst v)), enc_int (sint (snd v))]"

text \<open>Encode writes the entries of a map in the order of their keys as strings, and a newline.\<close>

definition enc_push :: "(int, pair64) gomap \<Rightarrow> json" where
  "enc_push p = JObj (sort_key fst (map (\<lambda>(uid, v). (itoa uid, enc_pair v)) p))"

definition push_body :: "(int, pair64) gomap \<Rightarrow> string" where
  "push_body p = marshal (enc_push p) @ [CHR 0x0A]"

definition client_push_traffic :: "'w transport \<Rightarrow> client \<Rightarrow> delta \<Rightarrow> 'w \<Rightarrow> 'w \<times> bool" where
  "client_push_traffic tr c d w = (let flat = push_flat c d in
     if flat = [] then (w, True)
     else case endpoint c ''/api/v1/server/UniProxy/push'' of None \<Rightarrow> (w, False)
     | Some (url, q) \<Rightarrow> (let payload = push_payload flat in
         if payload = [] then (w, True)
         else (case tr \<lparr>hr_method = ''POST'', hr_url = url, hr_query = q, hr_body = push_body payload\<rparr> w of
             (w', HttpError) \<Rightarrow> (w', False)
           | (w', HttpResponse status body) \<Rightarrow> (w', success status))))"

definition client_panel :: "'w transport \<Rightarrow> client \<Rightarrow> 'w panel_ops" where
  "client_panel tr c = \<lparr>fetch_users = client_fetch_users tr c, push_traffic = client_push_traffic tr c\<rparr>"

section \<open>multi.go\<close>

fun merge_users :: "user list \<Rightarrow> int list \<Rightarrow> user list \<Rightarrow> user list \<times> int list" where
  "merge_users [] seen merged = (merged, seen)"
| "merge_users (u # us) seen merged =
     (if 0 < ID u then
        (if ID u \<in> set seen then merge_users us seen merged
         else merge_users us (ID u # seen) (merged @ [u]))
      else merge_users us seen (merged @ [u]))"

fun multi_fetch_from :: "'w panel_ops option list \<Rightarrow> int list \<Rightarrow> user list \<Rightarrow> 'w \<Rightarrow> 'w \<times> user list option" where
  "multi_fetch_from [] seen merged w = (w, Some merged)"
| "multi_fetch_from (None # ps) seen merged w = multi_fetch_from ps seen merged w"
| "multi_fetch_from (Some pan # ps) seen merged w = (case fetch_users pan w of
     (w', None) \<Rightarrow> (w', None)
   | (w', Some us) \<Rightarrow> (case merge_users us seen merged of (merged', seen') \<Rightarrow> multi_fetch_from ps seen' merged' w'))"

fun multi_push_from :: "'w panel_ops option list \<Rightarrow> delta \<Rightarrow> 'w \<Rightarrow> 'w \<times> bool" where
  "multi_push_from [] d w = (w, True)"
| "multi_push_from (None # ps) d w = multi_push_from ps d w"
| "multi_push_from (Some pan # ps) d w = (case push_traffic pan d w of
     (w', False) \<Rightarrow> (w', False) | (w', True) \<Rightarrow> multi_push_from ps d w')"

definition multi_panel :: "'w panel_ops option list \<Rightarrow> 'w panel_ops" where
  "multi_panel ps = \<lparr>fetch_users = multi_fetch_from ps [] [], push_traffic = multi_push_from ps\<rparr>"

section \<open>local.go\<close>

record local_user_file =
  lu_users :: "user list"
  lu_data :: "user list"
  lu_inbounds :: "(string, user list) gomap"

definition local_fields :: "local_user_file field list" where
  "local_fields = [(''users'', field_of dec_users lu_users (\<lambda>x. lu_users_update (\<lambda>_. x))),
     (''data'', field_of dec_users lu_data (\<lambda>x. lu_data_update (\<lambda>_. x))),
     (''inbounds'', field_of (dec_map [] dec_users) lu_inbounds (\<lambda>x. lu_inbounds_update (\<lambda>_. x)))]"

definition parse_users :: "string \<Rightarrow> user list option" where
  "parse_users data = (case unmarshal_into (dec_struct local_fields) data \<lparr>lu_users = [], lu_data = [], lu_inbounds = []\<rparr> of
     (_, True) \<Rightarrow> None
   | (l, False) \<Rightarrow> Some (if lu_users l \<noteq> [] then lu_users l else if lu_data l \<noteq> [] then lu_data l
       else concat (map snd (lu_inbounds l))))"

definition local_panel :: "string \<Rightarrow> (string \<Rightarrow> string option) panel_ops" where
  "local_panel path = \<lparr>fetch_users = (\<lambda>files. (files, case files path of None \<Rightarrow> None | Some data \<Rightarrow> parse_users data)),
     push_traffic = (\<lambda>d files. (files, True))\<rparr>"

section \<open>Merging\<close>

abbreviation positive_ids :: "user list \<Rightarrow> int list" where
  "positive_ids us \<equiv> map ID (filter (\<lambda>u. 0 < ID u) us)"

definition seen_inv :: "int list \<Rightarrow> user list \<Rightarrow> bool" where
  "seen_inv seen merged \<longleftrightarrow> set (positive_ids merged) = set seen \<and> distinct (positive_ids merged)"

lemma merge_users_inv:
  "merge_users us seen merged = (merged', seen') \<Longrightarrow> seen_inv seen merged \<Longrightarrow>
    seen_inv seen' merged' \<and> prefix merged merged'"
proof (induction us arbitrary: seen merged)
  case (Cons u us)
  consider "0 < ID u" "ID u \<in> set seen" | "0 < ID u" "ID u \<notin> set seen" | "\<not> 0 < ID u" by blast
  then show ?case
  proof cases
    case 1
    then show ?thesis using Cons.IH Cons.prems by simp
  next
    case 2
    then have "seen_inv (ID u # seen) (merged @ [u])" using Cons.prems(2) by (auto simp: seen_inv_def)
    from Cons.IH [OF _ this] Cons.prems(1) 2 show ?thesis by (auto dest: append_prefixD)
  next
    case 3
    then have "seen_inv seen (merged @ [u])" using Cons.prems(2) by (auto simp: seen_inv_def)
    from Cons.IH [OF _ this] Cons.prems(1) 3 show ?thesis by (auto dest: append_prefixD)
  qed
qed simp

lemma multi_fetch_inv:
  "multi_fetch_from ps seen merged w = (w', Some us) \<Longrightarrow> seen_inv seen merged \<Longrightarrow>
    distinct (positive_ids us) \<and> prefix merged us"
proof (induction ps seen merged w rule: multi_fetch_from.induct)
  case (3 pan ps seen merged w)
  then obtain w1 us1 m1 s1 where f: "fetch_users pan w = (w1, Some us1)" "merge_users us1 seen merged = (m1, s1)"
    "multi_fetch_from ps s1 m1 w1 = (w', Some us)"
    by (auto split: prod.splits option.splits)
  have m: "seen_inv s1 m1" "prefix merged m1" using merge_users_inv [OF f(2) "3.prems"(2)] by simp_all
  have "distinct (positive_ids us) \<and> prefix m1 us" using "3.IH" f m(1) by simp
  with m(2) show ?case by (auto intro: prefix_order.trans)
qed (simp_all add: seen_inv_def)

text \<open>Merging several panels never yields two users with the same positive id, and the panels
  that come first win: their list, when it has no repeated id, is a prefix of the merged one.\<close>

theorem multi_fetch_distinct:
  assumes "fetch_users (multi_panel ps) w = (w', Some us)"
  shows "distinct (positive_ids us) \<and>
    (\<forall>pan ps' w1 us1. ps = Some pan # ps' \<longrightarrow> fetch_users pan w = (w1, Some us1) \<longrightarrow> distinct (map ID us1)
      \<longrightarrow> list_all (\<lambda>u. 0 < ID u) us1 \<longrightarrow> prefix us1 us)"
proof -
  have m: "multi_fetch_from ps [] [] w = (w', Some us)" using assms by (simp add: multi_panel_def)
  have i: "seen_inv [] []" by (simp add: seen_inv_def)
  have first: "list_all (\<lambda>u. 0 < ID u) us1 \<Longrightarrow> distinct (map ID us1) \<Longrightarrow> set (map ID us1) \<inter> set seen = {} \<Longrightarrow>
      fst (merge_users us1 seen merged) = merged @ us1" for us1 seen merged
    by (induction us1 arbitrary: seen merged) auto
  have "prefix us1 us" if "ps = Some pan # ps'" "fetch_users pan w = (w1, Some us1)" "distinct (map ID us1)"
    "list_all (\<lambda>u. 0 < ID u) us1" for pan ps' w1 us1
  proof -
    obtain m1 s1 where mu: "merge_users us1 [] [] = (m1, s1)" by fastforce
    then have "m1 = us1" using first [OF that(4,3), of "[]" "[]"] by simp
    have f: "multi_fetch_from ps' s1 m1 w1 = (w', Some us)" using m that mu by simp
    have "seen_inv s1 m1" using merge_users_inv [OF mu i] by simp
    from multi_fetch_inv [OF f this] \<open>m1 = us1\<close> show ?thesis by simp
  qed
  then show ?thesis using multi_fetch_inv [OF m i] by blast
qed

definition fixed_panel :: "user list \<Rightarrow> unit panel_ops" where
  "fixed_panel us = \<lparr>fetch_users = (\<lambda>w. (w, Some us)), push_traffic = (\<lambda>d w. (w, True))\<rparr>"

theorem multi_fetch_distinct_witness:
  "\<exists>us. fetch_users (multi_panel [Some (fixed_panel [zero_user\<lparr>ID := 1\<rparr>]), None, Some (fixed_panel [zero_user\<lparr>ID := 1\<rparr>, zero_user\<lparr>ID := 2\<rparr>])]) ()
    = ((), Some us) \<and> distinct (positive_ids us)"
proof -
  let ?ps = "[Some (fixed_panel [zero_user\<lparr>ID := 1\<rparr>]), None, Some (fixed_panel [zero_user\<lparr>ID := 1\<rparr>, zero_user\<lparr>ID := 2\<rparr>])]"
  obtain us where f: "fetch_users (multi_panel ?ps) () = ((), Some us)"
    by (simp add: multi_panel_def fixed_panel_def)
  show ?thesis using multi_fetch_distinct [OF f] f by blast
qed

end
