(* ===== verification/Billing.thy ===== *)
theory Billing
  imports Api Hook Client
begin

text \<open>
  From the agent's counters to the server's: a push of \<^verbatim>\<open>panelapi.Client\<close> that reaches
  \<^verbatim>\<open>tiny-xboard\<close>. The server is the transport whose world is its store and its files;
  the encoding of the query into the URL and back is taken to be exact.
\<close>

section \<open>The server as a transport\<close>

definition read_body :: "string \<Rightarrow> push_body" where
  "read_body body = (if length body \<le> max_push_body_size then BodyRead body
     else if decode_prefix (take max_push_body_size body) \<noteq> None then BodyRead (take max_push_body_size body)
     else BodyTooLarge)"

definition server_request :: "http_request \<Rightarrow> request" where
  "server_request q = \<lparr>rq_method = hr_method q,
     rq_query = (\<lambda>k. case mget (hr_query q) k of None \<Rightarrow> [] | Some v \<Rightarrow> v), rq_body = read_body (hr_body q)\<rparr>"

definition reply :: "response \<Rightarrow> http_result" where
  "reply resp = HttpResponse (rs_status resp) (marshal (rs_body resp) @ [CHR 0x0A])"

definition server_transport :: "string \<Rightarrow> faults \<Rightarrow> int \<Rightarrow> (store \<times> fs) transport" where
  "server_transport base fl mtime q = (\<lambda>(s, fs).
     if take (length base) (hr_url q) \<noteq> base then ((s, fs), HttpError)
     else case routes (drop (length base) (hr_url q)) of
       None \<Rightarrow> ((s, fs), HttpResponse 404 ''404 page not found'')
     | Some UserRoute \<Rightarrow> (case handle_user fl mtime s fs (server_request q) of (s', fs', r) \<Rightarrow> ((s', fs'), reply r))
     | Some ConfigRoute \<Rightarrow> ((s, fs), reply (handle_config s (server_request q)))
     | Some PushRoute \<Rightarrow> (case handle_push False fl mtime s fs (server_request q) of (s', fs', r) \<Rightarrow> ((s', fs'), reply r)))"

section \<open>What the client sends\<close>

definition matched :: "client \<Rightarrow> delta \<Rightarrow> delta" where
  "matched c d = filter (\<lambda>(tag, users). matches_inbound c tag) d"

lemma push_flat_matched: "push_flat c d = flatten (matched c d)"
proof -
  have "fold (\<lambda>(tag, users) out. if \<not> matches_inbound c tag then out else fold flatten_user users out) d out
      = fold (\<lambda>(inbound, users) out. fold flatten_user users out) (matched c d) out" for out
    by (induction d arbitrary: out) (auto simp: matched_def)
  then show ?thesis by (simp add: push_flat_def flatten_def)
qed

lemma wf_matched: "wf_delta d \<Longrightarrow> wf_delta (matched c d)"
  by (auto simp: wf_delta_def matched_def)

lemma wf_flatten_user: "wf_map out \<Longrightarrow> wf_map (fold flatten_user users out)"
  by (induction users arbitrary: out) (auto simp: flatten_user_def split: prod.split)

lemma wf_flatten: "wf_map (flatten d)"
proof -
  have "wf_map out \<Longrightarrow> wf_map (fold (\<lambda>(inbound, users) out. fold flatten_user users out) d out)" for out
    by (induction d arbitrary: out) (auto intro: wf_flatten_user)
  then show ?thesis by (simp add: flatten_def)
qed

text \<open>Ids in the form \<^verbatim>\<open>fmt.Sprint\<close> gives them, as \<^verbatim>\<open>Resolve\<close> produces.\<close>

definition canonical_id :: "string \<Rightarrow> bool" where
  "canonical_id u \<longleftrightarrow> (case atoi u of None \<Rightarrow> False | Some i \<Rightarrow> 0 < i \<and> u = itoa i)"

definition canonical :: "snapshot \<Rightarrow> bool" where
  "canonical m \<longleftrightarrow> list_all canonical_id (keys m)"

lemma canonical_idE:
  assumes "canonical_id u"
  obtains i where "u = itoa i" and "atoi u = Some i" and "0 < i" and "in_int64 i"
  using assms atoi_in_range by (auto simp: canonical_id_def split: option.splits)

lemma payload_canonical:
  assumes "canonical m" and "wf_map m"
  shows "wf_map (push_payload m) \<and> (\<forall>i v. mget (push_payload m) i = Some v \<longrightarrow> 0 < i \<and> in_int64 i)
    \<and> (\<forall>i. in_int64 i \<longrightarrow> mget (push_payload m) i = mget m (itoa i))"
proof -
  have "wf_map p \<Longrightarrow> (\<forall>i v. mget p i = Some v \<longrightarrow> 0 < i \<and> in_int64 i) \<Longrightarrow> canonical m \<Longrightarrow> wf_map m \<Longrightarrow>
      (let q = fold (\<lambda>(user, v) p. case atoi user of None \<Rightarrow> p | Some uid \<Rightarrow> mput uid v p) m p in
        wf_map q \<and> (\<forall>i v. mget q i = Some v \<longrightarrow> 0 < i \<and> in_int64 i)
        \<and> (\<forall>i. in_int64 i \<longrightarrow> mget q i = (case mget m (itoa i) of None \<Rightarrow> mget p i | Some v \<Rightarrow> Some v)))" for p
  proof (induction m arbitrary: p)
    case (Cons x m)
    obtain u v where x: "x = (u, v)" by (cases x)
    have "canonical_id u" using Cons.prems x by (simp add: canonical_def)
    then obtain j where j: "u = itoa j" "atoi u = Some j" "0 < j" "in_int64 j" by (rule canonical_idE)
    have n: "mget m u = None" using Cons.prems(4) x by (simp add: mget_None_iff)
    have p: "wf_map (mput j v p)" "\<forall>i v'. mget (mput j v p) i = Some v' \<longrightarrow> 0 < i \<and> in_int64 i"
      using Cons.prems(1,2) j by (auto simp: mget_mput split: if_splits)
    have m: "canonical m" "wf_map m" using Cons.prems x by (simp_all add: canonical_def)
    have e: "in_int64 i \<Longrightarrow> itoa i = u \<longleftrightarrow> i = j" for i using j itoa_inj_on by auto
    from Cons.IH [OF p m] show ?case using x j n e
      by (auto simp: Let_def mget_mput split: option.splits if_splits)
  qed simp
  from this [of "[]"] assms show ?thesis
    by (auto simp: push_payload_def Let_def split: option.splits)
qed

section \<open>What the server makes of it\<close>

definition sent :: "(int, pair64) gomap \<Rightarrow> (int, pair64) gomap" where
  "sent p = sort_key (\<lambda>x. itoa (fst x)) p"

definition raw_of :: "int \<times> pair64 \<Rightarrow> string \<times> json" where
  "raw_of = (\<lambda>(uid, v). (itoa uid, enc_pair v))"

lemma fst_raw_of: "fst (raw_of x) = itoa (fst x)"
  by (simp add: raw_of_def split: prod.split)

lemma enc_push_sent: "enc_push p = JObj (map raw_of (sent p))"
proof -
  have "sort_key fst (map raw_of p) = map raw_of (sent p)"
    by (simp add: sort_map fst_raw_of sent_def)
  then show ?thesis by (simp add: enc_push_def raw_of_def)
qed

lemma wf_enc_push: "wf_json (enc_push p)"
proof -
  have "wf_json (enc_pair v)" for v by (simp add: enc_pair_def sint_range64)
  then show ?thesis by (auto simp: enc_push_def list_all_iff)
qed

lemma dec_entries_raw: "wf_map (m @ ms) \<Longrightarrow> dec_entries JNull dec_raw ms m = (m @ ms, False)"
  using dec_entries_map [of ms dec_raw "\<lambda>j. j" JNull m] by (simp add: dec_raw_def)

lemma sent_facts:
  assumes "wf_map p"
  shows "wf_map (sent p)" and "mget (sent p) = mget p" and "set (sent p) = set p"
proof -
  show s: "set (sent p) = set p" by (simp add: sent_def)
  show w: "wf_map (sent p)" using assms by (simp add: sent_def distinct_map)
  show "mget (sent p) = mget p" using w assms s by (simp add: map_of_inject_set)
qed

lemma wf_raw:
  assumes "wf_map p" and "list_all in_int64 (keys p)"
  shows "wf_map (map raw_of p)"
proof -
  have "keys (map raw_of p) = map itoa (keys p)" by (simp add: comp_def fst_raw_of)
  moreover have "inj_on itoa (set (keys p))" using assms(2) itoa_inj_on by (auto simp: inj_on_def list_all_iff)
  ultimately show ?thesis using assms(1) distinct_map by metis
qed

lemma dec_push_body:
  assumes "wf_map p" and "list_all in_int64 (keys p)"
  shows "dec_push (push_body p) = (map raw_of (sent p), False)"
proof -
  have "list_all in_int64 (keys (sent p))" using assms(2) by (simp add: list_all_iff sent_facts assms(1))
  then have "wf_map (map raw_of (sent p))" using assms(1) by (intro wf_raw) (simp_all add: sent_facts)
  then show ?thesis
    using wf_enc_push [of p] dec_entries_raw [of "[]" "map raw_of (sent p)"]
    by (simp add: dec_push_def push_body_def decode_prefix_printed enc_push_sent)
qed

lemma compact_raw: "in_int64 (fst x) \<Longrightarrow> compact_amount (raw_of x) = [x]"
  by (cases x) (simp add: compact_amount_def raw_of_def dec_pair_def enc_pair_def atoi_itoa)

lemma itoa_not_traffic: "''traffic'' \<noteq> itoa i"
  using itoa_hd [of i] by (auto simp: is_digit_def)

lemma amounts_of_raw:
  assumes "list_all in_int64 (keys p)"
  shows "push_amounts (map raw_of p) = Some p"
proof -
  have "mget (map raw_of p) ''traffic'' = None"
    unfolding mget_None_iff using itoa_not_traffic by (auto simp: fst_raw_of)
  moreover have "concat (map compact_amount (map raw_of p)) = p"
    using assms by (induction p) (auto simp: compact_raw)
  ultimately show ?thesis by (simp add: push_amounts_def)
qed

lemma pushed_absent:
  assumes "i \<notin> set (keys p)"
  shows "pushed_up s p i = 0 \<and> pushed_down s p i = 0"
proof -
  have "filter (\<lambda>(j, up, down). j = i) (filter (accepted s) p) = []"
    using assms by (force simp: filter_empty_conv)
  then show ?thesis by (simp add: pushed_up_def pushed_down_def)
qed

lemma pushed_distinct:
  "wf_map p \<Longrightarrow> pushed_up s p i = (case mget p i of None \<Rightarrow> 0 | Some v \<Rightarrow> if accepted s (i, v) then fst v else 0)
    \<and> pushed_down s p i = (case mget p i of None \<Rightarrow> 0 | Some v \<Rightarrow> if accepted s (i, v) then snd v else 0)"
proof (induction p)
  case (Cons x p)
  obtain j a b where x: "x = (j, a, b)" by (cases x)
  show ?case
  proof (cases "i = j")
    case True
    then have "i \<notin> set (keys p)" using Cons.prems x by simp
    then show ?thesis using pushed_absent [of i p s] x True by (auto simp: pushed_up_def pushed_down_def)
  next
    case False
    then have "pushed_up s (x # p) i = pushed_up s p i" "pushed_down s (x # p) i = pushed_down s p i"
      using x by (auto simp: pushed_up_def pushed_down_def)
    then show ?thesis using Cons x False by simp
  qed
qed (simp add: pushed_up_def pushed_down_def)

section \<open>A push reaches the books\<close>

definition query_of :: "client \<Rightarrow> string \<Rightarrow> string" where
  "query_of c k = (if k = ''token'' then cl_token c else if k = ''node_id'' then cl_node_id c
     else if k = ''node_type'' then cl_node_type c else [])"

definition credentials :: "client \<Rightarrow> store \<Rightarrow> bool" where
  "credentials c s \<longleftrightarrow> (\<exists>e. authenticate s \<lparr>rq_method = [], rq_query = query_of c, rq_body = BodyTooLarge\<rparr> = Inr e)"

lemma authenticate_query: "rq_query r = rq_query r' \<Longrightarrow> authenticate s r = authenticate s r'"
  by (simp only: authenticate_def)

lemma mget_set_query: "mget (set_query k v q) k' = (if k' = k \<and> v \<noteq> [] then Some v else mget q k')"
  by (simp add: set_query_def mget_mput)

lemma endpoint_query:
  assumes "endpoint c path = Some (url, q)"
  shows "rq_query (server_request \<lparr>hr_method = m, hr_url = url, hr_query = q, hr_body = b\<rparr>) = query_of c"
proof
  fix k
  have q: "q = set_query ''node_type'' (cl_node_type c) (set_query ''node_id'' (cl_node_id c) (set_query ''token'' (cl_token c) []))"
    using assms by (simp add: endpoint_def split: if_splits)
  have "mget q k = (if k = ''node_type'' \<and> cl_node_type c \<noteq> [] then Some (cl_node_type c)
      else if k = ''node_id'' \<and> cl_node_id c \<noteq> [] then Some (cl_node_id c)
      else if k = ''token'' \<and> cl_token c \<noteq> [] then Some (cl_token c) else None)"
    unfolding q mget_set_query by simp
  then show "rq_query (server_request \<lparr>hr_method = m, hr_url = url, hr_query = q, hr_body = b\<rparr>) k = query_of c k"
    by (simp add: server_request_def query_of_def split: option.split)
qed

lemma endpoint_url: "endpoint c path = Some (url, q) \<Longrightarrow> take (length (cl_base c)) url = cl_base c \<and> drop (length (cl_base c)) url = path"
  by (auto simp: endpoint_def split: if_splits)

lemma routes_push: "routes ''/api/v1/server/UniProxy/push'' = Some PushRoute"
  by (simp add: routes_def)

lemma server_push:
  assumes "endpoint c ''/api/v1/server/UniProxy/push'' = Some (url, q)" and "credentials c s"
    and "refresh_users fl mtime s fs = (s1, fs1, err)" and "length b \<le> max_push_body_size"
    and "dec_push b = (raw, False)" and "apply_push s1 raw = (s2, resp)"
  shows "server_transport (cl_base c) fl mtime \<lparr>hr_method = ''POST'', hr_url = url, hr_query = q, hr_body = b\<rparr> (s, fs)
    = ((s2, fs1), reply resp)"
proof -
  let ?r = "server_request \<lparr>hr_method = ''POST'', hr_url = url, hr_query = q, hr_body = b\<rparr>"
  obtain e where "authenticate s ?r = Inr e"
    using assms(2) authenticate_query [of ?r "\<lparr>rq_method = [], rq_query = query_of c, rq_body = BodyTooLarge\<rparr>" s]
      endpoint_query [OF assms(1)] by (auto simp: credentials_def)
  then have "handle_push False fl mtime s fs ?r = (s2, fs1, resp)"
    using assms(3-6) by (simp add: handle_push_def server_request_def read_body_def)
  then show ?thesis using endpoint_url [OF assms(1)] by (simp add: server_transport_def routes_push)
qed

definition billable :: "store \<Rightarrow> int \<Rightarrow> pair64 \<Rightarrow> bool" where
  "billable s i v \<longleftrightarrow> i \<in> set (keys (st_users s)) \<and> 0 \<le> sint (fst v) \<and> 0 \<le> sint (snd v)"

lemma accepted_billable: "accepted s (i, v) = billable s i v"
  by (cases v) (simp add: accepted_def billable_def)

lemma client_push_effect:
  assumes "wf_delta d" and "canonical (push_flat c d)" and "push_flat c d \<noteq> []" and "cl_base c \<noteq> []"
    and "credentials c s" and "refresh_users fl mtime s fs = (s1, fs1, err)"
    and "length (push_body (push_payload (push_flat c d))) \<le> max_push_body_size"
  shows "\<exists>s2. client_push_traffic (server_transport (cl_base c) fl mtime) c d (s, fs) = ((s2, fs1), True)
    \<and> st_users s2 = st_users s1
    \<and> (\<forall>i. in_int64 i \<longrightarrow> (let v = numeric_total (matched c d) (itoa i) in
        upload (traffic_of s2 i) = upload (traffic_of s1 i) + (if billable s1 i v then fst v else 0)
        \<and> download (traffic_of s2 i) = download (traffic_of s1 i) + (if billable s1 i v then snd v else 0)))"
proof -
  let ?flat = "push_flat c d" and ?p = "push_payload (push_flat c d)"
  have wf: "wf_map ?flat" by (simp add: push_flat_matched wf_flatten)
  note p = payload_canonical [OF assms(2) wf]
  obtain u v where "(u, v) \<in> set ?flat" using assms(3) by (cases ?flat) auto
  then have uv: "mget ?flat u = Some v" "canonical_id u"
    using wf assms(2) by (auto simp: canonical_def list_all_iff in_mget)
  then obtain j where "u = itoa j" "in_int64 j" by (auto elim: canonical_idE)
  then have "mget ?p j = Some v" using p uv(1) by simp
  then have ne: "?p \<noteq> []" by auto
  have k: "list_all in_int64 (keys ?p)" using p by (auto simp: list_all_iff dest: in_mget)
  have q: "wf_map (sent ?p)" "list_all in_int64 (keys (sent ?p))"
    using p k by (simp_all add: sent_facts list_all_iff)
  obtain s2 resp where a: "apply_push s1 (map raw_of (sent ?p)) = (s2, resp)" by fastforce
  then obtain n where l: "push_list (sent ?p) (s1, 0) = (s2, n)" "resp = accepted_response n"
    using q(2) by (auto simp: apply_push_amounts amounts_of_raw split: prod.splits)
  obtain url qu where e: "endpoint c ''/api/v1/server/UniProxy/push'' = Some (url, qu)"
    using assms(4) by (simp add: endpoint_def)
  have "client_push_traffic (server_transport (cl_base c) fl mtime) c d (s, fs) = ((s2, fs1), True)"
    using server_push [OF e assms(5,6,7) dec_push_body a] p k assms(3) ne e l(2)
    by (simp add: client_push_traffic_def Let_def reply_def accepted_response_def write_json_def success_def)
  moreover have "let v = numeric_total (matched c d) (itoa i) in
        upload (traffic_of s2 i) = upload (traffic_of s1 i) + (if billable s1 i v then fst v else 0)
        \<and> download (traffic_of s2 i) = download (traffic_of s1 i) + (if billable s1 i v then snd v else 0)"
    if "in_int64 i" for i
  proof -
    have "mget (sent ?p) i = mget ?flat (itoa i)" using p that by (simp add: sent_facts)
    moreover have "reported ?flat (itoa i) = numeric_total (matched c d) (itoa i)"
      using wf_matched [OF assms(1)] by (simp add: push_flat_matched reported_flatten)
    then have "numeric_total (matched c d) (itoa i) = (case mget ?flat (itoa i) of None \<Rightarrow> (0, 0) | Some v \<Rightarrow> v)"
      unfolding reported_def pzero_def by (rule sym)
    ultimately show ?thesis using push_list_effect [OF l(1), of i] pushed_distinct [OF q(1), of s1 i]
      by (simp add: Let_def accepted_billable split: option.split)
  qed
  moreover have "st_users s2 = st_users s1" using push_list_effect [OF l(1)] by simp
  ultimately show ?thesis by blast
qed

text \<open>C14. A push of the agent's client that reaches the server raises each current user's counters by
  exactly the user's total over the inbounds of the client's node type, and the client learns that
  it succeeded. It needs valid credentials, ids in the form the agent resolves them to, and a body
  within the server's limit of 256 KB.\<close>

theorem push_bills_server:
  assumes "wf_delta d" and "canonical (push_flat c d)" and "push_flat c d \<noteq> []" and "cl_base c \<noteq> []"
    and "credentials c s" and "refresh_users fl mtime s fs = (s1, fs1, err)"
    and "length (push_body (push_payload (push_flat c d))) \<le> max_push_body_size"
    and "in_int64 i" and "billable s1 i (numeric_total (matched c d) (itoa i))"
  shows "\<exists>s2. push_traffic (client_panel (server_transport (cl_base c) fl mtime) c) d (s, fs) = ((s2, fs1), True)
    \<and> upload (traffic_of s2 i) = upload (traffic_of s1 i) + fst (numeric_total (matched c d) (itoa i))
    \<and> download (traffic_of s2 i) = download (traffic_of s1 i) + snd (numeric_total (matched c d) (itoa i))"
proof -
  from client_push_effect [OF assms(1-7)] obtain s2 where
    s2: "client_push_traffic (server_transport (cl_base c) fl mtime) c d (s, fs) = ((s2, fs1), True)"
    and eff: "\<forall>i. in_int64 i \<longrightarrow> (let v = numeric_total (matched c d) (itoa i) in
        upload (traffic_of s2 i) = upload (traffic_of s1 i) + (if billable s1 i v then fst v else 0)
        \<and> download (traffic_of s2 i) = download (traffic_of s1 i) + (if billable s1 i v then snd v else 0))" by blast
  have "upload (traffic_of s2 i) = upload (traffic_of s1 i) + fst (numeric_total (matched c d) (itoa i))
    \<and> download (traffic_of s2 i) = download (traffic_of s1 i) + snd (numeric_total (matched c d) (itoa i))"
    using eff [rule_format, OF assms(8)] assms(9) by (simp add: Let_def)
  with s2 show ?thesis by (simp add: client_panel_def)
qed

definition demo_client :: client where
  "demo_client = new_client ''http://p/'' ''t'' ''3'' ''hy2''"

definition demo_delta :: delta where
  "demo_delta = [(''hy2-in'', [(''1'', (3, 4))]), (''vless-in'', [(''1'', (9, 9))])]"

lemma hy2_lower: "to_lower ''hy2'' = ''hy2''"
  by (simp add: to_lower_def lower_char_def)

lemma demo_client_simps: "cl_base demo_client = ''http://p''" "cl_token demo_client = ''t''"
    "cl_node_id demo_client = ''3''" "cl_node_type demo_client = ''hy2''"
  by (simp_all add: demo_client_def new_client_def trim_right_slash_def)

lemma demo_matched: "matched demo_client demo_delta = [(''hy2-in'', [(''1'', (3, 4))])]"
  by (simp add: matched_def demo_delta_def matches_inbound_def demo_client_simps hy2_lower)

lemma demo_flat: "push_flat demo_client demo_delta = [(''1'', (3, 4))]"
  by (simp add: push_flat_matched demo_matched flatten_def flatten_user_def is_numeric_user_def is_digit_def
      reported_def padd_def pzero_def)

lemma demo_payload: "push_payload [(''1'', (3, 4))] = [(1, (3, 4))]"
  by (simp add: push_payload_def atoi_eval)

lemma demo_body: "length (push_body [(1, (3, 4))]) \<le> max_push_body_size"
  by (simp add: push_body_def enc_push_def enc_pair_def max_push_body_size_def print_simps)

lemma demo_credentials: "credentials demo_client single_node"
proof -
  have "admits single_node \<lparr>rq_method = [], rq_query = query_of demo_client, rq_body = BodyTooLarge\<rparr> hy2_entry"
    using hysteria2_type
    by (simp add: admits_def query_of_def demo_client_simps single_node_def hy2_store_def hy2_entry_def zero_entry_def atoi_eval)
  moreover have "distinct (map ne_id (st_nodes single_node))" by (simp add: single_node_def hy2_store_def)
  ultimately show ?thesis using authenticate_admits by (auto simp: credentials_def)
qed

theorem push_bills_server_witness:
  "\<exists>s2. push_traffic (client_panel (server_transport ''http://p'' no_faults 0) demo_client) demo_delta (single_node, \<lambda>_. None)
      = ((s2, \<lambda>_. None), True) \<and> upload (traffic_of s2 1) = upload (traffic_of single_node 1) + 3"
proof -
  have u: "is_numeric_user ''1''" by (simp add: is_numeric_user_def is_digit_def)
  have i: "itoa 1 = ''1''" by code_simp
  have n: "numeric_total (matched demo_client demo_delta) (itoa 1) = (3, 4)"
    by (simp add: i demo_matched reported_def u pzero_def padd_def)
  have "wf_delta demo_delta" by (simp add: wf_delta_def demo_delta_def)
  moreover have "canonical (push_flat demo_client demo_delta)"
    by (simp add: canonical_def demo_flat canonical_id_def atoi_eval i)
  moreover have "refresh_users no_faults 0 single_node (\<lambda>_. None) = (single_node, \<lambda>_. None, None)"
    by (simp add: refresh_users_def)
  moreover have "in_int64 1" by (simp add: in_int64_def min_int64_def max_int64_def)
  moreover have "billable single_node 1 (numeric_total (matched demo_client demo_delta) (itoa 1))"
    unfolding n by (simp add: billable_def single_node_def demo_store_def)
  ultimately show ?thesis
    using push_bills_server [of demo_delta demo_client single_node no_faults 0 "\<lambda>_. None" single_node "\<lambda>_. None" None 1]
      demo_credentials demo_body n by (simp add: demo_flat demo_payload demo_client_simps) blast
qed

end
