(* ===== verification/Conservation.thy ===== *)
theory Conservation
  imports Billing
begin

text \<open>
  The accounting of agent and server together: no byte is lost and none is billed twice when one
  panel serves one inbound, and the two situations in which that fails.
\<close>

section \<open>One inbound, one panel\<close>

lemma hook_single_delta:
  assumes "wf_hook [(t, cnt)]" and "matches_inbound c t" and "is_numeric_user u"
  shows "numeric_total (matched c (hook_snapshot_delta [(t, cnt)])) u = reported_at (hook_snapshot_delta [(t, cnt)]) t u"
  using assms by (auto simp: hook_snapshot_delta_def matched_def reported_at_def reported_def)

lemma has_traffic_flat:
  assumes "push_flat c d \<noteq> []"
  shows "has_traffic d"
proof (rule ccontr)
  assume "\<not> has_traffic d"
  then have n: "list_all (\<lambda>(t, users). list_all (\<lambda>(u, v). \<not> is_numeric_user u) users) d"
    by (auto simp: has_traffic_def list_ex_iff list_all_iff)
  have id: "list_all (\<lambda>(u, v). \<not> is_numeric_user u) users \<Longrightarrow> fold flatten_user users out = out" for users out
    by (induction users arbitrary: out) (auto simp: flatten_user_def)
  have "list_all (\<lambda>(t, users). list_all (\<lambda>(u, v). \<not> is_numeric_user u) users) d' \<Longrightarrow>
      fold (\<lambda>(inbound, users) out. fold flatten_user users out) d' out = out" for d' out
    by (induction d' arbitrary: out) (auto simp: id)
  moreover have "list_all (\<lambda>(t, users). list_all (\<lambda>(u, v). \<not> is_numeric_user u) users) (matched c d)"
    using n by (auto simp: matched_def list_all_iff)
  ultimately have "flatten (matched c d) = []" by (simp add: flatten_def)
  with assms show False by (simp add: push_flat_matched)
qed

lemma flush_conserves:
  assumes "wf_hook [(t, cnt)]" and "matches_inbound c t" and "mget (counters cnt) (itoa i) = Some a"
    and "is_numeric_user (itoa i)" and "in_int64 i"
    and "snapshot_cb sy = Some hook_snapshot_delta" and "commit_cb sy = Some hook_commit"
    and "panel sy = Some (client_panel (server_transport (cl_base c) fl mtime) c)"
    and "canonical (push_flat c (hook_snapshot_delta [(t, cnt)]))" and "push_flat c (hook_snapshot_delta [(t, cnt)]) \<noteq> []"
    and "cl_base c \<noteq> []" and "credentials c s" and "refresh_users fl mtime s fs = (s1, fs1, err)"
    and "length (push_body (push_payload (push_flat c (hook_snapshot_delta [(t, cnt)])))) \<le> max_push_body_size"
    and "billable s1 i (reported_at (hook_snapshot_delta [(t, cnt)]) t (itoa i))"
    and "flush sy (hook_run evs) ((s, fs), [(t, cnt)]) = ((s2, fs2), h')"
  shows "padd (upload (traffic_of s2 i), download (traffic_of s2 i)) (hook_pending h' t (itoa i))
    = padd (padd (upload (traffic_of s1 i), download (traffic_of s1 i)) (hook_pending [(t, cnt)] t (itoa i)))
        (traffic_at a (tag_events t evs))"
proof -
  let ?h = "[(t, cnt)]" and ?d = "hook_snapshot_delta [(t, cnt)]" and ?u = "itoa i"
  have tr: "has_traffic ?d" using has_traffic_flat assms(10) by blast
  have n: "numeric_total (matched c ?d) ?u = reported_at ?d t ?u"
    by (rule hook_single_delta [OF assms(1,2,4)])
  obtain s3 where s3: "push_traffic (client_panel (server_transport (cl_base c) fl mtime) c) ?d (s, fs) = ((s3, fs1), True)"
    and up: "upload (traffic_of s3 i) = upload (traffic_of s1 i) + fst (reported_at ?d t ?u)"
      "download (traffic_of s3 i) = download (traffic_of s1 i) + snd (reported_at ?d t ?u)"
    using client_push_effect [OF wf_hook_delta [OF assms(1)] assms(9,10,11,12,13,14)] assms(5,15) n
    by (fastforce simp: client_panel_def Let_def)
  have pl: "hs.plugged sy" using assms(6,7) by (simp add: hs.plugged_def)
  have "hook_pending h' t ?u = psub (hook_pending (hook_run evs ?h) t ?u) (reported_at ?d t ?u)"
    using hs.flush_pend [OF assms(1) hook_run_carries pl assms(8) tr, of evs "(s, fs)" t ?u] s3 assms(4,16) by simp
  moreover have "hook_pending (hook_run evs ?h) t ?u = padd (hook_pending ?h t ?u) (traffic_at a (tag_events t evs))"
    using hook_pending_run [OF assms(1) _ assms(3)] by simp
  moreover have "?d \<noteq> []" using tr by (auto simp: has_traffic_def)
  then have "s2 = s3" using assms(6-8,16) s3 tr by (simp add: flush_def Let_def)
  ultimately show ?thesis using up by (simp add: padd_def psub_def)
qed

text \<open>Traffic is conserved from the agent's sockets to the server's books: over one flush, what
  the server has booked for a user plus what the agent still has pending grows by exactly the bytes
  that passed meanwhile, modulo \<open>2 ^ 64\<close>.\<close>

theorem traffic_conserved:
  assumes "wf_hook [(t, cnt)]" and "matches_inbound c t" and "mget (counters cnt) (itoa i) = Some a"
    and "is_numeric_user (itoa i)" and "in_int64 i"
    and "snapshot_cb sy = Some hook_snapshot_delta" and "commit_cb sy = Some hook_commit"
    and "panel sy = Some (client_panel (server_transport (cl_base c) fl mtime) c)"
    and "canonical (push_flat c (hook_snapshot_delta [(t, cnt)]))" and "push_flat c (hook_snapshot_delta [(t, cnt)]) \<noteq> []"
    and "cl_base c \<noteq> []" and "credentials c s" and "refresh_users fl mtime s fs = (s1, fs1, err)"
    and "length (push_body (push_payload (push_flat c (hook_snapshot_delta [(t, cnt)])))) \<le> max_push_body_size"
    and "billable s1 i (reported_at (hook_snapshot_delta [(t, cnt)]) t (itoa i))"
    and "flush sy (hook_run evs) ((s, fs), [(t, cnt)]) = ((s2, fs2), h')"
  shows "padd (upload (traffic_of s2 i), download (traffic_of s2 i)) (hook_pending h' t (itoa i))
    = padd (padd (upload (traffic_of s1 i), download (traffic_of s1 i)) (hook_pending [(t, cnt)] t (itoa i)))
        (traffic_at a (tag_events t evs))"
  by (rule flush_conserves [OF assms])

definition hy2_counter :: tcounter where
  "hy2_counter = \<lparr>heap = [\<lparr>up_counter = 7, down_counter = 4, committed_up = 4, committed_down = 0\<rparr>],
     counters = [(''1'', 0)]\<rparr>"

definition hy2_syncer :: "(store \<times> fs, hook) syncer" where
  "hy2_syncer = \<lparr>panel = Some (client_panel (server_transport ''http://p'' no_faults 0) demo_client),
     snapshot_cb = Some hook_snapshot_delta, commit_cb = Some hook_commit, users_cb = None, every = 0\<rparr>"

lemma hy2_delta: "hook_snapshot_delta [(''hy2-in'', hy2_counter)] = [(''hy2-in'', [(''1'', (3, 4))])]"
  by (simp add: hook_snapshot_delta_def snapshot_delta_def hy2_counter_def storage_delta_def has_delta_def pos64_def)

theorem traffic_conserved_witness:
  "\<exists>s2 fs2 h'. flush hy2_syncer (hook_run [HRecv ''hy2-in'' 0 5]) ((single_node, \<lambda>_. None), [(''hy2-in'', hy2_counter)]) = ((s2, fs2), h')
     \<and> padd (upload (traffic_of s2 1), download (traffic_of s2 1)) (hook_pending h' ''hy2-in'' ''1'') = (8, 4)"
proof -
  let ?h = "[(''hy2-in'', hy2_counter)]"
  have i: "''1'' = itoa 1" by code_simp
  have u: "is_numeric_user ''1''" by (simp add: is_numeric_user_def is_digit_def)
  obtain s2 fs2 h' where f: "flush hy2_syncer (hook_run [HRecv ''hy2-in'' 0 5]) ((single_node, \<lambda>_. None), ?h) = ((s2, fs2), h')"
    by (metis prod.exhaust)
  have "wf_hook ?h" by (simp add: wf_hook_def wf_counter_def hy2_counter_def)
  moreover have "matches_inbound demo_client ''hy2-in''"
    by (simp add: matches_inbound_def demo_client_simps hy2_lower)
  moreover have "mget (counters hy2_counter) (itoa 1) = Some 0" by (simp add: hy2_counter_def i [symmetric])
  moreover have fl: "push_flat demo_client (hook_snapshot_delta ?h) = [(''1'', (3, 4))]"
    using calculation(2) by (simp add: hy2_delta push_flat_def flatten_user_def u reported_def padd_def pzero_def)
  moreover have "canonical (push_flat demo_client (hook_snapshot_delta ?h))"
    unfolding fl by (simp add: canonical_def canonical_id_def atoi_eval i [symmetric])
  moreover have "refresh_users no_faults 0 single_node (\<lambda>_. None) = (single_node, \<lambda>_. None, None)"
    by (simp add: refresh_users_def)
  moreover have "billable single_node 1 (reported_at (hook_snapshot_delta ?h) ''hy2-in'' (itoa 1))"
    by (simp add: hy2_delta i [symmetric] reported_at_def reported_def billable_def single_node_def demo_store_def)
  ultimately have "padd (upload (traffic_of s2 1), download (traffic_of s2 1)) (hook_pending h' ''hy2-in'' (itoa 1))
      = padd (padd (upload (traffic_of single_node 1), download (traffic_of single_node 1)) (hook_pending ?h ''hy2-in'' (itoa 1)))
          (traffic_at 0 (tag_events ''hy2-in'' [HRecv ''hy2-in'' 0 5]))"
    using u demo_credentials demo_body
    by (intro traffic_conserved [OF _ _ _ _ _ _ _ _ _ _ _ _ _ _ _ f, where c = demo_client])
      (simp_all add: i [symmetric] demo_payload demo_client_simps hy2_syncer_def in_int64_def min_int64_def max_int64_def)
  moreover have "hook_pending ?h ''hy2-in'' ''1'' = (3, 4)"
    by (simp add: hook_pending_def pending_def hy2_counter_def storage_delta_def)
  moreover have "traffic_of single_node 1 = zero_traffic"
    by (simp add: traffic_of_def single_node_def hy2_store_def empty_store_def)
  ultimately show ?thesis using f
    by (simp add: i [symmetric] zero_traffic_def tag_events_def padd_def) (simp add: pzero_def)
qed

section \<open>Where it fails\<close>

text \<open>C33. Traffic of an inbound that no panel matches vanishes: the client sends nothing, reports
  success, and the synchroniser commits the delta, so the bytes are never billed.\<close>

theorem unmatched_inbound_lost:
  assumes "wf_hook h" and "snapshot_cb sy = Some hook_snapshot_delta" and "commit_cb sy = Some hook_commit"
    and "panel sy = Some (client_panel tr c)" and "has_traffic (hook_snapshot_delta h)"
    and "list_all (\<lambda>(t, users). \<not> matches_inbound c t) (hook_snapshot_delta h)"
    and "is_numeric_user u" and "has_delta (hook_pending h t u)"
    and "flush sy (\<lambda>h. h) (w, h) = (w', h')"
  shows "w' = w \<and> hook_pending h' t u = pzero"
proof -
  have "matched c (hook_snapshot_delta h) = []"
    using assms(6) by (auto simp: matched_def filter_empty_conv list_all_iff)
  then have p: "push_traffic (client_panel tr c) (hook_snapshot_delta h) w = (w, True)"
    by (simp add: client_panel_def client_push_traffic_def push_flat_matched flatten_def)
  have pl: "hs.plugged sy" using assms(2,3) by (simp add: hs.plugged_def)
  have c: "hs.carries (\<lambda>h. h)" by (simp add: hs.carries_def)
  have "hook_pending h' t u = psub (hook_pending h t u) (reported_at (hook_snapshot_delta h) t u)"
    using hs.flush_pend [OF assms(1) c pl assms(4,5), of w t u] p assms(7,9) by simp
  then have "hook_pending h' t u = pzero" using reported_at_hook_delta [OF assms(1)] assms(8) by simp
  moreover have "hook_snapshot_delta h \<noteq> []" using assms(5) by (auto simp: has_traffic_def)
  then have "w' = w" using assms(2-5,9) p by (simp add: flush_def Let_def)
  ultimately show ?thesis by simp
qed

theorem unmatched_inbound_lost_witness:
  "\<exists>h'. flush (demo_syncer\<lparr>panel := Some (client_panel (\<lambda>q n. (Suc n, HttpError)) demo_client)\<rparr>) (\<lambda>h. h) (0 :: nat, demo_hook) = (0, h')
     \<and> hook_pending h' ''vless-in'' ''7'' = pzero"
proof -
  let ?sy = "demo_syncer\<lparr>panel := Some (client_panel (\<lambda>q n. (Suc n, HttpError)) demo_client)\<rparr>"
  obtain w' h' where f: "flush ?sy (\<lambda>h. h) (0 :: nat, demo_hook) = (w', h')" by fastforce
  have m: "\<not> matches_inbound demo_client ''vless-in''"
    by (simp add: matches_inbound_def demo_client_simps hy2_lower)
  then have u: "list_all (\<lambda>(t, users). \<not> matches_inbound demo_client t) (hook_snapshot_delta demo_hook)"
    by (simp add: hook_snapshot_delta_def demo_hook_def)
  have d: "has_delta (hook_pending demo_hook ''vless-in'' ''7'')"
    unfolding demo_hook_facts by (simp add: has_delta_def pos64_def)
  have "w' = 0 \<and> hook_pending h' ''vless-in'' ''7'' = pzero"
    by (rule unmatched_inbound_lost [OF demo_hook_facts(1) _ _ _ demo_hook_facts(2) u demo_hook_facts(3) d f])
      (simp_all add: demo_syncer_def)
  with f show ?thesis by blast
qed

text \<open>C34. Two panels can bill twice: when the first accepts a push and the second refuses it, nothing
  is committed, and the next flush sends the same delta to the first panel again.\<close>

theorem multi_push_bills_twice:
  assumes "snapshot_cb sy = Some hook_snapshot_delta" and "commit_cb sy = Some hook_commit"
    and "panel sy = Some (multi_panel [Some p1, Some p2])" and "has_traffic (hook_snapshot_delta h)"
    and "\<forall>d w. push_traffic p1 d w = (f d w, True)" and "\<forall>d w. push_traffic p2 d w = (w, False)"
  shows "flush sy (\<lambda>h. h) (flush sy (\<lambda>h. h) (w, h))
    = (f (hook_snapshot_delta h) (f (hook_snapshot_delta h) w), h)"
proof -
  have "hook_snapshot_delta h \<noteq> []" using assms(4) by (auto simp: has_traffic_def)
  then have "flush sy (\<lambda>h. h) (w, h) = (f (hook_snapshot_delta h) w, h)" for w
    using assms by (simp add: flush_def Let_def multi_panel_def)
  then show ?thesis by simp
qed

theorem multi_push_bills_twice_witness:
  "flush (demo_syncer\<lparr>panel := Some (multi_panel [Some demo_panel, Some (demo_panel\<lparr>push_traffic := (\<lambda>d n. (n, False))\<rparr>)])\<rparr>) (\<lambda>h. h)
     (flush (demo_syncer\<lparr>panel := Some (multi_panel [Some demo_panel, Some (demo_panel\<lparr>push_traffic := (\<lambda>d n. (n, False))\<rparr>)])\<rparr>) (\<lambda>h. h) (0, demo_hook))
   = (2, demo_hook)"
  using multi_push_bills_twice [of "demo_syncer\<lparr>panel := Some (multi_panel [Some demo_panel, Some (demo_panel\<lparr>push_traffic := (\<lambda>d n. (n, False))\<rparr>)])\<rparr>"
      demo_panel "demo_panel\<lparr>push_traffic := (\<lambda>d n. (n, False))\<rparr>" demo_hook "\<lambda>d. Suc" 0] demo_hook_facts(2)
  by (simp add: demo_syncer_def demo_panel_def)

end
