(* ===== verification/Float64.thy ===== *)
theory Float64
  imports Complex_Main Prelude "HOL-Library.Log_Nat"
begin

text \<open>
  Go's \<^verbatim>\<open>float64\<close> on the values the rate limiter computes: finite numbers, far from
  overflow and underflow. A float is the rational number it denotes, and each operation is the
  exact one followed by \<open>fl\<close>, rounding to 53 significant bits, ties to even. The locale
  \<open>rounding\<close> is what the limiter's lemmas need of \<open>fl\<close>.
\<close>

section \<open>The contract of a rounding\<close>

locale rounding =
  fixes rnd :: "rat \<Rightarrow> rat" and unit_error :: rat
  assumes rnd_mono: "x \<le> y \<Longrightarrow> rnd x \<le> rnd y"
    and rnd_idem: "rnd (rnd x) = rnd x"
    and rnd_zero: "rnd 0 = 0"
    and rnd_error: "\<bar>rnd x - x\<bar> \<le> unit_error * \<bar>x\<bar>"
    and unit_error_nonneg: "0 \<le> unit_error"
begin

definition exact :: "rat \<Rightarrow> bool" where
  "exact x \<longleftrightarrow> rnd x = x"

lemma exact_rnd: "exact (rnd x)"
  by (simp add: exact_def rnd_idem)

lemma rnd_le_exact: "exact b \<Longrightarrow> x \<le> b \<Longrightarrow> rnd x \<le> b"
  using rnd_mono [of x b] by (simp add: exact_def)

lemma rnd_ge_exact: "exact b \<Longrightarrow> b \<le> x \<Longrightarrow> b \<le> rnd x"
  using rnd_mono [of b x] by (simp add: exact_def)

lemma rnd_nonneg: "0 \<le> x \<Longrightarrow> 0 \<le> rnd x"
  using rnd_mono [of 0 x] by (simp add: rnd_zero)

text \<open>Taking a non-negative amount from an exact number never raises it.\<close>

lemma rnd_sub_le: "exact t \<Longrightarrow> 0 \<le> n \<Longrightarrow> rnd (t - n) \<le> t"
  by (rule rnd_le_exact) auto

lemma rnd_error_below:
  assumes "0 \<le> x" and "x \<le> b"
  shows "rnd x \<le> x + unit_error * b"
proof -
  have "unit_error * x \<le> unit_error * b" using assms unit_error_nonneg by (intro mult_left_mono)
  then show ?thesis using rnd_error [of x] assms by (simp add: abs_le_iff)
qed

lemma rnd_upper: "0 \<le> x \<Longrightarrow> rnd x \<le> (1 + unit_error) * x"
  using rnd_error [of x] by (simp add: abs_le_iff distrib_right)

lemma rnd_lower: "0 \<le> x \<Longrightarrow> (1 - unit_error) * x \<le> rnd x"
  using rnd_error [of x] by (simp add: abs_le_iff left_diff_distrib)

text \<open>Adding and then limiting to an exact bound overshoots the exact sum by at most one rounding
  error of the bound.\<close>

lemma rnd_limited:
  assumes "exact b" and "0 \<le> x" and "0 \<le> b"
  shows "min (rnd x) b \<le> x + unit_error * b"
proof (cases "x \<le> b")
  case True
  then show ?thesis using rnd_error_below [OF assms(2) True] by simp
next
  case False
  moreover have "0 \<le> unit_error * b" using assms(3) unit_error_nonneg by simp
  ultimately show ?thesis by linarith
qed

text \<open>The same with a debt of at most \<open>d\<close>.\<close>

lemma rnd_limited_debt:
  assumes "exact b" and "0 \<le> b" and "0 \<le> d" and "- d \<le> x"
  shows "min (rnd x) b \<le> x + unit_error * (b + d)"
proof (cases "0 \<le> x")
  case True
  have "unit_error * b \<le> unit_error * (b + d)" using assms unit_error_nonneg by (intro mult_left_mono) simp_all
  then show ?thesis using rnd_limited [OF assms(1) True assms(2)] by linarith
next
  case False
  then have "unit_error * \<bar>x\<bar> \<le> unit_error * (b + d)" using assms unit_error_nonneg by (intro mult_left_mono) simp_all
  then show ?thesis using rnd_error [of x] by linarith
qed

lemma rnd_charge:
  assumes "0 \<le> b" and "0 \<le> d" and "- d \<le> t" and "t \<le> b" and "0 \<le> n" and "n \<le> b"
  shows "rnd (t - n) \<le> t - n + unit_error * (b + d)"
proof -
  have "unit_error * \<bar>t - n\<bar> \<le> unit_error * (b + d)" using assms unit_error_nonneg by (intro mult_left_mono) auto
  then show ?thesis using rnd_error [of "t - n"] by linarith
qed

end

section \<open>Rounding to 53 bits\<close>

definition round_half_even :: "rat \<Rightarrow> int" where
  "round_half_even x = (let r = \<lfloor>x\<rfloor>; d = x - of_int r in
     if d < 1 / 2 then r else if 1 / 2 < d then r + 1 else if even r then r else r + 1)"

definition exponent_of :: "rat \<Rightarrow> int" where
  "exponent_of x = (let (p, q) = quotient_of x;
     e = int (floorlog 2 (nat p)) - int (floorlog 2 (nat q))
     in if 2 powi e \<le> x then e else e - 1)"

definition ulp :: "rat \<Rightarrow> rat" where
  "ulp x = 2 powi (exponent_of x - 52)"

definition fl_pos :: "rat \<Rightarrow> rat" where
  "fl_pos x = of_int (round_half_even (x / ulp x)) * ulp x"

definition fl :: "rat \<Rightarrow> rat" where
  "fl x = (if x = 0 then 0 else if 0 < x then fl_pos x else - fl_pos (- x))"

lemma rhe_cases: "round_half_even x = \<lfloor>x\<rfloor> \<or> round_half_even x = \<lfloor>x\<rfloor> + 1"
  by (simp add: round_half_even_def Let_def)

lemma rhe_int [simp]: "round_half_even (of_int i) = i"
  by (simp add: round_half_even_def)

lemma rhe_error: "\<bar>of_int (round_half_even x) - x\<bar> \<le> 1 / 2"
  by (auto simp: round_half_even_def Let_def abs_if field_simps) linarith+

lemma rhe_mono:
  assumes "x \<le> y"
  shows "round_half_even x \<le> round_half_even y"
proof (cases "\<lfloor>x\<rfloor> = \<lfloor>y\<rfloor>")
  case True
  then show ?thesis using assms by (auto simp: round_half_even_def Let_def)
next
  case False
  then have "\<lfloor>x\<rfloor> + 1 \<le> \<lfloor>y\<rfloor>" using floor_mono [OF assms] by simp
  then show ?thesis using rhe_cases [of x] rhe_cases [of y] by auto
qed

lemma floorlog_rat:
  assumes "0 < n"
  shows "(2 :: rat) powi (int (floorlog 2 n) - 1) \<le> of_nat n \<and> (of_nat n :: rat) < 2 powi int (floorlog 2 n)"
proof -
  let ?a = "floorlog 2 n"
  have f: "2 ^ (?a - 1) \<le> n" "n < 2 ^ ?a" using floorlog_bounds [of n 2] assms by simp_all
  have "?a \<noteq> 0" using f(2) assms by (intro notI) simp
  then have a: "int ?a - 1 = int (?a - 1)" by simp
  have "(of_nat (2 ^ (?a - 1)) :: rat) \<le> of_nat n" using f(1) by (simp only: of_nat_le_iff)
  moreover have "(of_nat n :: rat) < of_nat (2 ^ ?a)" using f(2) by (simp only: of_nat_less_iff)
  ultimately show ?thesis by (simp add: a)
qed

lemma exponent_bounds:
  assumes "0 < x"
  shows "2 powi exponent_of x \<le> x \<and> x < 2 powi (exponent_of x + 1)"
proof -
  obtain p q where pq: "quotient_of x = (p, q)" by fastforce
  have q: "0 < q" and x: "x = of_int p / of_int q"
    using pq quotient_of_denom_pos quotient_of_div by blast+
  then have p: "0 < p" using assms by (simp add: zero_less_divide_iff)
  define a b where "a = int (floorlog 2 (nat p))" and "b = int (floorlog 2 (nat q))"
  have P: "(2 :: rat) powi (a - 1) \<le> of_int p" "(of_int p :: rat) < 2 powi a"
    using floorlog_rat [of "nat p"] p by (simp_all add: a_def)
  have Q: "(2 :: rat) powi (b - 1) \<le> of_int q" "(of_int q :: rat) < 2 powi b"
    using floorlog_rat [of "nat q"] q by (simp_all add: b_def)
  have e: "exponent_of x = (if 2 powi (a - b) \<le> x then a - b else a - b - 1)"
    by (simp add: exponent_of_def pq a_def b_def Let_def)
  have qp: "(0 :: rat) < of_int q" using q by simp
  have "(2 :: rat) powi (a - b - 1) * of_int q \<le> 2 powi (a - b - 1) * 2 powi b"
    using Q(2) by (intro mult_left_mono) simp_all
  also have "\<dots> = 2 powi (a - 1)" by (simp flip: power_int_add)
  also have "\<dots> \<le> of_int p" by (rule P(1))
  finally have lo: "2 powi (a - b - 1) \<le> x" using qp by (simp add: x pos_le_divide_eq)
  have "(of_int p :: rat) < 2 powi a" by (rule P(2))
  also have "(2 :: rat) powi a = 2 powi (a - b + 1) * 2 powi (b - 1)" by (simp flip: power_int_add)
  also have "\<dots> \<le> 2 powi (a - b + 1) * of_int q" using Q(1) by (intro mult_left_mono) simp_all
  finally have hi: "x < 2 powi (a - b + 1)" using qp by (simp add: x pos_divide_less_eq)
  show ?thesis using lo hi by (simp add: e)
qed

lemma powi_less:
  assumes "(2 :: rat) powi a < 2 powi b"
  shows "a < b"
proof (rule ccontr)
  assume "\<not> a < b"
  then have "(2 :: rat) powi b \<le> 2 powi a" by (intro power_int_increasing) simp_all
  then show False using assms by simp
qed

lemma exponent_unique:
  assumes "2 powi e \<le> x" and "x < 2 powi (e + 1)"
  shows "exponent_of x = e"
proof -
  have "(0 :: rat) < 2 powi e" by simp
  then have pos: "0 < x" using assms(1) by linarith
  note b = exponent_bounds [OF pos]
  have "(2 :: rat) powi e < 2 powi (exponent_of x + 1)" "(2 :: rat) powi exponent_of x < 2 powi (e + 1)"
    using assms b by linarith+
  then have "e < exponent_of x + 1" "exponent_of x < e + 1" by (auto dest: powi_less)
  then show ?thesis by simp
qed

lemma exponent_mono:
  assumes "0 < x" and "x \<le> y"
  shows "exponent_of x \<le> exponent_of y"
proof -
  have "(2 :: rat) powi exponent_of x < 2 powi (exponent_of y + 1)"
    using exponent_bounds [of x] exponent_bounds [of y] assms by linarith
  then have "exponent_of x < exponent_of y + 1" by (rule powi_less)
  then show ?thesis by simp
qed

lemma powi_pos: "0 < (2 :: rat) powi e"
  by simp

lemma powi_split: "(2 :: rat) powi (e + int n) = 2 ^ n * 2 powi e"
  by (simp add: power_int_add)

lemma ulp_pos: "0 < ulp x"
  by (simp add: ulp_def)

lemma exponent_ulp: "2 powi exponent_of x = 2 ^ 52 * ulp x" "2 powi (exponent_of x + 1) = 2 ^ 53 * ulp x"
  using powi_split [of "exponent_of x - 52" 52] powi_split [of "exponent_of x - 52" 53]
  by (simp_all add: ulp_def add.commute)

lemma mantissa_bounds:
  assumes "0 < x"
  shows "2 ^ 52 \<le> x / ulp x \<and> x / ulp x < 2 ^ 53"
  using exponent_bounds [OF assms] ulp_pos [of x] unfolding exponent_ulp
  by (simp add: pos_le_divide_eq pos_divide_less_eq del: power_numeral)

lemma rhe_bounds:
  assumes "2 ^ 52 \<le> x" and "x < 2 ^ 53"
  shows "2 ^ 52 \<le> round_half_even x \<and> round_half_even x \<le> 2 ^ 53"
  using rhe_mono [OF assms(1)] rhe_mono [OF less_imp_le [OF assms(2)]] rhe_int [of "2 ^ 52"] rhe_int [of "2 ^ 53"]
  by simp

lemma fl_pos_bounds:
  assumes "0 < x"
  shows "2 powi exponent_of x \<le> fl_pos x \<and> fl_pos x \<le> 2 powi (exponent_of x + 1)"
proof -
  have "2 ^ 52 \<le> round_half_even (x / ulp x) \<and> round_half_even (x / ulp x) \<le> 2 ^ 53"
    using mantissa_bounds [OF assms] rhe_bounds by blast
  then have "(of_int (2 ^ 52) :: rat) \<le> of_int (round_half_even (x / ulp x))
      \<and> (of_int (round_half_even (x / ulp x)) :: rat) \<le> of_int (2 ^ 53)"
    by (simp only: of_int_le_iff)
  then show ?thesis unfolding exponent_ulp fl_pos_def using ulp_pos [of x]
    by (auto intro!: mult_right_mono)
qed

lemma fl_pos_mono:
  assumes "0 < x" and "x \<le> y"
  shows "fl_pos x \<le> fl_pos y"
proof (cases "exponent_of x = exponent_of y")
  case True
  then have u: "ulp x = ulp y" by (simp add: ulp_def)
  have "x / ulp y \<le> y / ulp y" using assms(2) ulp_pos [of y] by (intro divide_right_mono) simp_all
  then show ?thesis unfolding fl_pos_def u using ulp_pos [of y]
    by (intro mult_right_mono) (simp_all add: rhe_mono)
next
  case False
  then have "exponent_of x + 1 \<le> exponent_of y" using exponent_mono [OF assms] by simp
  then have "(2 :: rat) powi (exponent_of x + 1) \<le> 2 powi exponent_of y" by (intro power_int_increasing) simp_all
  then show ?thesis using fl_pos_bounds [OF assms(1)] fl_pos_bounds [of y] assms by linarith
qed

lemma fl_pos_exact:
  assumes x: "x = of_int m * 2 powi k" and "2 ^ 52 \<le> m" and "m < 2 ^ 53"
  shows "fl_pos x = x"
proof -
  have e: "(2 :: rat) powi (k + 52) = 2 ^ 52 * 2 powi k" "(2 :: rat) powi (k + 52 + 1) = 2 ^ 53 * 2 powi k"
    using powi_split [of k 52] powi_split [of k 53] by (simp_all add: add_ac)
  have "(of_int (2 ^ 52) :: rat) \<le> of_int m" "(of_int m :: rat) < of_int (2 ^ 53)"
    using assms(2,3) by (simp_all only: of_int_le_iff of_int_less_iff)
  then have "2 ^ 52 * 2 powi k \<le> x" "x < 2 ^ 53 * 2 powi k"
    unfolding x by (auto intro!: mult_right_mono mult_strict_right_mono simp: powi_pos)
  then have "exponent_of x = k + 52" by (intro exponent_unique) (simp_all only: e)
  then have "ulp x = 2 powi k" by (simp add: ulp_def)
  then show ?thesis using x by (simp add: fl_pos_def)
qed

lemma fl_pos_idem:
  assumes "0 < x"
  shows "fl_pos (fl_pos x) = fl_pos x"
proof -
  let ?m = "round_half_even (x / ulp x)"
  have f: "fl_pos x = of_int ?m * 2 powi (exponent_of x - 52)" by (simp add: fl_pos_def ulp_def)
  have m: "2 ^ 52 \<le> ?m" "?m \<le> 2 ^ 53" using mantissa_bounds [OF assms] rhe_bounds by blast+
  show ?thesis
  proof (cases "?m = 2 ^ 53")
    case True
    have "fl_pos x = of_int (2 ^ 52) * 2 powi (exponent_of x - 52 + int 1)"
      unfolding f True powi_split by simp
    then show ?thesis by (rule fl_pos_exact) simp_all
  next
    case False
    then have "?m < 2 ^ 53" using m by linarith
    then show ?thesis using fl_pos_exact [OF f] m by blast
  qed
qed

lemma fl_pos_error:
  assumes "0 < x"
  shows "\<bar>fl_pos x - x\<bar> \<le> 1 / 2 ^ 53 * x"
proof -
  have "fl_pos x - x = (of_int (round_half_even (x / ulp x)) - x / ulp x) * ulp x"
    using ulp_pos [of x] by (simp add: fl_pos_def left_diff_distrib)
  then have "\<bar>fl_pos x - x\<bar> = \<bar>of_int (round_half_even (x / ulp x)) - x / ulp x\<bar> * ulp x"
    using ulp_pos [of x] by (simp add: abs_mult)
  also have "\<dots> \<le> 1 / 2 * ulp x" using rhe_error [of "x / ulp x"] ulp_pos [of x] by (intro mult_right_mono) simp_all
  also have "\<dots> = 1 / 2 ^ 53 * 2 powi exponent_of x" unfolding exponent_ulp by simp
  also have "\<dots> \<le> 1 / 2 ^ 53 * x" using exponent_bounds [OF assms] by (intro mult_left_mono) simp_all
  finally show ?thesis .
qed

lemma fl_pos_positive: "0 < x \<Longrightarrow> 0 < fl_pos x"
  using fl_pos_bounds [of x] powi_pos [of "exponent_of x"] by linarith

section \<open>All signs\<close>

lemma fl_minus: "fl (- x) = - fl x"
  by (simp add: fl_def)

lemma fl_mono:
  assumes "x \<le> y"
  shows "fl x \<le> fl y"
proof -
  consider "0 < x" | "x \<le> 0" "0 \<le> y" | "y < 0" by linarith
  then show ?thesis
  proof cases
    case 1
    then show ?thesis using assms fl_pos_mono [of x y] by (simp add: fl_def)
  next
    case 2
    have "fl x \<le> 0" using 2(1) fl_pos_positive [of "- x"] by (auto simp: fl_def)
    moreover have "0 \<le> fl y" using 2(2) fl_pos_positive [of y] by (auto simp: fl_def)
    ultimately show ?thesis by linarith
  next
    case 3
    then show ?thesis using assms fl_pos_mono [of "- y" "- x"] by (simp add: fl_def)
  qed
qed

lemma fl_idem: "fl (fl x) = fl x"
proof -
  have pos: "fl (fl x) = fl x" if "0 < x" for x
    using that fl_pos_positive [OF that] fl_pos_idem [OF that] by (simp add: fl_def)
  consider "0 < x" | "x = 0" | "0 < - x" by linarith
  then show ?thesis
  proof cases
    case 3
    then show ?thesis using pos [of "- x"] by (simp add: fl_minus)
  next
    case 1
    then show ?thesis by (rule pos)
  qed (simp add: fl_def)
qed

lemma fl_error: "\<bar>fl x - x\<bar> \<le> 1 / 2 ^ 53 * \<bar>x\<bar>"
proof -
  have pos: "\<bar>fl x - x\<bar> \<le> 1 / 2 ^ 53 * \<bar>x\<bar>" if "0 < x" for x
    using that fl_pos_error [OF that] by (simp add: fl_def)
  consider "0 < x" | "x = 0" | "0 < - x" by linarith
  then show ?thesis
  proof cases
    case 3
    then show ?thesis using pos [of "- x"] by (simp add: fl_minus abs_minus_commute)
  next
    case 1
    then show ?thesis by (rule pos)
  qed (simp add: fl_def)
qed

interpretation float64: rounding fl "1 / 2 ^ 53"
proof unfold_locales
  show "fl 0 = 0" by (simp add: fl_def)
qed (use fl_mono fl_idem fl_error in simp_all)

text \<open>The integers up to \<open>2 ^ 53\<close> are floats.\<close>

lemma fl_int:
  assumes "\<bar>i\<bar> \<le> 2 ^ 53"
  shows "fl (of_int i) = of_int i"
proof -
  have pos: "fl (of_int i) = (of_int i :: rat)" if i: "0 < i" "i \<le> 2 ^ 53" for i :: int
  proof (cases "i = 2 ^ 53")
    case True
    then have "(of_int i :: rat) = of_int (2 ^ 52) * 2 powi 1" by simp
    then have "fl_pos (of_int i) = of_int i" by (rule fl_pos_exact) simp_all
    then show ?thesis using i(1) by (simp add: fl_def)
  next
    case False
    define k where "k = 53 - floorlog 2 (nat i)"
    have f: "2 ^ (floorlog 2 (nat i) - 1) \<le> nat i" "nat i < 2 ^ floorlog 2 (nat i)"
      using floorlog_bounds [of "nat i" 2] i by simp_all
    have "floorlog 2 (nat i) \<le> 53" using False i by (intro floorlog_leI) (simp_all add: nat_less_iff)
    moreover have "floorlog 2 (nat i) \<noteq> 0" using f(2) i by (intro notI) simp
    ultimately have e: "k + floorlog 2 (nat i) = 53" "k + (floorlog 2 (nat i) - 1) = 52" by (simp_all add: k_def)
    have "2 ^ k * 2 ^ (floorlog 2 (nat i) - 1) \<le> 2 ^ k * nat i" "2 ^ k * nat i < 2 ^ k * 2 ^ floorlog 2 (nat i)"
      using f by simp_all
    then have "2 ^ 52 \<le> 2 ^ k * nat i" "2 ^ k * nat i < 2 ^ 53" unfolding power_add [symmetric] e by simp_all
    then have "int (2 ^ 52) \<le> int (2 ^ k * nat i)" "int (2 ^ k * nat i) < int (2 ^ 53)"
      by (simp_all only: of_nat_le_iff of_nat_less_iff)
    then have m: "2 ^ 52 \<le> 2 ^ k * i" "2 ^ k * i < 2 ^ 53" using i by simp_all
    have "of_int i = of_int (2 ^ k * i) * (2 :: rat) powi (- int k)" by (simp add: power_int_minus)
    from fl_pos_exact [OF this m] show ?thesis using i by (simp add: fl_def)
  qed
  consider "0 < i" | "i = 0" | "0 < - i" by linarith
  then show ?thesis
  proof cases
    case 3
    then show ?thesis using pos [of "- i"] assms fl_minus [of "of_int i"] by simp
  next
    case 1
    then show ?thesis using assms by (intro pos) simp_all
  qed (simp add: fl_def)
qed

text \<open>So are their quotients by powers of two, and the instances that evaluate a closed term.\<close>

lemma exponent_scale: "0 < x \<Longrightarrow> exponent_of (x / 2 ^ k) = exponent_of x - int k"
proof (rule exponent_unique)
  assume x: "0 < x"
  have e: "(2 :: rat) powi (j - int k) = 2 powi j / 2 ^ k" for j by (simp add: power_int_diff)
  show "2 powi (exponent_of x - int k) \<le> x / 2 ^ k"
    unfolding e using exponent_bounds [OF x] by (intro divide_right_mono) simp_all
  have "exponent_of x - int k + 1 = (exponent_of x + 1) - int k" by simp
  then show "x / 2 ^ k < 2 powi (exponent_of x - int k + 1)"
    unfolding e using exponent_bounds [OF x] by (simp only: e) (intro divide_strict_right_mono, simp_all)
qed

lemma fl_scale: "fl (x / 2 ^ k) = fl x / 2 ^ k"
proof -
  have pos: "fl_pos (x / 2 ^ k) = fl_pos x / 2 ^ k" if x: "0 < x" for x
  proof -
    have "ulp (x / 2 ^ k) = ulp x / 2 ^ k"
      using power_int_diff [of "2 :: rat" "exponent_of x - 52" "int k"]
      by (simp add: ulp_def exponent_scale [OF x] algebra_simps)
    then show ?thesis by (simp add: fl_pos_def)
  qed
  show ?thesis using pos [of x] pos [of "- x"] by (simp add: fl_def zero_less_divide_iff)
qed

lemma fl_numeral [simp]:
  "numeral n \<le> (2 ^ 53 :: int) \<Longrightarrow> fl (numeral n) = numeral n"
  "numeral n \<le> (2 ^ 53 :: int) \<Longrightarrow> fl (- numeral n) = - numeral n"
  "fl 0 = 0" "fl 1 = 1" "fl (- 1) = - 1"
  using fl_int [of "numeral n"] fl_int [of "- numeral n"] fl_int [of 0] fl_int [of 1] fl_int [of "- 1"] by simp_all

end
