(* ===== verification/RateLimit.thy ===== *)
theory RateLimit
  imports Float64 GoString "HOL-Library.Signed_Division"
begin

text \<open>
  The token bucket of \<^verbatim>\<open>counter/ratelimit.go\<close>. Clock readings are nanoseconds; the
  tokens are floats of \<open>Float64\<close>. The argument \<open>fused\<close> says whether the compiler fuses the
  multiplication and the addition of a refill into one rounding, which Go leaves open. Every
  operation under the limiter's mutex is one atomic function; what other goroutines do
  between two of them is data of the model (\<open>lw_others\<close>).
\<close>

section \<open>The limiter\<close>

record limiter =
  lm_rate :: int64
  lm_burst :: int64
  lm_tokens :: rat
  lm_last :: "int option"
  lm_disabled :: bool
  lm_closed :: bool

datatype lim_error = LimiterClosed

definition second :: int where "second = 1000000000"

definition default_burst_window :: int64 where "default_burst_window = 200000000"

definition max_chunk :: int where "max_chunk = 64 * 1024"

definition val64 :: "int64 \<Rightarrow> rat" where
  "val64 w = of_int (sint w)"

definition float_of :: "int64 \<Rightarrow> rat" where
  "float_of w = fl (val64 w)"

definition burst_of :: "int64 \<Rightarrow> int64" where
  "burst_of r = (let b = word_of_int (sint (r * default_burst_window) sdiv second) in
     if sint (b :: int64) < max_chunk then word_of_int max_chunk else b)"

definition set_rate :: "int \<Rightarrow> int64 \<Rightarrow> limiter \<Rightarrow> limiter" where
  "set_rate now r l = (let l = l\<lparr>lm_rate := r, lm_burst := burst_of r\<rparr> in
     if sint r \<le> 0 then l\<lparr>lm_disabled := True, lm_tokens := 0\<rparr>
     else let l = l\<lparr>lm_closed := False, lm_disabled := False\<rparr>;
              l = (if lm_tokens l < 0 \<or> lm_tokens l > float_of (lm_burst l) then l\<lparr>lm_tokens := 0\<rparr> else l)
          in l\<lparr>lm_last := Some now\<rparr>)"

definition zero_limiter :: limiter where
  "zero_limiter = \<lparr>lm_rate = 0, lm_burst = 0, lm_tokens = 0, lm_last = None, lm_disabled = False, lm_closed = False\<rparr>"

definition new_rate_limiter :: "int \<Rightarrow> int64 \<Rightarrow> limiter" where
  "new_rate_limiter now r = set_rate now r (zero_limiter\<lparr>lm_last := Some now\<rparr>)"

definition close_limiter :: "limiter \<Rightarrow> limiter" where
  "close_limiter l = l\<lparr>lm_closed := True, lm_disabled := True, lm_rate := 0, lm_burst := 0, lm_tokens := 0\<rparr>"

text \<open>\<^verbatim>\<open>now.Sub(last)\<close> saturates; \<^verbatim>\<open>Seconds\<close> adds the whole seconds and the fraction.\<close>

definition sub_time :: "int \<Rightarrow> int \<Rightarrow> int" where
  "sub_time a b = max min_int64 (min max_int64 (a - b))"

definition seconds :: "int \<Rightarrow> rat" where
  "seconds d = fl (fl (of_int (d sdiv second)) + fl (fl (of_int (d smod second)) / of_int second))"

definition refill :: "bool \<Rightarrow> int \<Rightarrow> limiter \<Rightarrow> limiter" where
  "refill fused now l = (let last = (case lm_last l of None \<Rightarrow> now | Some t \<Rightarrow> t);
       elapsed = seconds (sub_time now last)
     in if 0 < elapsed then
          let t = (if fused then fl (lm_tokens l + elapsed * float_of (lm_rate l))
                   else fl (lm_tokens l + fl (elapsed * float_of (lm_rate l))));
              t = (if t > float_of (lm_burst l) then float_of (lm_burst l) else t)
          in l\<lparr>lm_tokens := t, lm_last := Some now\<rparr>
        else l\<lparr>lm_last := Some last\<rparr>)"

definition needed :: "int \<Rightarrow> limiter \<Rightarrow> rat" where
  "needed n l = (let need = fl (of_int n) in if need > float_of (lm_burst l) then float_of (lm_burst l) else need)"

definition off :: "limiter \<Rightarrow> bool" where
  "off l \<longleftrightarrow> lm_disabled l \<or> sint (lm_rate l) \<le> 0"

definition allow :: "bool \<Rightarrow> int \<Rightarrow> int \<Rightarrow> limiter \<Rightarrow> limiter \<times> (lim_error + bool)" where
  "allow fused now n l = (if lm_closed l then (l, Inl LimiterClosed)
     else if off l \<or> n \<le> 0 then (l, Inr True)
     else let l = refill fused now l; need = needed n l in
       if lm_tokens l < need then (l, Inr False)
       else (l\<lparr>lm_tokens := fl (lm_tokens l - need)\<rparr>, Inr True))"

text \<open>\<^verbatim>\<open>time.Duration(x)\<close> truncates; \<open>reserve\<close> is used for waits below 292 years.\<close>

definition trunc_float :: "rat \<Rightarrow> int" where
  "trunc_float x = (if 0 \<le> x then \<lfloor>x\<rfloor> else \<lceil>x\<rceil>)"

definition reserve :: "bool \<Rightarrow> int \<Rightarrow> int \<Rightarrow> limiter \<Rightarrow> limiter \<times> (lim_error + int)" where
  "reserve fused now n l = (if lm_closed l then (l, Inl LimiterClosed)
     else if off l \<or> n \<le> 0 then (l, Inr 0)
     else let l = refill fused now l; need = needed n l; l' = l\<lparr>lm_tokens := fl (lm_tokens l - need)\<rparr> in
       if lm_tokens l \<ge> need then (l', Inr 0)
       else let missing = fl (need - lm_tokens l) in
         (l', Inr (trunc_float (fl (fl (missing / float_of (lm_rate l)) * of_int second)))))"

section \<open>Atomic operations and their grants\<close>

text \<open>A grant is the time from which an amount may pass, and the amount.\<close>

datatype lim_op = SetRate int64 | Close | Reserve int | Allow int

fun apply_op :: "bool \<Rightarrow> int \<Rightarrow> lim_op \<Rightarrow> limiter \<Rightarrow> limiter \<times> (int \<times> int) list" where
  "apply_op fused now (SetRate r) l = (set_rate now r l, [])"
| "apply_op fused now Close l = (close_limiter l, [])"
| "apply_op fused now (Reserve n) l = (case reserve fused now n l of
     (l', Inl e) \<Rightarrow> (l', []) | (l', Inr wait) \<Rightarrow> (l', [(now + wait, n)]))"
| "apply_op fused now (Allow n) l = (case allow fused now n l of
     (l', Inr True) \<Rightarrow> (l', [(now, n)]) | (l', _) \<Rightarrow> (l', []))"

fun run_ops :: "bool \<Rightarrow> (int \<times> lim_op) list \<Rightarrow> limiter \<Rightarrow> limiter \<times> (int \<times> int) list" where
  "run_ops fused [] l = (l, [])"
| "run_ops fused ((now, op) # ops) l = (case apply_op fused now op l of (l1, g1) \<Rightarrow>
     (case run_ops fused ops l1 of (l2, g2) \<Rightarrow> (l2, g1 @ g2)))"

definition released_by :: "int \<Rightarrow> (int \<times> int) list \<Rightarrow> int" where
  "released_by T gs = sum_list (map snd (filter (\<lambda>(t, n). t \<le> T) gs))"

section \<open>Waiting\<close>

text \<open>What a goroutine sees: the limiter, the clock, and for each of its next atomic steps and sleeps
  the operations of other goroutines before the step or during the sleep, each after a delay.\<close>

record lworld =
  lw_limiter :: limiter
  lw_now :: int
  lw_others :: "(nat \<times> lim_op) list list"

definition other_op :: "bool \<Rightarrow> nat \<times> lim_op \<Rightarrow> limiter \<times> int \<Rightarrow> limiter \<times> int" where
  "other_op fused = (\<lambda>(d, op) (l, t). (fst (apply_op fused (t + int d) op l), t + int d))"

definition others :: "bool \<Rightarrow> lworld \<Rightarrow> lworld" where
  "others fused w = (case lw_others w of [] \<Rightarrow> w | batch # rest \<Rightarrow>
     (case fold (other_op fused) batch (lw_limiter w, lw_now w) of (l, t) \<Rightarrow>
       \<lparr>lw_limiter = l, lw_now = t, lw_others = rest\<rparr>))"

definition chunk_of :: "int \<Rightarrow> limiter \<Rightarrow> int" where
  "chunk_of remaining l = (if 0 < sint (lm_burst l) \<and> sint (lm_burst l) < remaining then sint (lm_burst l) else remaining)"

definition world_reserve :: "bool \<Rightarrow> int \<Rightarrow> lworld \<Rightarrow> lworld \<times> lim_error option" where
  "world_reserve fused n w = (case reserve fused (lw_now w) n (lw_limiter w) of
     (l, Inl e) \<Rightarrow> (w\<lparr>lw_limiter := l\<rparr>, Some e)
   | (l, Inr wait) \<Rightarrow> (let w1 = w\<lparr>lw_limiter := l\<rparr> in
       if 0 < wait then (let w2 = others fused w1 in (w2\<lparr>lw_now := max (lw_now w2) (lw_now w + wait)\<rparr>, None)) else (w1, None)))"

function wait_loop :: "bool \<Rightarrow> int \<Rightarrow> lworld \<Rightarrow> lworld \<times> lim_error option" where
  "wait_loop fused remaining w = (if remaining \<le> 0 then (w, None)
     else let w1 = others fused w; l = lw_limiter w1; w2 = others fused w1 in
       if off l \<or> lm_closed l then world_reserve fused 0 w2
       else let chunk = chunk_of remaining l in
         (case world_reserve fused chunk w2 of
           (w3, Some e) \<Rightarrow> (w3, Some e)
         | (w3, None) \<Rightarrow> wait_loop fused (remaining - chunk) w3))"
  by pat_completeness auto
termination
  by (relation "measure (\<lambda>(fused, remaining, w). nat remaining)") (auto simp: chunk_of_def)

declare wait_loop.simps [simp del]

text \<open>The limiter behind a pointer; \<open>None\<close> is nil.\<close>

definition wait :: "bool \<Rightarrow> int \<Rightarrow> lworld option \<Rightarrow> lworld option \<times> lim_error option" where
  "wait fused n p = (case p of None \<Rightarrow> (None, None)
     | Some w \<Rightarrow> if n \<le> 0 then (p, None) else map_prod Some id (wait_loop fused n w))"

definition allow_world :: "bool \<Rightarrow> int \<Rightarrow> lworld option \<Rightarrow> lworld option \<times> (lim_error + bool)" where
  "allow_world fused n p = (case p of None \<Rightarrow> (None, Inr True)
     | Some w \<Rightarrow> if n \<le> 0 then (p, Inr True)
       else let w1 = others fused w in (case allow fused (lw_now w1) n (lw_limiter w1) of (l, r) \<Rightarrow>
         (Some (w1\<lparr>lw_limiter := l\<rparr>), r)))"

section \<open>Invariant\<close>

definition limiter_ok :: "limiter \<Rightarrow> bool" where
  "limiter_ok l \<longleftrightarrow> (if lm_closed l then lm_disabled l \<and> sint (lm_rate l) \<le> 0 \<and> lm_tokens l = 0
     else lm_burst l = burst_of (lm_rate l) \<and> lm_disabled l = (sint (lm_rate l) \<le> 0)
       \<and> lm_last l \<noteq> None \<and> float64.exact (lm_tokens l) \<and> lm_tokens l \<le> val64 (lm_burst l))"

lemma burst_bounds: "max_chunk \<le> sint (burst_of r) \<and> sint (burst_of r) \<le> 2 ^ 34"
proof -
  let ?p = "sint (r * default_burst_window)"
  have "- (2 ^ 63) \<le> ?p" "?p < 2 ^ 63"
    using sint_range64 [of "r * default_burst_window"] by (simp_all add: in_int64_def min_int64_def max_int64_def)
  then have "- (2 ^ 34) \<le> ?p sdiv second" "?p sdiv second \<le> 2 ^ 34"
    by (auto simp: signed_divide_int_def second_def sgn_if divide_int_def)
  then have "sint (word_of_int (?p sdiv second) :: int64) = ?p sdiv second" "?p sdiv second \<le> 2 ^ 34"
    by (auto intro!: sint_of_int64 simp: in_int64_def min_int64_def max_int64_def)
  moreover have "sint (word_of_int max_chunk :: int64) = max_chunk"
    by (intro sint_of_int64) (simp add: in_int64_def min_int64_def max_int64_def max_chunk_def)
  ultimately show ?thesis by (auto simp: burst_of_def Let_def max_chunk_def)
qed

lemma float_of_burst: "float_of (burst_of r) = val64 (burst_of r)"
  unfolding float_of_def val64_def using burst_bounds [of r] by (intro fl_int) (simp add: max_chunk_def)

lemma exact_burst: "float64.exact (val64 (burst_of r))"
  using float_of_burst [of r] by (simp add: float64.exact_def float_of_def)

lemma burst_positive: "0 < val64 (burst_of r)"
proof -
  have "0 < sint (burst_of r)" using burst_bounds [of r] by (simp add: max_chunk_def)
  then have "(0 :: rat) < of_int (sint (burst_of r))" by (simp only: of_int_0_less_iff)
  then show ?thesis unfolding val64_def .
qed

lemma exact_zero: "float64.exact 0"
  by (simp add: float64.exact_def fl_def)

lemma limiter_okD:
  assumes "limiter_ok l" and "\<not> lm_closed l"
  shows "lm_burst l = burst_of (lm_rate l)" and "lm_disabled l = (sint (lm_rate l) \<le> 0)"
    and "lm_last l \<noteq> None" and "float64.exact (lm_tokens l)" and "lm_tokens l \<le> val64 (lm_burst l)"
    and "off l \<longleftrightarrow> sint (lm_rate l) \<le> 0"
  using assms by (auto simp: limiter_ok_def off_def)

lemma limiter_ok_set_rate:
  assumes "limiter_ok l \<or> (lm_tokens l = 0 \<and> lm_last l \<noteq> None)"
  shows "limiter_ok (set_rate now r l)"
proof -
  have e: "float64.exact (lm_tokens l)" using assms exact_zero by (auto simp: limiter_ok_def split: if_splits)
  show ?thesis using assms e exact_zero burst_positive [of r]
    by (auto simp: limiter_ok_def set_rate_def Let_def float_of_burst split: if_splits)
qed

lemma limiter_ok_new: "limiter_ok (new_rate_limiter now r)"
  unfolding new_rate_limiter_def by (rule limiter_ok_set_rate) (simp add: zero_limiter_def)

lemma limiter_ok_close: "limiter_ok (close_limiter l)"
  by (simp add: limiter_ok_def close_limiter_def)

lemma refill_fields [simp]:
  "lm_rate (refill fused now l) = lm_rate l" "lm_burst (refill fused now l) = lm_burst l"
  "lm_disabled (refill fused now l) = lm_disabled l" "lm_closed (refill fused now l) = lm_closed l"
  by (simp_all add: refill_def Let_def)

lemma needed_bounds:
  assumes "lm_burst l = burst_of (lm_rate l)" and "0 < n"
  shows "0 \<le> needed n l \<and> needed n l \<le> val64 (lm_burst l)"
proof -
  have "0 \<le> fl (of_int n)" using assms(2) by (intro float64.rnd_nonneg) simp
  then show ?thesis using assms(1) burst_positive [of "lm_rate l"] by (simp add: needed_def Let_def float_of_burst)
qed

lemma limiter_ok_refill:
  assumes "limiter_ok l" and "\<not> lm_closed l"
  shows "limiter_ok (refill fused now l)"
  using limiter_okD [OF assms] assms(2) exact_burst [of "lm_rate l"]
  by (auto simp: limiter_ok_def refill_def Let_def float_of_burst float64.exact_rnd split: option.split)

lemma limiter_ok_charge:
  assumes "limiter_ok l" and "\<not> lm_closed l" and "0 < n"
  shows "limiter_ok (l\<lparr>lm_tokens := fl (lm_tokens l - needed n l)\<rparr>)"
proof -
  note ok = limiter_okD [OF assms(1,2)]
  have "fl (lm_tokens l - needed n l) \<le> lm_tokens l"
    using ok(4) needed_bounds [OF ok(1) assms(3)] by (intro float64.rnd_sub_le) simp_all
  then show ?thesis using ok assms(2) by (auto simp: limiter_ok_def float64.exact_rnd)
qed

lemma limiter_ok_allow: "limiter_ok l \<Longrightarrow> limiter_ok (fst (allow fused now n l))"
  by (auto simp: allow_def Let_def limiter_ok_refill intro!: limiter_ok_charge)

lemma limiter_ok_reserve: "limiter_ok l \<Longrightarrow> limiter_ok (fst (reserve fused now n l))"
  by (auto simp: reserve_def Let_def limiter_ok_refill intro!: limiter_ok_charge)

lemma limiter_ok_op: "limiter_ok l \<Longrightarrow> limiter_ok (fst (apply_op fused now op l))"
  using limiter_ok_allow [of l fused now] limiter_ok_reserve [of l fused now]
  by (cases op) (auto simp: limiter_ok_set_rate limiter_ok_close split: prod.splits sum.splits bool.splits, (metis fst_conv)+)

lemma limiter_ok_run: "limiter_ok l \<Longrightarrow> limiter_ok (fst (run_ops fused ops l))"
proof (induction ops arbitrary: l)
  case (Cons x ops)
  then show ?case using limiter_ok_op [OF Cons.prems, of fused "fst x" "snd x"]
    by (cases x) (auto split: prod.split, metis fst_conv)
qed simp

text \<open>C38. A limiter's state stays consistent under every sequence of operations: while it is open its
  burst belongs to its rate and is between 64 KiB and 16 GiB, its tokens are a float that never exceeds
  the burst, and it is disabled exactly when it has no rate; once closed it is disabled and empty.\<close>

theorem limiter_invariant: "limiter_ok (fst (run_ops fused ops (new_rate_limiter now r)))"
  by (rule limiter_ok_run [OF limiter_ok_new])

text \<open>Setting the rate of an indebted limiter again, as every synchronisation does for every user with a
  limit, forgives the debt and restarts the clock.\<close>

lemma set_rate_forgives_debt:
  assumes "0 < sint (lm_rate l)" and "lm_tokens l < 0"
  shows "lm_tokens (set_rate now (lm_rate l) l) = 0 \<and> lm_last (set_rate now (lm_rate l) l) = Some now"
  using assms by (simp add: set_rate_def Let_def)

end
