(* ===== verification/UserManager.thy ===== *)
theory UserManager
  imports RateLimit Sync "HOL-Library.Multiset"
begin

text \<open>
  \<^verbatim>\<open>cmd/mini-sb-agent/user_manager.go\<close>: the users the agent serves, the secrets that name
  them and their rate limiters. A limiter is shared by pointer with the connections, so the
  limiters live in a memory and pairs hold addresses. The inbounds belong to sing-box: their
  operations are the argument \<open>ops\<close>, arbitrary functions on an inbound's state that may fail.
  Map iteration has the order \<open>perm\<close>, any permutation; the clock \<open>now\<close> stands still in a call.
\<close>

section \<open>State\<close>

record limiter_pair =
  lp_rx :: nat
  lp_tx :: nat

record user_manager =
  um_users :: "(int, user) gomap"
  um_by_secret :: "(string, int) gomap"
  um_node_limit :: "limiter_pair option"
  um_limiters :: "(int, limiter_pair) gomap"
  um_memory :: "limiter list"

definition new_limiter_pair :: "int \<Rightarrow> int64 \<Rightarrow> limiter list \<Rightarrow> limiter_pair \<times> limiter list" where
  "new_limiter_pair now r mem = (\<lparr>lp_rx = length mem, lp_tx = Suc (length mem)\<rparr>,
     mem @ [new_rate_limiter now r, new_rate_limiter now r])"

definition pair_set_rate :: "int \<Rightarrow> int64 \<Rightarrow> limiter_pair \<Rightarrow> limiter list \<Rightarrow> limiter list" where
  "pair_set_rate now r p mem = (let mem = mem[lp_rx p := set_rate now r (mem ! lp_rx p)]
     in mem[lp_tx p := set_rate now r (mem ! lp_tx p)])"

definition pair_close :: "limiter_pair \<Rightarrow> limiter list \<Rightarrow> limiter list" where
  "pair_close p mem = (let mem = mem[lp_rx p := close_limiter (mem ! lp_rx p)]
     in mem[lp_tx p := close_limiter (mem ! lp_tx p)])"

definition mbps_to_bytes :: "int \<Rightarrow> int64" where
  "mbps_to_bytes mbps = (if mbps \<le> 0 then 0 else word_of_int (sint (word_of_int mbps * 1000 * 1000 :: int64) sdiv 8))"

definition new_user_manager :: "int \<Rightarrow> int \<Rightarrow> user_manager" where
  "new_user_manager now node_mbps =
     (if 0 < node_mbps then (case new_limiter_pair now (mbps_to_bytes node_mbps) [] of (p, mem) \<Rightarrow>
        \<lparr>um_users = [], um_by_secret = [], um_node_limit = Some p, um_limiters = [], um_memory = mem\<rparr>)
      else \<lparr>um_users = [], um_by_secret = [], um_node_limit = None, um_limiters = [], um_memory = []\<rparr>)"

definition close_limiter_of :: "int \<Rightarrow> user_manager \<Rightarrow> user_manager" where
  "close_limiter_of uid m = (case mget (um_limiters m) uid of None \<Rightarrow> m
     | Some p \<Rightarrow> m\<lparr>um_memory := pair_close p (um_memory m), um_limiters := mdel uid (um_limiters m)\<rparr>)"

definition update_limiter :: "bool \<Rightarrow> int \<Rightarrow> user \<Rightarrow> user_manager \<Rightarrow> user_manager" where
  "update_limiter enabled now u m = (if \<not> enabled \<or> SpeedLimit u \<le> 0 then close_limiter_of (ID u) m
     else let r = mbps_to_bytes (SpeedLimit u) in
       (case mget (um_limiters m) (ID u) of
         Some p \<Rightarrow> m\<lparr>um_memory := pair_set_rate now r p (um_memory m)\<rparr>
       | None \<Rightarrow> (case new_limiter_pair now r (um_memory m) of (p, mem) \<Rightarrow>
           m\<lparr>um_memory := mem, um_limiters := mput (ID u) p (um_limiters m)\<rparr>)))"

section \<open>The inbounds of sing-box\<close>

record vless_user =
  vu_name :: string
  vu_uuid :: string
  vu_flow :: string

record hy2_user =
  hu_name :: string
  hu_password :: string

datatype inbound_kind = VlessInbound | Hy2Inbound | OtherInbound

record 'i box_ops =
  del_vless :: "string list \<Rightarrow> 'i \<Rightarrow> 'i \<times> bool"
  add_vless :: "vless_user list \<Rightarrow> 'i \<Rightarrow> 'i \<times> bool"
  del_hy2 :: "string list \<Rightarrow> 'i \<Rightarrow> 'i \<times> bool"
  add_hy2 :: "hy2_user list \<Rightarrow> int list \<Rightarrow> 'i \<Rightarrow> 'i \<times> bool"

type_synonym 'i inbounds = "(string \<times> inbound_kind \<times> 'i) list"

definition vless_user_of :: "user \<Rightarrow> vless_user" where
  "vless_user_of u = \<lparr>vu_name = UUID u, vu_uuid = UUID u, vu_flow = ''xtls-rprx-vision''\<rparr>"

definition hy2_user_of :: "user \<Rightarrow> hy2_user" where
  "hy2_user_of u = \<lparr>hu_name = (if Name u = [] then Password u else Name u), hu_password = Password u\<rparr>"

section \<open>ApplyBox\<close>

definition next_users :: "user list \<Rightarrow> (int, user) gomap" where
  "next_users users = fold (\<lambda>u nxt. if ID u \<le> 0 then nxt else mput (ID u) u nxt) users []"

definition put_secret :: "int \<Rightarrow> string \<Rightarrow> (string, int) gomap \<Rightarrow> (string, int) gomap" where
  "put_secret uid secret m = (if secret \<noteq> [] then mput secret uid m else m)"

definition next_secrets :: "user list \<Rightarrow> (string, int) gomap" where
  "next_secrets users = fold (\<lambda>u s. if ID u \<le> 0 then s
     else fold (put_secret (ID u)) [UUID u, Password u, Name u] s) users []"

definition revoked :: "(int, user) gomap \<Rightarrow> int \<times> user \<Rightarrow> bool" where
  "revoked nxt = (\<lambda>(uid, old). case mget nxt uid of None \<Rightarrow> True
     | Some nu \<Rightarrow> UUID old \<noteq> UUID nu \<or> Password old \<noteq> Password nu \<or> Name old \<noteq> Name nu)"

definition to_delete :: "(user \<Rightarrow> string) \<Rightarrow> (int, user) gomap \<Rightarrow> (int, user) gomap \<Rightarrow> string list" where
  "to_delete secret users nxt =
     filter (\<lambda>s. s \<noteq> []) (map (\<lambda>(uid, old). secret old) (filter (revoked nxt) users))"

definition unchanged :: "(int, user) gomap \<Rightarrow> int \<times> user \<Rightarrow> bool" where
  "unchanged users = (\<lambda>(uid, nu). mget users uid = Some nu)"

definition to_add :: "(user \<Rightarrow> string) \<Rightarrow> (int, user) gomap \<Rightarrow> (int, user) gomap \<Rightarrow> user list" where
  "to_add secret users nxt = filter (\<lambda>u. secret u \<noteq> []) (map snd (filter (\<lambda>x. \<not> unchanged users x) nxt))"

definition close_departed :: "(int, user) gomap \<Rightarrow> (int, user) gomap \<Rightarrow> user_manager \<Rightarrow> user_manager" where
  "close_departed users nxt m = fold (\<lambda>(uid, old) m. if mget nxt uid = None then close_limiter_of uid m else m) users m"

definition if_any :: "'x list \<Rightarrow> ('x list \<Rightarrow> 'i \<Rightarrow> 'i \<times> bool) \<Rightarrow> 'i \<Rightarrow> 'i \<times> bool" where
  "if_any xs f i = (if xs \<noteq> [] then f xs i else (i, True))"

fun apply_inbounds :: "'i box_ops \<Rightarrow> string list \<Rightarrow> user list \<Rightarrow> string list \<Rightarrow> user list \<Rightarrow> 'i inbounds \<Rightarrow> 'i inbounds \<times> bool" where
  "apply_inbounds ops dv av dh ah [] = ([], True)"
| "apply_inbounds ops dv av dh ah ((tag, kind, i) # rest) =
     (let del = (case kind of VlessInbound \<Rightarrow> if_any dv (del_vless ops) | Hy2Inbound \<Rightarrow> if_any dh (del_hy2 ops) | OtherInbound \<Rightarrow> (\<lambda>i. (i, True)));
          add = (case kind of VlessInbound \<Rightarrow> if_any (map vless_user_of av) (add_vless ops)
            | Hy2Inbound \<Rightarrow> if_any (map hy2_user_of ah) (\<lambda>us. add_hy2 ops us (map ID ah)) | OtherInbound \<Rightarrow> (\<lambda>i. (i, True)))
      in (case del i of
        (i, False) \<Rightarrow> ((tag, kind, i) # rest, False)
      | (i, True) \<Rightarrow> (case add i of
          (i, False) \<Rightarrow> ((tag, kind, i) # rest, False)
        | (i, True) \<Rightarrow> (case apply_inbounds ops dv av dh ah rest of (rest, ok) \<Rightarrow> ((tag, kind, i) # rest, ok)))))"

definition apply_box :: "bool \<Rightarrow> ((int \<times> user) list \<Rightarrow> (int \<times> user) list) \<Rightarrow> 'i box_ops \<Rightarrow> int \<Rightarrow> 'i inbounds \<Rightarrow> user list \<Rightarrow>
    user_manager \<Rightarrow> 'i inbounds \<times> user_manager \<times> bool" where
  "apply_box enabled perm ops now inb users m =
     (let nxt = next_users users; old = um_users m;
          m1 = close_departed old nxt m;
          m2 = fold (\<lambda>(uid, nu). update_limiter enabled now nu) (perm nxt) m1
      in (case apply_inbounds ops (to_delete UUID old nxt) (to_add UUID old (perm nxt))
            (to_delete Password old nxt) (to_add Password old (perm nxt)) inb of
        (inb', False) \<Rightarrow> (inb', m2, False)
      | (inb', True) \<Rightarrow> (inb', m2\<lparr>um_users := nxt, um_by_secret := next_secrets users\<rparr>, True)))"

section \<open>Queries\<close>

definition resolve :: "user_manager \<Rightarrow> string \<Rightarrow> string" where
  "resolve m s = (if s = [] then [] else case mget (um_by_secret m) s of Some uid \<Rightarrow> itoa uid | None \<Rightarrow> s)"

definition active_ids :: "user_manager \<Rightarrow> string list" where
  "active_ids m = map (\<lambda>(uid, u). itoa uid) (um_users m)"

definition user_pair :: "bool \<Rightarrow> user_manager \<Rightarrow> string \<Rightarrow> limiter_pair option" where
  "user_pair enabled m s = (if enabled then
     (case mget (um_by_secret m) s of None \<Rightarrow> None | Some uid \<Rightarrow> mget (um_limiters m) uid) else None)"

text \<open>The addresses of the four limiters: node read, node write, user read, user write.\<close>

definition directional_limiters :: "bool \<Rightarrow> user_manager \<Rightarrow> string \<Rightarrow> nat option \<times> nat option \<times> nat option \<times> nat option" where
  "directional_limiters enabled m s =
     (map_option lp_rx (um_node_limit m), map_option lp_tx (um_node_limit m),
      map_option lp_rx (user_pair enabled m s), map_option lp_tx (user_pair enabled m s))"

definition limiters_of :: "bool \<Rightarrow> user_manager \<Rightarrow> string \<Rightarrow> nat option \<times> nat option" where
  "limiters_of enabled m s = (map_option lp_rx (um_node_limit m), map_option lp_rx (user_pair enabled m s))"

section \<open>The next users\<close>

lemma wf_next_users: "wf_map (next_users us)"
proof -
  have "wf_map m \<Longrightarrow> wf_map (fold (\<lambda>u nxt. if ID u \<le> 0 then nxt else mput (ID u) u nxt) us m)" for m
    by (induction us arbitrary: m) auto
  then show ?thesis by (simp add: next_users_def)
qed

definition keyed :: "(int, user) gomap \<Rightarrow> bool" where
  "keyed m \<longleftrightarrow> (\<forall>(uid, u) \<in> set m. uid = ID u \<and> 0 < uid)"

lemma keyed_next_users: "keyed (next_users us)"
proof -
  have "keyed m \<Longrightarrow> keyed (fold (\<lambda>u nxt. if ID u \<le> 0 then nxt else mput (ID u) u nxt) us m)" for m
  proof (induction us arbitrary: m)
    case (Cons u us)
    have "keyed (if ID u \<le> 0 then m else mput (ID u) u m)"
      using Cons.prems set_mput_sub [of "ID u" u m] by (auto simp: keyed_def)
    then show ?case using Cons.IH by simp
  qed simp
  from this [of "[]"] show ?thesis by (simp add: next_users_def keyed_def)
qed

lemma keyed_get: "keyed m \<Longrightarrow> mget m uid = Some u \<Longrightarrow> ID u = uid \<and> 0 < uid"
  by (auto simp: keyed_def dest!: mget_Some_in)

text \<open>With distinct positive ids, as the panels give them, the map holds exactly the users.\<close>

lemma next_users_distinct:
  assumes "distinct (map ID us)" and "\<forall>u \<in> set us. 0 < ID u"
  shows "next_users us = map (\<lambda>u. (ID u, u)) us"
proof -
  have "distinct (keys m @ map ID us) \<Longrightarrow> \<forall>u \<in> set us. 0 < ID u \<Longrightarrow>
      fold (\<lambda>u nxt. if ID u \<le> 0 then nxt else mput (ID u) u nxt) us m = m @ map (\<lambda>u. (ID u, u)) us" for m
    by (induction us arbitrary: m) (auto simp: mput_new)
  from this [of "[]"] show ?thesis using assms by (simp add: next_users_def)
qed

section \<open>The inbounds\<close>

text \<open>What the code relies on of sing-box: deletion removes the named users, addition adds.\<close>

definition box_contract :: "'i box_ops \<Rightarrow> ('i \<Rightarrow> string set) \<Rightarrow> ('i \<Rightarrow> string set) \<Rightarrow> bool" where
  "box_contract ops vv hv \<longleftrightarrow>
     (\<forall>xs i i'. del_vless ops xs i = (i', True) \<longrightarrow> vv i' = vv i - set xs) \<and>
     (\<forall>us i i'. add_vless ops us i = (i', True) \<longrightarrow> vv i' = vv i \<union> vu_uuid ` set us) \<and>
     (\<forall>xs i i'. del_hy2 ops xs i = (i', True) \<longrightarrow> hv i' = hv i - set xs) \<and>
     (\<forall>us ids i i'. add_hy2 ops us ids i = (i', True) \<longrightarrow> hv i' = hv i \<union> hu_password ` set us)"

definition changed :: "('i \<Rightarrow> string set) \<Rightarrow> ('i \<Rightarrow> string set) \<Rightarrow> string list \<Rightarrow> user list \<Rightarrow> string list \<Rightarrow> user list \<Rightarrow>
    string \<times> inbound_kind \<times> 'i \<Rightarrow> string \<times> inbound_kind \<times> 'i \<Rightarrow> bool" where
  "changed vv hv dv av dh ah = (\<lambda>(tag, kind, i) (tag', kind', i'). tag' = tag \<and> kind' = kind
     \<and> (kind = VlessInbound \<longrightarrow> vv i' = vv i - set dv \<union> UUID ` set av)
     \<and> (kind = Hy2Inbound \<longrightarrow> hv i' = hv i - set dh \<union> Password ` set ah))"

lemma if_any_del:
  assumes "\<And>i'. f xs i = (i', True) \<Longrightarrow> v i' = v i - set xs" and "if_any xs f i = (i', True)"
  shows "v i' = v i - set xs"
  using assms by (cases "xs = []") (auto simp: if_any_def)

lemma if_any_add:
  assumes "\<And>i'. f xs i = (i', True) \<Longrightarrow> v i' = v i \<union> g ` set xs" and "if_any xs f i = (i', True)"
  shows "v i' = v i \<union> g ` set xs"
  using assms by (cases "xs = []") (auto simp: if_any_def)

lemma image_user_of: "vu_uuid ` set (map vless_user_of us) = UUID ` set us"
  "hu_password ` set (map hy2_user_of us) = Password ` set us"
  by (force simp: vless_user_of_def hy2_user_of_def)+

lemma box_contractD:
  assumes "box_contract ops vv hv"
  shows "if_any dv (del_vless ops) i = (i', True) \<Longrightarrow> vv i' = vv i - set dv"
    and "if_any (map vless_user_of av) (add_vless ops) i = (i', True) \<Longrightarrow> vv i' = vv i \<union> UUID ` set av"
    and "if_any dh (del_hy2 ops) i = (i', True) \<Longrightarrow> hv i' = hv i - set dh"
    and "if_any (map hy2_user_of ah) (\<lambda>us. add_hy2 ops us ids) i = (i', True) \<Longrightarrow> hv i' = hv i \<union> Password ` set ah"
proof -
  have C: "del_vless ops xs j = (j', True) \<Longrightarrow> vv j' = vv j - set xs"
    "add_vless ops us j = (j', True) \<Longrightarrow> vv j' = vv j \<union> vu_uuid ` set us"
    "del_hy2 ops xs j = (j', True) \<Longrightarrow> hv j' = hv j - set xs"
    "add_hy2 ops hs ids j = (j', True) \<Longrightarrow> hv j' = hv j \<union> hu_password ` set hs" for xs us hs ids j j'
    using assms by (simp_all add: box_contract_def)
  show "if_any dv (del_vless ops) i = (i', True) \<Longrightarrow> vv i' = vv i - set dv"
    by (rule if_any_del [OF C(1)])
  show "if_any dh (del_hy2 ops) i = (i', True) \<Longrightarrow> hv i' = hv i - set dh"
    by (rule if_any_del [OF C(3)])
  show "if_any (map vless_user_of av) (add_vless ops) i = (i', True) \<Longrightarrow> vv i' = vv i \<union> UUID ` set av"
    unfolding image_user_of [symmetric] by (rule if_any_add [OF C(2)])
  show "if_any (map hy2_user_of ah) (\<lambda>us. add_hy2 ops us ids) i = (i', True) \<Longrightarrow> hv i' = hv i \<union> Password ` set ah"
    unfolding image_user_of [symmetric] by (rule if_any_add [OF C(4)])
qed

lemma apply_inbounds_changed:
  assumes c: "box_contract ops vv hv"
  shows "apply_inbounds ops dv av dh ah inb = (inb', True) \<Longrightarrow> list_all2 (changed vv hv dv av dh ah) inb inb'"
proof (induction inb arbitrary: inb')
  case (Cons x rest)
  note D = box_contractD [OF c]
  obtain tag kind i where x: "x = (tag, kind, i)" by (cases x)
  obtain i1 i2 rest' where r: "apply_inbounds ops dv av dh ah rest = (rest', True)" "inb' = (tag, kind, i2) # rest'"
    and v: "kind = VlessInbound \<Longrightarrow> if_any dv (del_vless ops) i = (i1, True)
        \<and> if_any (map vless_user_of av) (add_vless ops) i1 = (i2, True)"
    and h: "kind = Hy2Inbound \<Longrightarrow> if_any dh (del_hy2 ops) i = (i1, True)
        \<and> if_any (map hy2_user_of ah) (\<lambda>us. add_hy2 ops us (map ID ah)) i1 = (i2, True)"
    using Cons.prems by (cases kind) (auto simp: x Let_def split: prod.splits bool.splits)
  have "changed vv hv dv av dh ah x (tag, kind, i2)"
    using D(1,2) v D(3,4) h by (cases kind) (auto simp: x changed_def)
  then show ?case using Cons.IH [OF r(1)] r(2) by simp
qed simp

end
