(* ===== verification/Membership.thy ===== *)
theory Membership
  imports UserManager
begin

text \<open>
  What \<^verbatim>\<open>ApplyBox\<close> achieves: the inbounds hold exactly the secrets of the users, the
  limiters follow the users' limits, and the secrets resolve to the users' ids.
\<close>

section \<open>Inbounds hold the users\<close>

definition secrets_of :: "(user \<Rightarrow> string) \<Rightarrow> (int, user) gomap \<Rightarrow> string set" where
  "secrets_of secret m = secret ` snd ` set m - {[]}"

definition own_secrets :: "(user \<Rightarrow> string) \<Rightarrow> (int, user) gomap \<Rightarrow> bool" where
  "own_secrets secret m \<longleftrightarrow> (\<forall>(i, u) \<in> set m. \<forall>(j, v) \<in> set m. secret u = secret v \<longrightarrow> secret u \<noteq> [] \<longrightarrow> i = j)"

definition some_order :: "((int \<times> user) list \<Rightarrow> (int \<times> user) list) \<Rightarrow> bool" where
  "some_order perm \<longleftrightarrow> (\<forall>xs. mset (perm xs) = mset xs)"

lemma some_orderD:
  assumes "some_order perm"
  shows "set (perm xs) = set xs" and "distinct (map fst (perm xs)) = distinct (map fst xs)"
proof -
  have m: "mset (perm xs) = mset xs" using assms by (simp add: some_order_def)
  then show "set (perm xs) = set xs" by (rule mset_eq_setD)
  have "mset (map fst (perm xs)) = mset (map fst xs)" using m by simp
  then show "distinct (map fst (perm xs)) = distinct (map fst xs)" by (rule mset_eq_imp_distinct_iff)
qed

lemma in_secrets_of: "s \<in> secrets_of secret m \<longleftrightarrow> s \<noteq> [] \<and> (\<exists>uid u. (uid, u) \<in> set m \<and> secret u = s)"
  by (force simp: secrets_of_def)

lemma set_to_delete: "s \<in> set (to_delete secret old nxt) \<longleftrightarrow>
    s \<noteq> [] \<and> (\<exists>uid u. (uid, u) \<in> set old \<and> revoked nxt (uid, u) \<and> secret u = s)"
  by (force simp: to_delete_def)

lemma set_to_add: "u \<in> set (to_add secret old nxt) \<longleftrightarrow>
    secret u \<noteq> [] \<and> (\<exists>uid. (uid, u) \<in> set nxt \<and> \<not> unchanged old (uid, u))"
  by (force simp: to_add_def)

lemma delete_add:
  assumes wf: "wf_map old" "wf_map nxt" and own: "own_secrets secret old"
    and secret: "secret = UUID \<or> secret = Password" and perm: "set nxt' = set nxt"
  shows "secrets_of secret old - set (to_delete secret old nxt) \<union> secret ` set (to_add secret old nxt') = secrets_of secret nxt"
    (is "?A - ?D \<union> ?B = ?C")
proof (intro equalityI subsetI)
  fix s assume "s \<in> ?A - ?D \<union> ?B"
  then consider uid u where "(uid, u) \<in> set old" "secret u = s" "s \<noteq> []" "\<not> revoked nxt (uid, u)" | "s \<in> ?B"
    unfolding Un_iff Diff_iff in_secrets_of set_to_delete by blast
  then show "s \<in> ?C"
  proof cases
    case 1
    then obtain nu where "mget nxt uid = Some nu" "secret nu = s"
      using secret by (auto simp: revoked_def split: option.splits)
    then show ?thesis using 1(3) by (auto simp: in_secrets_of dest: mget_Some_in)
  next
    case 2
    then obtain uid u where "s = secret u" "secret u \<noteq> []" "(uid, u) \<in> set nxt"
      using perm by (auto simp: set_to_add)
    then show ?thesis by (auto simp: in_secrets_of)
  qed
next
  fix s assume "s \<in> ?C"
  then obtain uid nu where n: "(uid, nu) \<in> set nxt" "secret nu = s" "s \<noteq> []" by (auto simp: in_secrets_of)
  show "s \<in> ?A - ?D \<union> ?B"
  proof (cases "unchanged old (uid, nu)")
    case False
    then have "nu \<in> set (to_add secret old nxt')" using n perm by (auto simp: set_to_add)
    then show ?thesis using n(2) by auto
  next
    case True
    then have o: "(uid, nu) \<in> set old" by (auto simp: unchanged_def dest: mget_Some_in)
    have "s \<notin> ?D"
    proof
      assume "s \<in> ?D"
      then obtain j v where v: "(j, v) \<in> set old" "revoked nxt (j, v)" "secret v = s" by (auto simp: set_to_delete)
      then have "j = uid" using own o n(2,3) by (fastforce simp: own_secrets_def)
      then have "v = nu" using in_mget [OF wf(1) v(1)] in_mget [OF wf(1) o] by simp
      then show False using v(2) in_mget [OF wf(2) n(1)] \<open>j = uid\<close> by (simp add: revoked_def)
    qed
    then show ?thesis using o n by (auto simp: in_secrets_of)
  qed
qed

lemma list_all2_right: "list_all2 P xs ys \<Longrightarrow> y \<in> set ys \<Longrightarrow> \<exists>x \<in> set xs. P x y"
  by (induction rule: list_all2_induct) auto

definition box_synced :: "('i \<Rightarrow> string set) \<Rightarrow> ('i \<Rightarrow> string set) \<Rightarrow> (int, user) gomap \<Rightarrow> 'i inbounds \<Rightarrow> bool" where
  "box_synced vv hv users inb \<longleftrightarrow> (\<forall>(tag, kind, i) \<in> set inb.
     (kind = VlessInbound \<longrightarrow> vv i = secrets_of UUID users) \<and> (kind = Hy2Inbound \<longrightarrow> hv i = secrets_of Password users))"

lemma apply_box_success:
  assumes "apply_box enabled perm ops now inb users m = (inb', m', True)"
  shows "apply_inbounds ops (to_delete UUID (um_users m) (next_users users)) (to_add UUID (um_users m) (perm (next_users users)))
      (to_delete Password (um_users m) (next_users users)) (to_add Password (um_users m) (perm (next_users users))) inb = (inb', True)"
    and "m' = (fold (\<lambda>(uid, nu). update_limiter enabled now nu) (perm (next_users users))
      (close_departed (um_users m) (next_users users) m))\<lparr>um_users := next_users users, um_by_secret := next_secrets users\<rparr>"
  using assms by (auto simp: apply_box_def Let_def split: prod.splits bool.splits)

lemma box_synced_step:
  assumes "box_contract ops vv hv" and "some_order perm" and "wf_map (um_users m)"
    and "own_secrets UUID (um_users m)" and "own_secrets Password (um_users m)"
    and "box_synced vv hv (um_users m) inb"
    and "apply_box enabled perm ops now inb users m = (inb', m', True)"
  shows "box_synced vv hv (next_users users) inb'"
proof -
  note S = apply_box_success(1) [OF assms(7)]
  have "wf_map (next_users users)" by (rule wf_next_users)
  note D = delete_add [OF assms(3) this _ _ some_orderD(1) [OF assms(2)]]
  have r: "list_all2 (changed vv hv (to_delete UUID (um_users m) (next_users users)) (to_add UUID (um_users m) (perm (next_users users)))
      (to_delete Password (um_users m) (next_users users)) (to_add Password (um_users m) (perm (next_users users)))) inb inb'"
    by (rule apply_inbounds_changed [OF assms(1) S])
  show ?thesis unfolding box_synced_def
  proof clarify
    fix tag kind i' assume "(tag, kind, i') \<in> set inb'"
    then obtain x where x: "x \<in> set inb" "changed vv hv (to_delete UUID (um_users m) (next_users users))
        (to_add UUID (um_users m) (perm (next_users users))) (to_delete Password (um_users m) (next_users users))
        (to_add Password (um_users m) (perm (next_users users))) x (tag, kind, i')"
      using list_all2_right [OF r] by blast
    then obtain i where "x = (tag, kind, i)" by (cases x) (auto simp: changed_def)
    moreover from this x(1) have "(kind = VlessInbound \<longrightarrow> vv i = secrets_of UUID (um_users m))
        \<and> (kind = Hy2Inbound \<longrightarrow> hv i = secrets_of Password (um_users m))"
      using assms(6) unfolding box_synced_def by blast
    ultimately show "(kind = VlessInbound \<longrightarrow> vv i' = secrets_of UUID (next_users users))
        \<and> (kind = Hy2Inbound \<longrightarrow> hv i' = secrets_of Password (next_users users))"
      using x(2) D [OF assms(4)] D [OF assms(5)] by (simp add: changed_def)
  qed
qed

text \<open>C13. When sing-box does what the code relies on, a successful \<^verbatim>\<open>ApplyBox\<close> leaves every VLESS
  inbound with exactly the UUIDs, and every Hysteria2 inbound with exactly the passwords, of the users it
  was given, provided that no two users it knew before shared one.\<close>

theorem apply_box_membership:
  assumes "box_contract ops vv hv" and "some_order perm" and "wf_map (um_users m)"
    and "own_secrets UUID (um_users m)" and "own_secrets Password (um_users m)"
    and "box_synced vv hv (um_users m) inb"
    and "apply_box enabled perm ops now inb users m = (inb', m', True)"
  shows "um_users m' = next_users users \<and> box_synced vv hv (um_users m') inb'"
  using box_synced_step [OF assms] apply_box_success(2) [OF assms(7)] by simp

text \<open>Inbounds as lists of names that can be told to refuse additions.\<close>

record list_inbound =
  li_names :: "string list"
  li_broken :: bool

definition list_ops :: "list_inbound box_ops" where
  "list_ops = \<lparr>del_vless = (\<lambda>xs i. (i\<lparr>li_names := filter (\<lambda>n. n \<notin> set xs) (li_names i)\<rparr>, True)),
     add_vless = (\<lambda>us i. if li_broken i then (i, False) else (i\<lparr>li_names := li_names i @ map vu_uuid us\<rparr>, True)),
     del_hy2 = (\<lambda>xs i. (i\<lparr>li_names := filter (\<lambda>n. n \<notin> set xs) (li_names i)\<rparr>, True)),
     add_hy2 = (\<lambda>us ids i. if li_broken i then (i, False) else (i\<lparr>li_names := li_names i @ map hu_password us\<rparr>, True))\<rparr>"

definition list_view :: "list_inbound \<Rightarrow> string set" where
  "list_view i = set (li_names i)"

lemma list_contract: "box_contract list_ops list_view list_view"
  by (auto simp: box_contract_def list_ops_def list_view_def)

definition two_users :: "user list" where
  "two_users = [\<lparr>ID = 1, UUID = ''a'', Password = ''a'', Name = ''1'', SpeedLimit = 0\<rparr>,
     \<lparr>ID = 2, UUID = ''b'', Password = ''c'', Name = ''2'', SpeedLimit = 0\<rparr>]"

definition manager_of :: "user list \<Rightarrow> user_manager" where
  "manager_of us = \<lparr>um_users = next_users us, um_by_secret = next_secrets us, um_node_limit = None,
     um_limiters = [], um_memory = []\<rparr>"

text \<open>User 2 is replaced by a user 3 that takes over the UUID of user 1, who gets a new one.\<close>

definition next_two :: "user list" where
  "next_two = [\<lparr>ID = 1, UUID = ''d'', Password = ''a'', Name = ''1'', SpeedLimit = 0\<rparr>,
     \<lparr>ID = 3, UUID = ''a'', Password = ''e'', Name = ''3'', SpeedLimit = 0\<rparr>]"

definition demo_inbounds :: "list_inbound inbounds" where
  "demo_inbounds = [(''vless-in'', VlessInbound, \<lparr>li_names = [''a'', ''b''], li_broken = False\<rparr>),
     (''hy2-in'', Hy2Inbound, \<lparr>li_names = [''c'', ''a''], li_broken = False\<rparr>)]"

lemma demo_apply: "fst (apply_box True id list_ops 0 demo_inbounds next_two (manager_of two_users))
    = [(''vless-in'', VlessInbound, \<lparr>li_names = [''d'', ''a''], li_broken = False\<rparr>),
       (''hy2-in'', Hy2Inbound, \<lparr>li_names = [''a'', ''e''], li_broken = False\<rparr>)]"
  "snd (snd (apply_box True id list_ops 0 demo_inbounds next_two (manager_of two_users)))"
  by code_simp+

theorem apply_box_membership_witness:
  "box_synced list_view list_view (next_users next_two)
     [(''vless-in'', VlessInbound, \<lparr>li_names = [''d'', ''a''], li_broken = False\<rparr>),
      (''hy2-in'', Hy2Inbound, \<lparr>li_names = [''a'', ''e''], li_broken = False\<rparr>)]"
proof -
  obtain m' where m': "apply_box True id list_ops 0 demo_inbounds next_two (manager_of two_users)
      = ([(''vless-in'', VlessInbound, \<lparr>li_names = [''d'', ''a''], li_broken = False\<rparr>),
          (''hy2-in'', Hy2Inbound, \<lparr>li_names = [''a'', ''e''], li_broken = False\<rparr>)], m', True)"
    using demo_apply by (metis prod.collapse)
  have "box_synced list_view list_view (um_users (manager_of two_users)) demo_inbounds"
    by (auto simp: box_synced_def demo_inbounds_def list_view_def secrets_of_def manager_of_def two_users_def next_users_def)
  moreover have "own_secrets UUID (um_users (manager_of two_users))" "own_secrets Password (um_users (manager_of two_users))"
    by (simp_all add: own_secrets_def manager_of_def two_users_def next_users_def)
  moreover have "some_order id" by (simp add: some_order_def)
  ultimately show ?thesis
    using apply_box_membership [OF list_contract _ _ _ _ _ m'] wf_next_users by (auto simp: manager_of_def)
qed

section \<open>A failed ApplyBox\<close>

lemma apply_inbounds_append:
  assumes "apply_inbounds ops dv av dh ah xs = (xs', True)"
  shows "apply_inbounds ops dv av dh ah (xs @ ys) = (case apply_inbounds ops dv av dh ah ys of (ys', ok) \<Rightarrow> (xs' @ ys', ok))"
  using assms
proof (induction xs arbitrary: xs')
  case (Cons x xs)
  obtain tag kind i where x: "x = (tag, kind, i)" by (cases x)
  show ?case using Cons by (auto simp: x Let_def split: prod.splits bool.splits)
qed simp

lemma um_users_update_limiter: "um_users (update_limiter enabled now u m) = um_users m"
  by (auto simp: update_limiter_def close_limiter_of_def new_limiter_pair_def Let_def split: option.split)

lemma um_users_loops:
  "um_users (fold (\<lambda>(uid, nu). update_limiter enabled now nu) xs (close_departed ys nxt m)) = um_users m"
proof -
  have "um_users (fold (\<lambda>(uid, nu). update_limiter enabled now nu) xs m) = um_users m" for m
    by (induction xs arbitrary: m) (auto simp: um_users_update_limiter)
  moreover have "um_users (fold (\<lambda>(uid, old). if mget nxt uid = None then close_limiter_of uid else id) ys m) = um_users m" for m
    by (induction ys arbitrary: m) (auto simp: close_limiter_of_def split: option.split)
  moreover have "close_departed ys nxt m = fold (\<lambda>(uid, old). if mget nxt uid = None then close_limiter_of uid else id) ys m"
    unfolding close_departed_def by (intro fold_cong) (auto simp: fun_eq_iff)
  ultimately show ?thesis by simp
qed

lemma apply_box_failure:
  assumes "apply_box enabled perm ops now inb users m = (inb', m', False)"
  shows "um_users m' = um_users m" and "apply_inbounds ops (to_delete UUID (um_users m) (next_users users))
      (to_add UUID (um_users m) (perm (next_users users))) (to_delete Password (um_users m) (next_users users))
      (to_add Password (um_users m) (perm (next_users users))) inb = (inb', False)"
  using assms um_users_loops by (auto simp: apply_box_def Let_def split: prod.splits bool.splits)

text \<open>Successive successful calls, with what the other parameters are then.\<close>

fun apply_boxes :: "bool \<Rightarrow> ((int \<times> user) list \<Rightarrow> (int \<times> user) list) \<Rightarrow> 'i box_ops \<Rightarrow> (int \<times> user list) list \<Rightarrow>
    'i inbounds \<times> user_manager \<Rightarrow> ('i inbounds \<times> user_manager) option" where
  "apply_boxes enabled perm ops [] x = Some x"
| "apply_boxes enabled perm ops ((now, users) # calls) (inb, m) = (case apply_box enabled perm ops now inb users m of
     (inb', m', ok) \<Rightarrow> if ok then apply_boxes enabled perm ops calls (inb', m') else None)"

text \<open>\<open>admits\<close> says that an inbound lets a user in, by the secret of its protocol.\<close>

fun box_admits :: "('i \<Rightarrow> string set) \<Rightarrow> ('i \<Rightarrow> string set) \<Rightarrow> user \<Rightarrow> string \<times> inbound_kind \<times> 'i \<Rightarrow> bool" where
  "box_admits vv hv u (tag, VlessInbound, i) \<longleftrightarrow> UUID u \<in> vv i"
| "box_admits vv hv u (tag, Hy2Inbound, i) \<longleftrightarrow> Password u \<in> hv i"
| "box_admits vv hv u (tag, OtherInbound, i) \<longleftrightarrow> True"

abbreviation stranger :: "user \<Rightarrow> (int, user) gomap \<Rightarrow> bool" where
  "stranger u users \<equiv> UUID u \<notin> secrets_of UUID users \<and> Password u \<notin> secrets_of Password users"

lemma deleted_known: "s \<in> set (to_delete secret old nxt) \<Longrightarrow> s \<in> secrets_of secret old"
  by (auto simp: set_to_delete in_secrets_of)

lemma admits_changed:
  assumes "changed vv hv (to_delete UUID old nxt) av (to_delete Password old nxt) ah x y" and "stranger u old"
    and "box_admits vv hv u x \<or> u \<in> set av \<and> u \<in> set ah"
  shows "box_admits vv hv u y"
proof -
  obtain tag kind i where x: "x = (tag, kind, i)" by (cases x)
  obtain tag' kind' i' where y: "y = (tag', kind', i')" by (cases y)
  show ?thesis using assms deleted_known [of "UUID u" UUID old nxt] deleted_known [of "Password u" Password old nxt]
    by (cases kind) (auto simp: x y changed_def)
qed

lemma list_all_take_step:
  "list_all2 R xs ys \<Longrightarrow> list_all P (take k xs) \<Longrightarrow> (\<And>x y. R x y \<Longrightarrow> P x \<Longrightarrow> Q y) \<Longrightarrow> list_all Q (take k ys)"
  by (induction arbitrary: k rule: list_all2_induct) (auto simp: take_Cons split: nat.splits)

lemma stranger_stays:
  assumes "box_contract ops vv hv" and "some_order perm"
  shows "apply_boxes enabled perm ops calls (inb, m) = Some (inb', m') \<Longrightarrow> stranger u (um_users m) \<Longrightarrow>
    \<forall>(now, us) \<in> set calls. stranger u (next_users us) \<Longrightarrow> k \<le> length inb \<Longrightarrow> list_all (box_admits vv hv u) (take k inb) \<Longrightarrow>
    list_all (box_admits vv hv u) (take k inb') \<and> stranger u (um_users m')"
proof (induction calls arbitrary: inb m)
  case (Cons c calls)
  obtain now us where c: "c = (now, us)" by (cases c)
  obtain inb1 m1 where a: "apply_box enabled perm ops now inb us m = (inb1, m1, True)"
    and r: "apply_boxes enabled perm ops calls (inb1, m1) = Some (inb', m')"
    using Cons.prems(1) by (auto simp: c split: prod.splits if_splits)
  have ch: "list_all2 (changed vv hv (to_delete UUID (um_users m) (next_users us)) (to_add UUID (um_users m) (perm (next_users us)))
      (to_delete Password (um_users m) (next_users us)) (to_add Password (um_users m) (perm (next_users us)))) inb inb1"
    by (rule apply_inbounds_changed [OF assms(1) apply_box_success(1) [OF a]])
  have "list_all (box_admits vv hv u) (take k inb1)"
    by (rule list_all_take_step [OF ch Cons.prems(5)]) (erule admits_changed [OF _ Cons.prems(2)], simp)
  moreover have "um_users m1 = next_users us" using apply_box_success(2) [OF a] by simp
  moreover have "k \<le> length inb1" using ch Cons.prems(4) by (simp add: list_all2_lengthD [symmetric])
  ultimately show ?case using Cons.IH [OF r] Cons.prems(3) by (auto simp: c)
qed simp

text \<open>C36. \<^verbatim>\<open>ApplyBox\<close> is not transactional: when it fails at some inbound, every user that is new with both secrets
  has been admitted by the inbounds before that one but is not recorded, and these inbounds go on
  admitting the user through any successful later calls, although the user is on none of their lists.\<close>

theorem failed_apply_forgotten:
  assumes "box_contract ops vv hv" and "some_order perm"
    and "apply_inbounds ops (to_delete UUID (um_users m) (next_users users)) (to_add UUID (um_users m) (perm (next_users users)))
      (to_delete Password (um_users m) (next_users users)) (to_add Password (um_users m) (perm (next_users users))) before = (done1, True)"
    and "apply_box enabled perm ops now (before @ rest) users m = (inb1, m1, False)"
    and "(ID u, u) \<in> set (next_users users)" and "UUID u \<noteq> []" and "Password u \<noteq> []" and "stranger u (um_users m)"
    and "apply_boxes enabled perm ops calls (inb1, m1) = Some (inb2, m2)"
    and "\<forall>(now, us) \<in> set calls. stranger u (next_users us)"
  shows "um_users m1 = um_users m \<and> list_all (box_admits vv hv u) (take (length before) inb1)
    \<and> list_all (box_admits vv hv u) (take (length before) inb2) \<and> stranger u (um_users m2)"
proof -
  note F = apply_box_failure [OF assms(4)]
  obtain rest1 where i1: "inb1 = done1 @ rest1"
    using F(2) apply_inbounds_append [OF assms(3), of rest] by (auto split: prod.splits)
  have ch: "list_all2 (changed vv hv (to_delete UUID (um_users m) (next_users users)) (to_add UUID (um_users m) (perm (next_users users)))
      (to_delete Password (um_users m) (next_users users)) (to_add Password (um_users m) (perm (next_users users)))) before done1"
    by (rule apply_inbounds_changed [OF assms(1,3)])
  then have l: "length done1 = length before" by (simp add: list_all2_lengthD)
  have "\<not> unchanged (um_users m) (ID u, u)"
    using assms(6,8) by (auto simp: unchanged_def in_secrets_of dest: mget_Some_in split: option.splits)
  then have "u \<in> set (to_add UUID (um_users m) (perm (next_users users)))" "u \<in> set (to_add Password (um_users m) (perm (next_users users)))"
    using assms(5-7) some_orderD(1) [OF assms(2)] by (auto simp: set_to_add)
  then have "list_all (box_admits vv hv u) (take (length before) done1)"
    by (intro list_all_take_step [OF ch, of "\<lambda>_. True"]) (auto intro: admits_changed [OF _ assms(8)] simp: list_all_iff)
  then have "list_all (box_admits vv hv u) (take (length before) inb1)" by (simp add: i1 l)
  moreover have "stranger u (um_users m1)" using F(1) assms(8) by simp
  moreover have "length before \<le> length inb1" by (simp add: i1 l)
  ultimately show ?thesis using stranger_stays [OF assms(1,2,9) _ assms(10)] F(1) by blast
qed

definition half_broken :: "list_inbound inbounds" where
  "half_broken = [(''vless-in'', VlessInbound, \<lparr>li_names = [], li_broken = False\<rparr>),
     (''hy2-in'', Hy2Inbound, \<lparr>li_names = [], li_broken = True\<rparr>)]"

lemma half_broken_run:
  "case apply_box True id list_ops 0 half_broken two_users (manager_of []) of (inb1, m1, ok) \<Rightarrow> \<not> ok
     \<and> (case apply_boxes True id list_ops [(1, [])] (inb1, m1) of None \<Rightarrow> False | Some (inb2, m2) \<Rightarrow> length inb2 = 2)"
  by code_simp

lemma half_broken_first:
  "apply_inbounds list_ops (to_delete UUID [] (next_users two_users)) (to_add UUID [] (id (next_users two_users)))
      (to_delete Password [] (next_users two_users)) (to_add Password [] (id (next_users two_users))) (take 1 half_broken)
    = ([(''vless-in'', VlessInbound, \<lparr>li_names = [''a'', ''b''], li_broken = False\<rparr>)], True)"
  by code_simp

theorem failed_apply_forgotten_witness:
  "\<exists>inb1 m1 inb2 m2. apply_box True id list_ops 0 half_broken two_users (manager_of []) = (inb1, m1, False)
     \<and> apply_boxes True id list_ops [(1, [])] (inb1, m1) = Some (inb2, m2)
     \<and> box_admits list_view list_view (two_users ! 0) (hd inb2) \<and> length inb2 = 2 \<and> stranger (two_users ! 0) (um_users m2)"
proof -
  let ?u = "two_users ! 0"
  have mm: "um_users (manager_of []) = []" by (simp add: manager_of_def next_users_def)
  obtain inb1 m1 inb2 m2 where a: "apply_box True id list_ops 0 half_broken two_users (manager_of []) = (inb1, m1, False)"
    and c: "apply_boxes True id list_ops [(1, [])] (inb1, m1) = Some (inb2, m2)" and l: "length inb2 = 2"
    using half_broken_run by (auto split: prod.splits option.splits simp del: apply_boxes.simps)
  have a': "apply_box True id list_ops 0 (take 1 half_broken @ drop 1 half_broken) two_users (manager_of []) = (inb1, m1, False)"
    using a by simp
  have s: "stranger ?u (um_users (manager_of []))" "stranger ?u (next_users [])" by (simp_all add: mm next_users_def secrets_of_def)
  have u: "(ID ?u, ?u) \<in> set (next_users two_users)" "UUID ?u \<noteq> []" "Password ?u \<noteq> []" by (simp_all add: two_users_def next_users_def)
  have "some_order id" by (simp add: some_order_def)
  from failed_apply_forgotten [OF list_contract this half_broken_first [folded mm] a' u s(1) c] s(2)
  have "list_all (box_admits list_view list_view ?u) (take 1 inb2)" "stranger ?u (um_users m2)"
    by (auto simp: half_broken_def)
  then show ?thesis using a c l by (cases inb2) auto
qed

end
