(* ===== verification/UserLimits.thy ===== *)
theory UserLimits
  imports Membership
begin

text \<open>
  The limiters of the user manager across \<^verbatim>\<open>ApplyBox\<close>: which pair belongs to whom, which
  memory an operation may touch, and that every user's limiters follow the user's limit.
\<close>

section \<open>Ownership\<close>

definition addrs :: "limiter_pair \<Rightarrow> nat set" where
  "addrs p = {lp_rx p, lp_tx p}"

text \<open>The node's pair has the key \<open>None\<close>.\<close>

definition owner :: "user_manager \<Rightarrow> int option \<Rightarrow> limiter_pair option" where
  "owner m k = (case k of None \<Rightarrow> um_node_limit m | Some uid \<Rightarrow> mget (um_limiters m) uid)"

definition pairs_ok :: "user_manager \<Rightarrow> bool" where
  "pairs_ok m \<longleftrightarrow> (\<forall>k p. owner m k = Some p \<longrightarrow> lp_rx p \<noteq> lp_tx p \<and> addrs p \<subseteq> {..<length (um_memory m)})
     \<and> (\<forall>k k' p p'. owner m k = Some p \<longrightarrow> owner m k' = Some p' \<longrightarrow> k \<noteq> k' \<longrightarrow> addrs p \<inter> addrs p' = {})
     \<and> (\<forall>uid p. owner m (Some uid) = Some p \<longrightarrow> (\<forall>a \<in> addrs p. \<not> lm_closed (um_memory m ! a)))"

lemma pairs_okD:
  assumes "pairs_ok m" and "owner m k = Some p"
  shows "lp_rx p \<noteq> lp_tx p" and "a \<in> addrs p \<Longrightarrow> a < length (um_memory m)"
    and "owner m k' = Some p' \<Longrightarrow> k \<noteq> k' \<Longrightarrow> a \<in> addrs p \<Longrightarrow> a \<notin> addrs p'"
  using assms unfolding pairs_ok_def by blast+

lemma pairs_ok_open: "pairs_ok m \<Longrightarrow> owner m (Some uid) = Some p \<Longrightarrow> a \<in> addrs p \<Longrightarrow> \<not> lm_closed (um_memory m ! a)"
  unfolding pairs_ok_def by blast

text \<open>A step on the owners \<open>K\<close>: new pairs are fresh, and memory that \<open>K\<close> does not own stays.\<close>

definition frame :: "int option set \<Rightarrow> user_manager \<Rightarrow> user_manager \<Rightarrow> bool" where
  "frame K m m' \<longleftrightarrow> pairs_ok m' \<and> um_users m' = um_users m \<and> length (um_memory m) \<le> length (um_memory m')
     \<and> (\<forall>k. k \<notin> K \<longrightarrow> owner m' k = owner m k)
     \<and> (\<forall>k p. owner m' k = Some p \<longrightarrow> owner m k = Some p \<or> addrs p \<inter> {..<length (um_memory m)} = {})
     \<and> (\<forall>a < length (um_memory m). (\<forall>k \<in> K. \<forall>p. owner m k = Some p \<longrightarrow> a \<notin> addrs p)
          \<longrightarrow> um_memory m' ! a = um_memory m ! a)"

lemma frameD:
  assumes "frame K m m'"
  shows "pairs_ok m'" and "um_users m' = um_users m" and "length (um_memory m) \<le> length (um_memory m')"
    and "k \<notin> K \<Longrightarrow> owner m' k = owner m k"
    and "owner m' k = Some p \<Longrightarrow> owner m k = Some p \<or> addrs p \<inter> {..<length (um_memory m)} = {}"
    and "a < length (um_memory m) \<Longrightarrow> (\<And>k p. k \<in> K \<Longrightarrow> owner m k = Some p \<Longrightarrow> a \<notin> addrs p) \<Longrightarrow> um_memory m' ! a = um_memory m ! a"
  using assms unfolding frame_def by blast+

lemma frame_refl: "pairs_ok m \<Longrightarrow> frame K m m"
  by (simp add: frame_def)

lemma frame_mono: "frame K m m' \<Longrightarrow> K \<subseteq> L \<Longrightarrow> frame L m m'"
  unfolding frame_def by blast

lemma frame_trans:
  assumes "frame K m m1" and "frame L m1 m2"
  shows "frame (K \<union> L) m m2"
proof -
  note A = frameD [OF assms(1)] and B = frameD [OF assms(2)]
  have own: "owner m k = Some p \<or> addrs p \<inter> {..<length (um_memory m)} = {}" if "owner m2 k = Some p" for k p
    using B(5) [OF that] A(3,5) by (meson disjoint_iff lessThan_iff order_less_le_trans)
  have mem: "um_memory m2 ! a = um_memory m ! a"
    if a: "a < length (um_memory m)" "\<And>k p. k \<in> K \<union> L \<Longrightarrow> owner m k = Some p \<Longrightarrow> a \<notin> addrs p" for a
  proof -
    have "a \<notin> addrs p" if "k \<in> L" "owner m1 k = Some p" for k p
      using A(5) [OF that(2)] a that(1) by auto
    then have "um_memory m2 ! a = um_memory m1 ! a" using B(6) A(3) a(1) by auto
    then show ?thesis using A(6) a by auto
  qed
  show ?thesis unfolding frame_def using A B own mem by (auto intro: order_trans)
qed

section \<open>What a step does to its own limiters\<close>

definition closed_pair :: "user_manager \<Rightarrow> limiter_pair \<Rightarrow> bool" where
  "closed_pair m p \<longleftrightarrow> (\<forall>a \<in> addrs p. lm_closed (um_memory m ! a))"

definition kept :: "int \<Rightarrow> user_manager \<Rightarrow> user_manager \<Rightarrow> bool" where
  "kept uid m m' \<longleftrightarrow> (\<forall>p. owner m (Some uid) = Some p \<longrightarrow>
     owner m' (Some uid) = Some p \<or> owner m' (Some uid) = None \<and> closed_pair m' p)"

definition follows :: "user_manager \<Rightarrow> int \<Rightarrow> user \<Rightarrow> bool" where
  "follows m uid u \<longleftrightarrow> (case owner m (Some uid) of None \<Rightarrow> SpeedLimit u \<le> 0
     | Some p \<Rightarrow> 0 < SpeedLimit u \<and> (\<forall>a \<in> addrs p. lm_rate (um_memory m ! a) = mbps_to_bytes (SpeedLimit u)
         \<and> \<not> lm_closed (um_memory m ! a)))"

lemma unowned_elsewhere:
  assumes "pairs_ok m" and "owner m (Some uid) = Some p" and "Some uid \<notin> K" and "a \<in> addrs p" and "k \<in> K"
    and "owner m k = Some p'"
  shows "a \<notin> addrs p'"
  using pairs_okD(3) [OF assms(1,2) assms(6) _ assms(4)] assms(3,5) by blast

lemma follows_frame:
  assumes "frame K m m'" and "pairs_ok m" and "Some uid \<notin> K" and "follows m uid u"
  shows "follows m' uid u"
proof (cases "owner m (Some uid)")
  case None
  then show ?thesis using assms frameD(4) [OF assms(1,3)] by (simp add: follows_def)
next
  case (Some p)
  have "um_memory m' ! a = um_memory m ! a" if "a \<in> addrs p" for a
    by (rule frameD(6) [OF assms(1) pairs_okD(2) [OF assms(2) Some that]])
      (rule unowned_elsewhere [OF assms(2) Some assms(3) that])
  then show ?thesis using assms(4) Some frameD(4) [OF assms(1,3)] by (simp add: follows_def)
qed

lemma kept_frame:
  assumes "pairs_ok m" and "frame L m m1" and "kept uid m m1" and "frame K m1 m2" and "Some uid \<notin> K"
  shows "kept uid m m2"
  unfolding kept_def
proof (intro allI impI)
  fix p assume p: "owner m (Some uid) = Some p"
  have o: "owner m2 (Some uid) = owner m1 (Some uid)" using frameD(4) [OF assms(4,5)] .
  have "um_memory m2 ! a = um_memory m1 ! a" if a: "a \<in> addrs p" for a
  proof (rule frameD(6) [OF assms(4)])
    show "a < length (um_memory m1)"
      using pairs_okD(2) [OF assms(1) p a] frameD(3) [OF assms(2)] by simp
    fix k q assume k: "k \<in> K" "owner m1 k = Some q"
    from frameD(5) [OF assms(2) k(2)] show "a \<notin> addrs q"
      using unowned_elsewhere [OF assms(1) p assms(5) a k(1)] pairs_okD(2) [OF assms(1) p a] by auto
  qed
  then show "owner m2 (Some uid) = Some p \<or> owner m2 (Some uid) = None \<and> closed_pair m2 p"
    using assms(3) p o by (auto simp: kept_def closed_pair_def)
qed

lemma kept_refl: "kept uid m m"
  by (simp add: kept_def)

text \<open>A loop over distinct keys, one step per key.\<close>

definition acts :: "(int \<Rightarrow> 'x \<Rightarrow> user_manager \<Rightarrow> user_manager) \<Rightarrow> bool" where
  "acts f \<longleftrightarrow> (\<forall>uid x m. pairs_ok m \<longrightarrow> frame {Some uid} m (f uid x m) \<and> kept uid m (f uid x m))"

lemma fold_acts:
  assumes f: "acts f"
  shows "pairs_ok m \<Longrightarrow> distinct (map fst xs) \<Longrightarrow>
    frame (Some ` fst ` set xs) m (fold (\<lambda>(uid, x). f uid x) xs m) \<and>
    (\<forall>uid. kept uid m (fold (\<lambda>(uid, x). f uid x) xs m))"
proof (induction xs arbitrary: m)
  case Nil
  then show ?case by (simp add: frame_refl kept_def)
next
  case (Cons y xs)
  obtain uid x where y: "y = (uid, x)" by (cases y)
  let ?m1 = "f uid x m" and ?m2 = "fold (\<lambda>(uid, x). f uid x) (y # xs) m"
  have s: "frame {Some uid} m ?m1" "kept uid m ?m1" using f Cons.prems(1) unfolding acts_def by blast+
  have IH: "frame (Some ` fst ` set xs) ?m1 ?m2" "\<And>u. kept u ?m1 ?m2"
    using Cons.IH [OF frameD(1) [OF s(1)]] Cons.prems(2) by (simp_all add: y)
  have n: "Some uid \<notin> Some ` fst ` set xs" using Cons.prems(2) by (auto simp: y)
  have "frame (Some ` fst ` set (y # xs)) m ?m2"
    using frame_trans [OF s(1) IH(1)] by (simp add: y)
  moreover have "kept u m ?m2" for u
  proof (cases "u = uid")
    case True
    then show ?thesis using kept_frame [OF Cons.prems(1) s IH(1) n] by simp
  next
    case False
    then have "owner ?m1 (Some u) = owner m (Some u)" using frameD(4) [OF s(1)] by simp
    then show ?thesis using IH(2) [of u] by (simp add: kept_def)
  qed
  ultimately show ?case by blast
qed

section \<open>The steps\<close>

lemma owner_simps [simp]:
  "owner (m\<lparr>um_memory := mem\<rparr>) k = owner m k"
  "owner (m\<lparr>um_users := us, um_by_secret := ss\<rparr>) k = owner m k"
  by (simp_all add: owner_def split: option.split)

lemma owner_mdel: "owner (m\<lparr>um_memory := mem, um_limiters := mdel uid (um_limiters m)\<rparr>) k
    = (if k = Some uid then None else owner m k)"
  by (simp add: owner_def gomap_simps split: option.split)

lemma owner_mput: "owner (m\<lparr>um_memory := mem, um_limiters := mput uid p (um_limiters m)\<rparr>) k
    = (if k = Some uid then Some p else owner m k)"
  by (simp add: owner_def gomap_simps split: option.split)

lemma pair_update:
  "length (pair_set_rate now r p mem) = length mem" "length (pair_close p mem) = length mem"
  "a \<notin> addrs p \<Longrightarrow> pair_set_rate now r p mem ! a = mem ! a" "a \<notin> addrs p \<Longrightarrow> pair_close p mem ! a = mem ! a"
  by (auto simp: pair_set_rate_def pair_close_def addrs_def Let_def)

lemma pair_update_own:
  assumes "lp_rx p \<noteq> lp_tx p" and "\<And>a. a \<in> addrs p \<Longrightarrow> a < length mem" and "a \<in> addrs p"
  shows "pair_set_rate now r p mem ! a = set_rate now r (mem ! a)" and "pair_close p mem ! a = close_limiter (mem ! a)"
  using assms by (auto simp: pair_set_rate_def pair_close_def addrs_def Let_def nth_list_update)

lemma set_rate_simps [simp]:
  "lm_rate (set_rate now r l) = r" "\<not> lm_closed l \<Longrightarrow> \<not> lm_closed (set_rate now r l)"
  "lm_closed (close_limiter l)" "lm_rate (new_rate_limiter now r) = r" "\<not> lm_closed (new_rate_limiter now r)"
  by (simp_all add: set_rate_def close_limiter_def new_rate_limiter_def zero_limiter_def Let_def)

lemma close_step:
  assumes "pairs_ok m"
  shows "frame {Some uid} m (close_limiter_of uid m) \<and> kept uid m (close_limiter_of uid m)
    \<and> owner (close_limiter_of uid m) (Some uid) = None"
proof (cases "owner m (Some uid)")
  case None
  then have "close_limiter_of uid m = m" by (simp add: close_limiter_of_def owner_def)
  then show ?thesis using None assms by (simp add: frame_refl kept_def)
next
  case (Some p)
  then have m': "close_limiter_of uid m
      = m\<lparr>um_memory := pair_close p (um_memory m), um_limiters := mdel uid (um_limiters m)\<rparr>"
    by (simp add: close_limiter_of_def owner_def)
  note P = pairs_okD [OF assms Some]
  have ok: "pairs_ok (close_limiter_of uid m)"
    unfolding pairs_ok_def m' owner_mdel
  proof (intro conjI allI impI ballI, goal_cases)
    case (4 uid' q a)
    then have q: "owner m (Some uid') = Some q" "uid' \<noteq> uid" by (auto split: if_splits)
    then have "a \<notin> addrs p" using pairs_okD(3) [OF assms q(1) Some] 4(2) by simp
    then show ?case using pairs_ok_open [OF assms q(1) 4(2)] by (simp add: pair_update)
  qed (use assms in \<open>auto simp: pairs_ok_def pair_update split: if_splits\<close>)
  have "frame {Some uid} m (close_limiter_of uid m)"
    unfolding frame_def using ok Some by (auto simp: m' owner_mdel pair_update split: if_splits)
  moreover have "closed_pair (close_limiter_of uid m) p"
    using pair_update_own(2) [OF P(1,2)] by (simp add: closed_pair_def m')
  ultimately show ?thesis using Some by (simp add: kept_def m' owner_mdel)
qed

lemma set_rate_step:
  fixes now :: int and r :: int64
  assumes ok: "pairs_ok m" and p: "owner m (Some uid) = Some p"
  defines "m' \<equiv> m\<lparr>um_memory := pair_set_rate now r p (um_memory m)\<rparr>"
  shows "frame {Some uid} m m' \<and> owner m' (Some uid) = Some p
    \<and> (\<forall>a \<in> addrs p. lm_rate (um_memory m' ! a) = r \<and> \<not> lm_closed (um_memory m' ! a))"
proof -
  note P = pairs_okD [OF ok p]
  have own: "um_memory m' ! a = set_rate now r (um_memory m ! a)" if "a \<in> addrs p" for a
    using pair_update_own(1) [OF P(1,2) that] by (simp add: m'_def)
  have other: "um_memory m' ! a = um_memory m ! a" if "a \<notin> addrs p" for a
    using that by (simp add: m'_def pair_update)
  have o: "owner m' k = owner m k" for k by (simp add: m'_def)
  have opn: "\<not> lm_closed (um_memory m' ! a)" if "owner m (Some uid') = Some q" "a \<in> addrs q" for uid' q a
    using pairs_ok_open [OF ok that] own other by (cases "a \<in> addrs p") simp_all
  have len: "length (um_memory m') = length (um_memory m)" by (simp add: m'_def pair_update)
  have "pairs_ok m'" using ok opn unfolding pairs_ok_def o len by blast
  then have "frame {Some uid} m m'" unfolding frame_def using other p by (auto simp: o len) (simp add: m'_def)
  then show ?thesis using p own pairs_ok_open [OF ok p] by (simp add: o)
qed

lemma new_pair_step:
  assumes ok: "pairs_ok m" and none: "owner m (Some uid) = None"
    and new: "new_limiter_pair now r (um_memory m) = (p, mem)"
  defines "m' \<equiv> m\<lparr>um_memory := mem, um_limiters := mput uid p (um_limiters m)\<rparr>"
  shows "frame {Some uid} m m' \<and> owner m' (Some uid) = Some p
    \<and> (\<forall>a \<in> addrs p. lm_rate (um_memory m' ! a) = r \<and> \<not> lm_closed (um_memory m' ! a))"
proof -
  let ?n = "length (um_memory m)"
  have p: "p = \<lparr>lp_rx = ?n, lp_tx = Suc ?n\<rparr>" "mem = um_memory m @ [new_rate_limiter now r, new_rate_limiter now r]"
    using new by (auto simp: new_limiter_pair_def)
  have a: "addrs p = {?n, Suc ?n}" by (simp add: p(1) addrs_def)
  have o: "owner m' k = (if k = Some uid then Some p else owner m k)" for k by (simp add: m'_def owner_mput)
  have len: "length (um_memory m') = ?n + 2" by (simp add: m'_def p(2))
  have old: "um_memory m' ! i = um_memory m ! i" if "i < ?n" for i using that by (simp add: m'_def p(2) nth_append)
  have fresh: "lm_rate (um_memory m' ! i) = r \<and> \<not> lm_closed (um_memory m' ! i)" if "i \<in> addrs p" for i
    using that by (auto simp: a m'_def p(2) nth_append)
  have below: "addrs q \<subseteq> {..<?n}" if "owner m k = Some q" for k q using pairs_okD(2) [OF ok that] by auto
  have disj: "addrs q \<inter> addrs p = {}" if "owner m k = Some q" for k q using below [OF that] by (auto simp: a)
  have "pairs_ok m'"
    unfolding pairs_ok_def o
  proof (intro conjI allI impI ballI, goal_cases)
    case (1 k q)
    then show ?case using pairs_okD(1) [OF ok, of k q] by (auto simp: p(1) split: if_splits)
  next
    case (2 k q)
    then show ?case using below [of k q] a len by (auto split: if_splits)
  next
    case (3 k k' q q')
    then show ?case using disj [of k q] disj [of k' q'] pairs_okD(3) [OF ok, of k q k' q'] by (auto split: if_splits)
  next
    case (4 uid' q i)
    then show ?case using fresh old below [of "Some uid'" q] pairs_ok_open [OF ok, of uid' q i]
      by (cases "uid' = uid") auto
  qed
  then have "frame {Some uid} m m'" unfolding frame_def
    using old a by (auto simp: o len) (simp add: m'_def)
  then show ?thesis using fresh by (simp add: o)
qed

lemma update_step:
  assumes ok: "pairs_ok m"
  shows "frame {Some (ID u)} m (update_limiter True now u m) \<and> kept (ID u) m (update_limiter True now u m)
    \<and> follows (update_limiter True now u m) (ID u) u"
proof (cases "SpeedLimit u \<le> 0")
  case True
  then show ?thesis using close_step [OF ok, of "ID u"] by (simp add: update_limiter_def follows_def)
next
  case False
  show ?thesis
  proof (cases "owner m (Some (ID u))")
    case (Some p)
    then have "mget (um_limiters m) (ID u) = Some p" by (simp add: owner_def)
    then show ?thesis using False set_rate_step [OF ok Some, of now "mbps_to_bytes (SpeedLimit u)"] Some
      by (simp add: update_limiter_def Let_def follows_def kept_def)
  next
    case None
    obtain p mem where n: "new_limiter_pair now (mbps_to_bytes (SpeedLimit u)) (um_memory m) = (p, mem)" by fastforce
    from None have "mget (um_limiters m) (ID u) = None" by (simp add: owner_def)
    then show ?thesis using False new_pair_step [OF ok None n] None n
      by (simp add: update_limiter_def Let_def follows_def kept_def)
  qed
qed

section \<open>ApplyBox\<close>

lemma acts_close: "acts (\<lambda>uid old m. if mget nxt uid = None then close_limiter_of uid m else m)"
  by (simp add: acts_def close_step frame_refl kept_refl)

lemma acts_update: "acts (\<lambda>uid nu m. if uid = ID nu then update_limiter True now nu m else m)"
  by (simp add: acts_def update_step frame_refl kept_refl)

lemma fold_follows:
  "pairs_ok m \<Longrightarrow> distinct (map fst xs) \<Longrightarrow> \<forall>(uid, u) \<in> set xs. uid = ID u \<Longrightarrow> (uid, u) \<in> set xs \<Longrightarrow>
    follows (fold (\<lambda>(uid, nu). (\<lambda>m. if uid = ID nu then update_limiter True now nu m else m)) xs m) uid u"
proof (induction xs arbitrary: m)
  case (Cons y xs)
  obtain i v where y: "y = (i, v)" by (cases y)
  have iv: "i = ID v" using Cons.prems(3) by (simp add: y)
  let ?m1 = "update_limiter True now v m"
  note U = update_step [OF Cons.prems(1), of v now]
  have ok1: "pairs_ok ?m1" using U frameD(1) by blast
  show ?case
  proof (cases "(uid, u) \<in> set xs")
    case True
    then show ?thesis using Cons.IH [OF ok1] Cons.prems(2,3) iv by (simp add: y)
  next
    case False
    then have uv: "uid = i" "u = v" using Cons.prems(4) by (auto simp: y)
    have "frame (Some ` fst ` set xs) ?m1
        (fold (\<lambda>(uid, nu). (\<lambda>m. if uid = ID nu then update_limiter True now nu m else m)) xs ?m1)"
      using fold_acts [OF acts_update [of now] ok1] Cons.prems(2) by (simp add: y)
    moreover have "Some uid \<notin> Some ` fst ` set xs" using Cons.prems(2) uv by (auto simp: y)
    ultimately show ?thesis using follows_frame [OF _ ok1] U uv iv by (simp add: y)
  qed
qed simp

lemma fold_keyed: "\<forall>(uid, u) \<in> set xs. uid = ID u \<Longrightarrow>
  fold (\<lambda>(uid, nu). update_limiter enabled now nu) xs m
    = fold (\<lambda>(uid, nu). (\<lambda>m. if uid = ID nu then update_limiter enabled now nu m else m)) xs m"
  by (induction xs arbitrary: m) auto

text \<open>Every limiter belongs to a known user; a failed \<^verbatim>\<open>ApplyBox\<close> can break this.\<close>

definition tracked_limiters :: "user_manager \<Rightarrow> bool" where
  "tracked_limiters m \<longleftrightarrow> (\<forall>uid. owner m (Some uid) \<noteq> None \<longrightarrow> mget (um_users m) uid \<noteq> None)"

lemma departed_closed:
  fixes xs :: "(int \<times> user) list"
  assumes "pairs_ok m" and "distinct (map fst xs)" and "(uid, u) \<in> set xs" and "mget nxt uid = None"
  shows "owner (fold (\<lambda>(uid, old). (\<lambda>m. if mget nxt uid = None then close_limiter_of uid m else m)) xs m) (Some uid) = None"
  using assms
proof (induction xs arbitrary: m)
  case (Cons y xs)
  obtain i v where y: "y = (i, v)" by (cases y)
  let ?f = "\<lambda>uid (old :: user) m. if mget nxt uid = None then close_limiter_of uid m else m"
  have ok1: "pairs_ok (?f i v m)" 
    using close_step [OF Cons.prems(1), of i] Cons.prems(1) by (simp add: frame_def)
  show ?case
  proof (cases "(uid, u) \<in> set xs")
    case True
    then show ?thesis using Cons.IH [OF ok1] Cons.prems(2,4) by (simp add: y)
  next
    case False
    then have "uid = i" using Cons.prems(3) by (auto simp: y)
    moreover have "Some uid \<notin> Some ` fst ` set xs" using Cons.prems(2) calculation by (auto simp: y)
    moreover have "frame (Some ` fst ` set xs) (?f i v m) (fold (\<lambda>(uid, x). ?f uid x) xs (?f i v m))"
    proof -
      have "distinct (map fst xs)" using Cons.prems(2) by (simp add: y)
      then show ?thesis using fold_acts [OF acts_close [of nxt] ok1] by blast
    qed
    ultimately show ?thesis using frameD(4) close_step [OF Cons.prems(1), of i] Cons.prems(4) by (simp add: y)
  qed
qed simp

lemma close_departed_filter: "close_departed xs nxt m =
    fold (\<lambda>(uid, old). (\<lambda>m. if mget nxt uid = None then close_limiter_of uid m else m))
      (filter (\<lambda>(uid, old). mget nxt uid = None) xs) m"
  unfolding close_departed_def by (induction xs arbitrary: m) auto

lemma apply_box_loops:
  fixes users :: "user list"
  assumes ok: "pairs_ok m" and wf: "wf_map (um_users m)" and perm: "some_order perm"
  defines "nxt \<equiv> next_users users"
  assumes m1: "m1 = close_departed (um_users m) nxt m"
    and m2: "m2 = fold (\<lambda>(uid, nu). update_limiter True now nu) (perm nxt) m1"
  obtains "frame (Some ` {uid \<in> fst ` set (um_users m). mget nxt uid = None}) m m1"
    and "frame (Some ` fst ` set nxt) m1 m2"
    and "\<And>uid. mget nxt uid = None \<Longrightarrow> mget (um_users m) uid \<noteq> None \<Longrightarrow> owner m1 (Some uid) = None"
    and "\<And>uid. kept uid m m1" and "\<And>uid. kept uid m1 m2"
    and "\<And>uid u. mget nxt uid = Some u \<Longrightarrow> follows m2 uid u"
proof -
  let ?dep = "filter (\<lambda>(uid, old). mget nxt uid = None) (um_users m)"
  have d: "distinct (map fst ?dep)" using wf by (rule wf_filter)
  have set_dep: "fst ` set ?dep = {uid \<in> fst ` set (um_users m). mget nxt uid = None}" by force
  note A = fold_acts [OF acts_close [of nxt] ok d, folded close_departed_filter m1, unfolded set_dep]
  have ok1: "pairs_ok m1" using A frameD(1) by blast
  have dp: "distinct (map fst (perm nxt))" "set (perm nxt) = set nxt"
    using some_orderD [OF perm] wf_next_users by (simp_all add: nxt_def)
  have k: "\<forall>(uid, u) \<in> set (perm nxt). uid = ID u"
    using keyed_next_users [of users] dp(2) by (auto simp: keyed_def nxt_def)
  note m2' = m2 [unfolded fold_keyed [OF k]]
  note B = fold_acts [OF acts_update [of now] ok1 dp(1), folded m2', unfolded dp(2)]
  have F: "follows m2 uid u" if "mget nxt uid = Some u" for uid u
    using fold_follows [OF ok1 dp(1) k, of uid u now, folded m2'] mget_Some_in [OF that] dp(2) by simp
  have O: "owner m1 (Some uid) = None" if "mget nxt uid = None" "mget (um_users m) uid \<noteq> None" for uid
  proof -
    from that obtain u where "(uid, u) \<in> set ?dep" by (auto dest: mget_Some_in)
    from departed_closed [OF ok d this that(1)] show ?thesis by (simp add: m1 close_departed_filter)
  qed
  show thesis using that A B F O by blast
qed

text \<open>The two loops together, from \<open>m\<close> over \<open>m1\<close> to \<open>m2\<close>: who is not among the next users has no limiters, and
  a limit that did not change is kept.\<close>

lemma loops_settle:
  assumes "pairs_ok m" and "tracked_limiters m"
    and A: "frame (Some ` {uid \<in> fst ` set (um_users m). mget nxt uid = None}) m m1" and B: "frame (Some ` fst ` set nxt) m1 m2"
    and O: "\<And>uid. mget nxt uid = None \<Longrightarrow> mget (um_users m) uid \<noteq> None \<Longrightarrow> owner m1 (Some uid) = None"
    and K: "\<And>uid. kept uid m m1" "\<And>uid. kept uid m1 m2"
  shows "mget nxt uid = None \<Longrightarrow> owner m2 (Some uid) = None" and "kept uid m m2"
proof -
  have keysn: "Some uid \<notin> Some ` fst ` set nxt" if "mget nxt uid = None"
    using that by (auto simp: mget_None_iff)
  show "owner m2 (Some uid) = None" if n: "mget nxt uid = None"
  proof -
    have "owner m1 (Some uid) = None"
    proof (cases "mget (um_users m) uid = None")
      case True
      then have "owner m (Some uid) = None" using assms(2) by (auto simp: tracked_limiters_def)
      moreover have "Some uid \<notin> Some ` {uid \<in> fst ` set (um_users m). mget nxt uid = None}"
        using True by (auto simp: mget_None_iff)
      ultimately show ?thesis using frameD(4) [OF A] by metis
    qed (use O n in blast)
    then show ?thesis using frameD(4) [OF B keysn [OF n]] by metis
  qed
  show "kept uid m m2"
  proof (cases "mget nxt uid = None")
    case True
    then show ?thesis using kept_frame [OF assms(1) A K(1) B] keysn by blast
  next
    case False
    then have "Some uid \<notin> Some ` {uid \<in> fst ` set (um_users m). mget nxt uid = None}" by blast
    then have "owner m1 (Some uid) = owner m (Some uid)" using frameD(4) [OF A] by metis
    then show ?thesis using K(2) [of uid] by (simp add: kept_def)
  qed
qed

lemma node_untouched:
  assumes "pairs_ok m" and A: "frame (Some ` X) m m1" and B: "frame (Some ` Y) m1 m2"
  shows "owner m2 None = owner m None"
    and "owner m None = Some p \<Longrightarrow> i \<in> addrs p \<Longrightarrow> um_memory m2 ! i = um_memory m ! i"
proof -
  have n: "None \<notin> Some ` Z" for Z :: "int set" by blast
  show "owner m2 None = owner m None" using frameD(4) [OF A n] frameD(4) [OF B n] by simp
  assume p: "owner m None = Some p" and i: "i \<in> addrs p"
  from frame_trans [OF A B] show "um_memory m2 ! i = um_memory m ! i"
  proof (rule frameD(6))
    show "i < length (um_memory m)" using pairs_okD(2) [OF assms(1) p i] .
    fix k q assume "k \<in> Some ` X \<union> Some ` Y" "owner m k = Some q"
    then show "i \<notin> addrs q" using pairs_okD(3) [OF assms(1) p _ _ i] by blast
  qed
qed

lemma apply_box_facts:
  assumes "pairs_ok m" and "wf_map (um_users m)" and "tracked_limiters m" and "some_order perm"
    and "apply_box True perm ops now inb users m = (inb', m', True)"
  shows "pairs_ok m' \<and> tracked_limiters m' \<and> um_users m' = next_users users
    \<and> (\<forall>uid u. mget (um_users m') uid = Some u \<longrightarrow> follows m' uid u)
    \<and> (\<forall>uid. mget (um_users m') uid = None \<longrightarrow> owner m' (Some uid) = None)
    \<and> (\<forall>uid. kept uid m m')
    \<and> (owner m' None = owner m None \<and> (\<forall>p a. owner m None = Some p \<longrightarrow> a \<in> addrs p \<longrightarrow> um_memory m' ! a = um_memory m ! a))"
proof -
  let ?nxt = "next_users users"
  define m1 where "m1 = close_departed (um_users m) ?nxt m"
  define m2 where "m2 = fold (\<lambda>(uid, nu). update_limiter True now nu) (perm ?nxt) m1"
  obtain A: "frame (Some ` {uid \<in> fst ` set (um_users m). mget ?nxt uid = None}) m m1"
    and B: "frame (Some ` fst ` set ?nxt) m1 m2"
    and O: "\<And>uid. mget ?nxt uid = None \<Longrightarrow> mget (um_users m) uid \<noteq> None \<Longrightarrow> owner m1 (Some uid) = None"
    and K: "\<And>uid. kept uid m m1" "\<And>uid. kept uid m1 m2"
    and F: "\<And>uid u. mget ?nxt uid = Some u \<Longrightarrow> follows m2 uid u"
    by (rule apply_box_loops [OF assms(1,2,4) m1_def m2_def]) blast
  have m': "m' = m2\<lparr>um_users := ?nxt, um_by_secret := next_secrets users\<rparr>"
    using apply_box_success(2) [OF assms(5)] by (simp add: m1_def m2_def)
  note L = loops_settle [OF assms(1,3) A B O K]
  have node: "owner m2 None = owner m None"
    "\<forall>p a. owner m None = Some p \<longrightarrow> a \<in> addrs p \<longrightarrow> um_memory m2 ! a = um_memory m ! a"
    using node_untouched [OF assms(1) A B] by blast+
  have "pairs_ok m2" using frameD(1) [OF B] .
  then have "pairs_ok m'" by (simp add: m' pairs_ok_def)
  moreover have "tracked_limiters m'"
    unfolding tracked_limiters_def
  proof (intro allI impI)
    fix uid assume o: "owner m' (Some uid) \<noteq> None"
    show "mget (um_users m') uid \<noteq> None"
    proof
      assume "mget (um_users m') uid = None"
      then show False using o L(1) [of uid] by (simp add: m')
    qed
  qed
  moreover have "follows m' uid u" if "mget ?nxt uid = Some u" for uid u
    using F [OF that] by (simp add: m' follows_def split: option.splits)
  moreover have "kept uid m m'" for uid using L(2) [of uid] by (simp add: m' kept_def closed_pair_def)
  ultimately show ?thesis using L(1) node by (simp add: m')
qed

text \<open>C12. After a successful \<^verbatim>\<open>ApplyBox\<close>, exactly the users with a speed limit have a pair of
  limiters, both open and at the user's rate. A pair from before is still the user's, or has been closed, so
  that the connections that hold it stop. The pair of the node is untouched.\<close>

theorem apply_box_limiters:
  assumes "pairs_ok m" and "wf_map (um_users m)" and "tracked_limiters m" and "some_order perm"
    and "apply_box True perm ops now inb users m = (inb', m', True)"
  shows "pairs_ok m' \<and> tracked_limiters m' \<and> um_users m' = next_users users
    \<and> (\<forall>uid u. mget (um_users m') uid = Some u \<longrightarrow> follows m' uid u)
    \<and> (\<forall>uid. mget (um_users m') uid = None \<longrightarrow> owner m' (Some uid) = None)
    \<and> (\<forall>uid. kept uid m m')
    \<and> (owner m' None = owner m None \<and> (\<forall>p a. owner m None = Some p \<longrightarrow> a \<in> addrs p \<longrightarrow> um_memory m' ! a = um_memory m ! a))"
  by (rule apply_box_facts [OF assms])

lemma new_user_manager_ok: "pairs_ok (new_user_manager now mbps) \<and> wf_map (um_users (new_user_manager now mbps))
    \<and> tracked_limiters (new_user_manager now mbps) \<and> um_users (new_user_manager now mbps) = []"
  by (auto simp: new_user_manager_def new_limiter_pair_def pairs_ok_def owner_def addrs_def tracked_limiters_def
      split: option.splits)

lemma some_order_id: "some_order id"
  by (simp add: some_order_def)

definition limited_user :: user where
  "limited_user = \<lparr>ID = 7, UUID = ''u7'', Password = ''p7'', Name = ''7'', SpeedLimit = 20\<rparr>"

definition unlimited_user :: user where
  "unlimited_user = limited_user\<lparr>SpeedLimit := 0\<rparr>"

definition served :: user_manager where
  "served = fst (snd (apply_box True id list_ops 0 [] [limited_user] (new_user_manager 0 10)))"

lemma apply_no_inbounds: "apply_box True id ops now [] users m = ([], fst (snd (apply_box True id ops now [] users m)), True)"
  by (simp add: apply_box_def Let_def)

theorem apply_box_limiters_witness:
  "follows served 7 limited_user \<and> owner served (Some 7) \<noteq> None \<and> owner served None \<noteq> None"
proof -
  note N = new_user_manager_ok [of 0 10]
  have u: "next_users [limited_user] = [(7, limited_user)]"
    by (simp add: next_users_def limited_user_def)
  have "apply_box True id list_ops 0 [] [limited_user] (new_user_manager 0 10) = ([], served, True)"
    unfolding served_def by (rule apply_no_inbounds)
  note A = apply_box_limiters [OF conjunct1 [OF N] _ _ some_order_id this]
  then have "follows served 7 limited_user" "owner served None = owner (new_user_manager 0 10) None"
    using N by (simp_all add: u)
  then show ?thesis
    by (auto simp: follows_def limited_user_def owner_def new_user_manager_def new_limiter_pair_def split: option.splits)
qed

text \<open>Lifting a user's limit closes the pair: the connections that hold it get the error of a closed
  limiter instead of running on without a limit.\<close>

lemma lifting_closes:
  assumes "pairs_ok m" and "owner m (Some (ID u)) = Some p" and "SpeedLimit u \<le> 0"
  shows "closed_pair (update_limiter True now u m) p"
  using update_step [OF assms(1), of u now] assms(2,3) by (auto simp: kept_def follows_def split: option.splits)

end
