(* ===== verification/Agent.thy ===== *)
theory Agent
  imports UserLimits Hook Client Persist
begin

text \<open>
  The agent put together, as \<^verbatim>\<open>main\<close> of \<^verbatim>\<open>cmd/mini-sb-agent/main.go\<close> does
  it: the hook, the user manager and the inbounds of the running sing-box are one state, the
  synchroniser's callbacks work on it, and the flags choose the panel. The invariant holds over a
  whole run of the synchroniser, whatever the panel answers and the connections do.
\<close>

section \<open>Flags\<close>

record agent_flags =
  af_users :: string
  af_panel_url :: string
  af_panel_token :: string
  af_panel_node_id :: string
  af_panel_node_type :: string
  af_panel_hy2_node_id :: string
  af_panel_hy2_node_type :: string
  af_panel_every :: int
  af_node_rate_mbps :: int

text \<open>The world is the network \<open>'w\<close> and the files.\<close>

definition on_network :: "'w panel_ops \<Rightarrow> ('w \<times> fs) panel_ops" where
  "on_network p = \<lparr>fetch_users = (\<lambda>(w, files). case fetch_users p w of (w', r) \<Rightarrow> ((w', files), r)),
     push_traffic = (\<lambda>d (w, files). case push_traffic p d w of (w', ok) \<Rightarrow> ((w', files), ok))\<rparr>"

definition on_files :: "fs panel_ops \<Rightarrow> ('w \<times> fs) panel_ops" where
  "on_files p = \<lparr>fetch_users = (\<lambda>(w, files). case fetch_users p files of (files', r) \<Rightarrow> ((w, files'), r)),
     push_traffic = (\<lambda>d (w, files). case push_traffic p d files of (files', ok) \<Rightarrow> ((w, files'), ok))\<rparr>"

definition choose_panel :: "'w transport \<Rightarrow> agent_flags \<Rightarrow> ('w \<times> fs) panel_ops option" where
  "choose_panel tr f =
     (let client = (\<lambda>node_id node_type. on_network (client_panel tr (new_client (af_panel_url f) (af_panel_token f) node_id node_type)));
          primary = client (af_panel_node_id f) (af_panel_node_type f)
      in if af_panel_url f \<noteq> [] then
           (if af_panel_hy2_node_id f \<noteq> [] then
              Some (multi_panel [Some primary, Some (client (af_panel_hy2_node_id f) (af_panel_hy2_node_type f))])
            else Some primary)
         else if af_users f \<noteq> [] then Some (on_files (local_panel (af_users f)))
         else None)"

definition load_local_users :: "fs \<Rightarrow> string \<Rightarrow> user list option" where
  "load_local_users files path = (if path = [] then Some [] else
     case files path of None \<Rightarrow> None | Some data \<Rightarrow> parse_users data)"

section \<open>State and callbacks\<close>

record 'i agent =
  ag_hook :: hook
  ag_users :: user_manager
  ag_inbounds :: "'i inbounds"

text \<open>The inbounds of the running sing-box by their tags; a later one with the same tag wins. The state of
  an inbound is shared with sing-box by pointer.\<close>

definition collect_inbounds :: "'i inbounds \<Rightarrow> 'i inbounds" where
  "collect_inbounds inb = fold (\<lambda>(tag, x) out. mput tag x out) inb []"

definition agent_apply :: "bool \<Rightarrow> ((int \<times> user) list \<Rightarrow> (int \<times> user) list) \<Rightarrow> 'i box_ops \<Rightarrow> int \<Rightarrow> user list \<Rightarrow>
    'i agent \<Rightarrow> 'i agent \<times> bool" where
  "agent_apply enabled perm ops now users a =
     (case apply_box enabled perm ops now (collect_inbounds (ag_inbounds a)) users (ag_users a) of (inb, m, ok) \<Rightarrow>
        (a\<lparr>ag_inbounds := inb, ag_users := m\<rparr>, ok))"

definition agent_users :: "bool \<Rightarrow> ((int \<times> user) list \<Rightarrow> (int \<times> user) list) \<Rightarrow> 'i box_ops \<Rightarrow> int \<Rightarrow> user list \<Rightarrow>
    'i agent \<Rightarrow> 'i agent" where
  "agent_users enabled perm ops now users a =
     (case agent_apply enabled perm ops now users a of
        (a', ok) \<Rightarrow> if ok then a'\<lparr>ag_hook := hook_remove_absent (active_ids (ag_users a')) (ag_hook a')\<rparr> else a')"

definition agent_delta :: "'i agent \<Rightarrow> delta" where
  "agent_delta a = hook_snapshot_delta (ag_hook a)"

definition agent_commit :: "'i agent \<Rightarrow> delta \<Rightarrow> 'i agent" where
  "agent_commit a d = a\<lparr>ag_hook := hook_commit (ag_hook a) d\<rparr>"

definition agent_syncer :: "bool \<Rightarrow> ((int \<times> user) list \<Rightarrow> (int \<times> user) list) \<Rightarrow> 'i box_ops \<Rightarrow> int \<Rightarrow> 'p panel_ops option \<Rightarrow> int \<Rightarrow>
    ('p, 'i agent) syncer" where
  "agent_syncer enabled perm ops now pan interval = \<lparr>panel = pan, snapshot_cb = Some agent_delta, commit_cb = Some agent_commit,
     users_cb = Some (agent_users enabled perm ops now), every = interval\<rparr>"

definition new_agent :: "int \<Rightarrow> agent_flags \<Rightarrow> 'i inbounds \<Rightarrow> 'i agent" where
  "new_agent now f inb = \<lparr>ag_hook = [], ag_users = new_user_manager now (af_node_rate_mbps f), ag_inbounds = inb\<rparr>"

text \<open>What \<^verbatim>\<open>main\<close> does once the box has started, up to the synchroniser: the local users are
  applied, and \<open>None\<close> is its fatal end.\<close>

definition agent_start :: "bool \<Rightarrow> ((int \<times> user) list \<Rightarrow> (int \<times> user) list) \<Rightarrow> 'i box_ops \<Rightarrow> int \<Rightarrow> agent_flags \<Rightarrow> fs \<Rightarrow>
    'i agent \<Rightarrow> 'i agent option" where
  "agent_start enabled perm ops now f files a = (if af_users f = [] then Some a else
     case load_local_users files (af_users f) of None \<Rightarrow> None
     | Some us \<Rightarrow> (case agent_apply enabled perm ops now us a of (a', ok) \<Rightarrow> if ok then Some a' else None))"

definition agent_main :: "bool \<Rightarrow> ((int \<times> user) list \<Rightarrow> (int \<times> user) list) \<Rightarrow> 'i box_ops \<Rightarrow> int \<Rightarrow> 'w transport \<Rightarrow> agent_flags \<Rightarrow>
    'i inbounds \<Rightarrow> ('i agent \<Rightarrow> 'i agent) \<Rightarrow> 'i agent wake list \<Rightarrow> 'w \<times> fs \<Rightarrow> (('w \<times> fs) \<times> 'i agent) option" where
  "agent_main enabled perm ops now tr f inb env ws world =
     (case agent_start enabled perm ops now f (snd world) (new_agent now f inb) of None \<Rightarrow> None
      | Some a \<Rightarrow> (case choose_panel tr f of None \<Rightarrow> Some (world, a)
          | Some pan \<Rightarrow> Some (fst (run (agent_syncer enabled perm ops now (Some pan) (af_panel_every f)) env ws (world, a)))))"

section \<open>The statistics endpoint\<close>

datatype listen_address = UnixSocket string | Tcp string

definition stats_address :: "string \<Rightarrow> listen_address" where
  "stats_address listen = (if take 5 listen = ''unix:'' then UnixSocket (drop 5 listen) else Tcp listen)"

text \<open>A stale socket file is removed before the listener is made.\<close>

definition clear_socket :: "string \<Rightarrow> fs \<Rightarrow> fs" where
  "clear_socket listen files = (case stats_address listen of UnixSocket path \<Rightarrow> files(path := None) | Tcp _ \<Rightarrow> files)"

definition enc_stats :: "delta \<Rightarrow> json" where
  "enc_stats d = JObj (sorted_entries (map (\<lambda>(tag, users).
     (tag, JObj (sorted_entries (map (\<lambda>(u, v). (u, enc_pair v)) users)))) d))"

definition stats_response :: "string \<Rightarrow> (string \<Rightarrow> string) \<Rightarrow> hook \<Rightarrow> string option" where
  "stats_response path query h = (if path = ''/stats'' then Some (marshal (enc_stats (stats query h)) @ [CHR 0x0A])
     else if path = ''/health'' then Some (''ok'' @ [CHR 0x0A]) else None)"

section \<open>Invariant\<close>

definition agent_ok :: "'i agent \<Rightarrow> bool" where
  "agent_ok a \<longleftrightarrow> wf_hook (ag_hook a) \<and> pairs_ok (ag_users a) \<and> wf_map (um_users (ag_users a))"

text \<open>Connections count traffic and use limiters; they open and close none.\<close>

definition by_connections :: "('i agent \<Rightarrow> 'i agent) \<Rightarrow> bool" where
  "by_connections env \<longleftrightarrow> (\<forall>a. \<exists>evs mem. env a = a\<lparr>ag_hook := hook_run evs (ag_hook a), ag_users := (ag_users a)\<lparr>um_memory := mem\<rparr>\<rparr>
     \<and> list_all2 (\<lambda>l l'. lm_closed l' = lm_closed l) (um_memory (ag_users a)) mem)"

lemma pairs_ok_memory:
  assumes "pairs_ok m" and "list_all2 (\<lambda>l l'. lm_closed l' = lm_closed l) (um_memory m) mem"
  shows "pairs_ok (m\<lparr>um_memory := mem\<rparr>)"
proof -
  have l: "length mem = length (um_memory m)" using assms(2) by (simp add: list_all2_lengthD)
  have c: "lm_closed (mem ! a) = lm_closed (um_memory m ! a)" if "a < length (um_memory m)" for a
    using assms(2) that by (simp add: list_all2_conv_all_nth)
  have "\<not> lm_closed (mem ! a)" if "owner m (Some uid) = Some p" "a \<in> addrs p" for uid p a
    using c [OF pairs_okD(2) [OF assms(1) that]] pairs_ok_open [OF assms(1) that] by simp
  then show ?thesis using assms(1) l by (auto simp: pairs_ok_def)
qed

lemma by_connections_ok: "by_connections env \<Longrightarrow> agent_ok a \<Longrightarrow> agent_ok (env a)"
  unfolding by_connections_def
  by (drule spec [of _ a]) (auto simp: agent_ok_def wf_hook_run pairs_ok_memory)

lemma apply_box_pairs_ok:
  assumes "pairs_ok m" and "wf_map (um_users m)" and "some_order perm"
    and "apply_box True perm ops now inb users m = (inb', m', ok)"
  shows "pairs_ok m' \<and> wf_map (um_users m')"
proof -
  define m1 where "m1 = close_departed (um_users m) (next_users users) m"
  define m2 where "m2 = fold (\<lambda>(uid, nu). update_limiter True now nu) (perm (next_users users)) m1"
  obtain A: "frame (Some ` {uid \<in> fst ` set (um_users m). mget (next_users users) uid = None}) m m1"
    and B: "frame (Some ` fst ` set (next_users users)) m1 m2"
    by (rule apply_box_loops [OF assms(1-3) m1_def m2_def]) blast
  have p: "pairs_ok m2" "um_users m2 = um_users m" using frameD(1,2) [OF A] frameD(1,2) [OF B] by simp_all
  have "m' = m2 \<or> m' = m2\<lparr>um_users := next_users users, um_by_secret := next_secrets users\<rparr>"
    using assms(4) by (auto simp: apply_box_def Let_def m1_def m2_def split: prod.splits bool.splits)
  moreover have "pairs_ok (m2\<lparr>um_users := us, um_by_secret := ss\<rparr>) = pairs_ok m2" for us ss by (simp add: pairs_ok_def)
  ultimately show ?thesis using p assms(2) wf_next_users by auto
qed

lemma agent_apply_ok:
  assumes "agent_ok a" and "some_order perm" and "agent_apply True perm ops now users a = (a', ok)"
  shows "agent_ok a'"
  using assms apply_box_pairs_ok [of "ag_users a" perm ops now "collect_inbounds (ag_inbounds a)" users]
  by (auto simp: agent_ok_def agent_apply_def split: prod.splits)

lemma agent_users_ok:
  assumes "agent_ok a" and "some_order perm"
  shows "agent_ok (agent_users True perm ops now users a)"
proof -
  obtain a' ok where u: "agent_apply True perm ops now users a = (a', ok)" by fastforce
  have "agent_ok a'" by (rule agent_apply_ok [OF assms u])
  then show ?thesis by (simp add: agent_users_def u agent_ok_def wf_hook_remove_absent)
qed

lemma new_agent_ok: "agent_ok (new_agent now f inb)"
  using new_user_manager_ok by (simp add: agent_ok_def new_agent_def wf_hook_empty)

section \<open>The agent as a traffic source\<close>

interpretation ags: traffic_source agent_delta agent_commit "\<lambda>a. agent_ok a" "\<lambda>a. hook_tracks (ag_hook a)" "\<lambda>a. hook_pending (ag_hook a)"
  by unfold_locales
    (simp_all add: agent_delta_def agent_commit_def agent_ok_def wf_hook_delta reported_at_hook_delta hook_pend_tracked
      wf_hook_commit hook_commit_pend)

lemma connections_carry:
  assumes "by_connections env"
  shows "ags.carries env"
  unfolding ags.carries_def
proof (intro allI impI conjI)
  fix a :: "'a agent" and t u assume a: "agent_ok a"
  show "agent_ok (env a)" by (rule by_connections_ok [OF assms a])
  assume "hook_tracks (ag_hook a) t u"
  moreover obtain evs where "ag_hook (env a) = hook_run evs (ag_hook a)"
    using assms unfolding by_connections_def by (metis agent.select_convs(1) agent.surjective agent.update_convs(1,2))
  ultimately show "hook_tracks (ag_hook (env a)) t u"
    using hook_run_carries a by (simp add: hs.carries_def agent_ok_def)
qed

lemma agent_flush_ok:
  assumes "agent_ok a" and "by_connections env"
  shows "agent_ok (snd (flush (agent_syncer enabled perm ops now pan interval) env (w, a)))"
  by (rule ags.flush_inv [OF assms(1) connections_carry [OF assms(2)]]) (simp add: ags.plugged_def agent_syncer_def)

lemma agent_sync_ok:
  assumes "agent_ok a" and "by_connections env" and "some_order perm"
  shows "agent_ok (snd (sync_once (agent_syncer True perm ops now pan interval) env (w, a)))"
proof (cases pan)
  case None
  then show ?thesis using assms(1) by (simp add: sync_once_def agent_syncer_def)
next
  case (Some p)
  obtain w' r where f: "fetch_users p w = (w', r)" by fastforce
  have "agent_ok (case r of None \<Rightarrow> a | Some us \<Rightarrow> agent_users True perm ops now us a)"
    using assms agent_users_ok by (auto split: option.split)
  from agent_flush_ok [OF this assms(2), of True perm ops now pan interval w'] Some f show ?thesis
    by (cases r) (simp_all add: sync_once_def agent_syncer_def)
qed

lemma agent_run_loop_ok:
  assumes "some_order perm"
  shows "agent_ok (snd st) \<Longrightarrow> \<forall>x \<in> set ws. by_connections (idle x) \<and> by_connections (inflight x) \<Longrightarrow>
    agent_ok (snd (fst (run_loop (agent_syncer True perm ops now pan interval) ws st)))"
proof (induction ws arbitrary: st)
  case (Cons x ws)
  have i: "agent_ok (idle x (snd st))" "by_connections (inflight x)"
    using Cons.prems by (auto intro: by_connections_ok)
  show ?case
  proof (cases x)
    case (Tick i f)
    then show ?thesis using Cons.IH [OF agent_sync_ok] Cons.prems(2) i assms by simp
  next
    case (CtxDone i f)
    then show ?thesis using i agent_flush_ok by simp
  qed
qed simp

lemma agent_main_ok:
  assumes "some_order perm" and "by_connections env"
    and "\<forall>x \<in> set ws. by_connections (idle x) \<and> by_connections (inflight x)"
    and "agent_main True perm ops now tr f inb env ws world = Some (world', a')"
  shows "agent_ok a'"
proof -
  obtain a where a: "agent_start True perm ops now f (snd world) (new_agent now f inb) = Some a"
    using assms(4) by (auto simp: agent_main_def split: option.splits)
  then have ok: "agent_ok a"
    using new_agent_ok [of now f inb] agent_apply_ok [OF new_agent_ok [of now f inb] assms(1)]
    by (auto simp: agent_start_def split: if_splits option.splits prod.splits)
  show ?thesis
  proof (cases "choose_panel tr f")
    case None
    then show ?thesis using assms(4) a ok by (simp add: agent_main_def)
  next
    case (Some pan)
    let ?sy = "agent_syncer True perm ops now (Some pan) (effective_every (af_panel_every f))"
    have sy: "(agent_syncer True perm ops now (Some pan) e)\<lparr>every := e'\<rparr> = agent_syncer True perm ops now (Some pan) e'" for e e'
      by (simp add: agent_syncer_def)
    have "agent_ok (snd (sync_once ?sy env (world, a)))" by (rule agent_sync_ok [OF ok assms(2,1)])
    from agent_run_loop_ok [OF assms(1) this assms(3), of ops now "Some pan" "effective_every (af_panel_every f)"]
    show ?thesis using assms(4) a Some
      by (simp add: agent_main_def run_def sy agent_syncer_def) (metis fst_conv snd_conv)
  qed
qed

text \<open>The state of the agent stays consistent over its whole life: from the start of \<^verbatim>\<open>main\<close>
  through any number of rounds of the synchroniser, with any panel, any failures of sing-box's user
  operations and any traffic, the counters are well-formed and every limiter pair that a user owns is
  two distinct live limiters which no other user and not the node shares.\<close>

theorem agent_invariant:
  assumes "some_order perm" and "by_connections env"
    and "\<forall>x \<in> set ws. by_connections (idle x) \<and> by_connections (inflight x)"
    and "agent_main True perm ops now tr f inb env ws world = Some (world', a')"
  shows "wf_hook (ag_hook a') \<and> pairs_ok (ag_users a') \<and> wf_map (um_users (ag_users a'))"
  using agent_main_ok [OF assms] by (simp add: agent_ok_def)

section \<open>A new user list\<close>

lemma hook_delta_remove_absent: "hook_snapshot_delta (hook_remove_absent active h) = hook_snapshot_delta h"
proof -
  have "map (\<lambda>(k, c). (k, snapshot_delta c)) (hook_remove_absent active h) = map (\<lambda>(k, c). (k, snapshot_delta c)) h"
    by (auto simp: hook_remove_absent_def remove_absent_keeps_reports)
  then show ?thesis by (simp add: hook_snapshot_delta_def)
qed

lemma settled_delta: "settled x \<longleftrightarrow> storage_delta x = pzero"
  by (auto simp: settled_def storage_delta_def pzero_def)

lemma tracked_remove_absent:
  assumes "wf_counter c"
  shows "tracked (remove_absent c active) u \<longleftrightarrow> tracked c u \<and> (u \<in> set active \<or> pending c u \<noteq> pzero)"
proof -
  have wf: "wf_map (counters c)" using assms by (simp add: wf_counter_def)
  have g: "mget (counters (remove_absent c active)) u = (case mget (counters c) u of None \<Rightarrow> None
      | Some a \<Rightarrow> if u \<in> set active \<or> \<not> settled (heap c ! a) then Some a else None)"
    by (simp add: remove_absent_def mget_filter [OF wf] split: option.split)
  show ?thesis
    by (cases "mget (counters c) u") (simp_all add: tracked_iff g pending_def settled_delta)
qed

lemma hook_tracks_remove_absent:
  assumes "wf_hook h"
  shows "hook_tracks (hook_remove_absent active h) t u \<longleftrightarrow> hook_tracks h t u \<and> (u \<in> set active \<or> hook_pending h t u \<noteq> pzero)"
proof -
  have m: "mget (hook_remove_absent active h) t = map_option (\<lambda>c. remove_absent c active) (mget h t)"
    by (simp add: hook_remove_absent_def mget_map_val)
  show ?thesis using wf_hook_get [OF assms, of t] tracked_remove_absent [of _ active u]
    by (auto simp: hook_tracks_def hook_pending_def m split: option.splits)
qed

lemma set_collect_inbounds: "set (collect_inbounds inb) \<subseteq> set inb"
proof -
  have "set (fold (\<lambda>(tag, x) out. mput tag x out) inb out) \<subseteq> set inb \<union> set out" for out
  proof (induction inb arbitrary: out)
    case (Cons y inb)
    obtain tag x where y: "y = (tag, x)" by (cases y)
    show ?case using Cons.IH [of "mput tag x out"] set_mput_sub [of tag x out] by (auto simp: y)
  qed simp
  from this [of "[]"] show ?thesis by (simp add: collect_inbounds_def)
qed

lemma collect_distinct: "distinct (map fst inb) \<Longrightarrow> collect_inbounds inb = inb"
proof -
  have "distinct (map fst out @ map fst inb) \<Longrightarrow> fold (\<lambda>(tag, x) out. mput tag x out) inb out = out @ inb" for out
    by (induction inb arbitrary: out) (auto simp: mput_new)
  from this [of "[]"] show "distinct (map fst inb) \<Longrightarrow> ?thesis" by (simp add: collect_inbounds_def)
qed

text \<open>C11. A user list that the agent can apply takes effect everywhere at once: the user manager knows
  exactly the new users, every inbound admits exactly their secrets, no traffic that was to be
  reported changes, and afterwards a counter is kept exactly for the users that are active or
  have unreported traffic.\<close>

theorem agent_users_step:
  assumes "agent_ok a" and "box_contract ops vv hv" and "some_order perm"
    and "own_secrets UUID (um_users (ag_users a))" and "own_secrets Password (um_users (ag_users a))"
    and "box_synced vv hv (um_users (ag_users a)) (ag_inbounds a)"
    and "snd (agent_apply enabled perm ops now users a)" and "agent_users enabled perm ops now users a = a'"
  shows "um_users (ag_users a') = next_users users
    \<and> box_synced vv hv (um_users (ag_users a')) (ag_inbounds a')
    \<and> agent_delta a' = agent_delta a
    \<and> (hook_tracks (ag_hook a') t u \<longleftrightarrow>
        hook_tracks (ag_hook a) t u \<and> (u \<in> set (active_ids (ag_users a')) \<or> hook_pending (ag_hook a) t u \<noteq> pzero))"
proof -
  obtain inb m where b: "apply_box enabled perm ops now (collect_inbounds (ag_inbounds a)) users (ag_users a) = (inb, m, True)"
    using assms(7) by (auto simp: agent_apply_def split: prod.splits)
  then have a': "ag_users a' = m" "ag_inbounds a' = inb" "ag_hook a' = hook_remove_absent (active_ids m) (ag_hook a)"
    using assms(8) by (auto simp: agent_users_def agent_apply_def)
  have w: "wf_hook (ag_hook a)" "wf_map (um_users (ag_users a))" using assms(1) by (simp_all add: agent_ok_def)
  have n: "um_users m = next_users users" using apply_box_success(2) [OF b] by simp
  have y: "box_synced vv hv (um_users (ag_users a)) (collect_inbounds (ag_inbounds a))"
    using assms(6) set_collect_inbounds [of "ag_inbounds a"] by (force simp: box_synced_def)
  show ?thesis
    using box_synced_step [OF assms(2,3) w(2) assms(4,5) y b] n hook_tracks_remove_absent [OF w(1)]
    by (simp add: a' agent_delta_def hook_delta_remove_absent)
qed

section \<open>Concrete runs\<close>

definition staffed_agent :: "list_inbound agent" where
  "staffed_agent = \<lparr>ag_hook = demo_hook, ag_users = manager_of two_users, ag_inbounds = demo_inbounds\<rparr>"

lemma staffed_agent_ok: "agent_ok staffed_agent"
  using demo_hook_facts(1) wf_next_users
  by (auto simp: agent_ok_def staffed_agent_def manager_of_def pairs_ok_def owner_def split: option.splits)

theorem agent_users_step_witness:
  "um_users (ag_users (agent_users True id list_ops 0 next_two staffed_agent)) = next_users next_two
    \<and> hook_tracks (ag_hook (agent_users True id list_ops 0 next_two staffed_agent)) ''vless-in'' ''7''"
proof -
  have own: "own_secrets UUID (um_users (ag_users staffed_agent))" "own_secrets Password (um_users (ag_users staffed_agent))"
    by (simp_all add: own_secrets_def staffed_agent_def manager_of_def two_users_def next_users_def)
  have sync: "box_synced list_view list_view (um_users (ag_users staffed_agent)) (ag_inbounds staffed_agent)"
    by (auto simp: box_synced_def staffed_agent_def demo_inbounds_def list_view_def secrets_of_def manager_of_def
        two_users_def next_users_def)
  have app: "snd (agent_apply True id list_ops 0 next_two staffed_agent)"
    using demo_apply(2) collect_distinct [of demo_inbounds]
    by (simp add: agent_apply_def staffed_agent_def case_prod_beta demo_inbounds_def)
  have t: "hook_tracks (ag_hook staffed_agent) ''vless-in'' ''7''" "hook_pending (ag_hook staffed_agent) ''vless-in'' ''7'' \<noteq> pzero"
    using demo_hook_facts(5) hook_pend_tracked [of demo_hook "''vless-in''" "''7''"]
    by (simp_all add: staffed_agent_def pzero_def has_delta_def pos64_def)
  show ?thesis
    using agent_users_step [OF staffed_agent_ok list_contract some_order_id own sync app refl, of "''vless-in''" "''7''"] t by simp
qed

definition local_flags :: agent_flags where
  "local_flags = \<lparr>af_users = ''u'', af_panel_url = [], af_panel_token = [], af_panel_node_id = [], af_panel_node_type = [],
     af_panel_hy2_node_id = [], af_panel_hy2_node_type = [], af_panel_every = 0, af_node_rate_mbps = 10\<rparr>"

definition local_world :: "unit \<times> fs" where
  "local_world = ((), (\<lambda>_. None)(''u'' \<mapsto> marshal (JObj [(''users'', JArr [JObj [(''id'', JNum ''7''),
     (''uuid'', JStr ''u7''), (''speed_limit'', JNum ''20'')]])])))"

lemma local_start: "agent_start True id list_ops 0 local_flags (snd local_world) (new_agent 0 local_flags []) \<noteq> None"
proof -
  have "load_local_users (snd local_world) ''u'' \<noteq> None" by code_simp
  then obtain us where us: "load_local_users (snd local_world) ''u'' = Some us" by blast
  have "snd (agent_apply True id list_ops 0 us (new_agent 0 local_flags []))"
    using apply_no_inbounds [of list_ops 0 us "new_user_manager 0 10"]
    by (auto simp: agent_apply_def new_agent_def local_flags_def collect_inbounds_def split: prod.splits)
  then show ?thesis using us by (auto simp: agent_start_def local_flags_def split: prod.splits)
qed

lemma by_connections_id: "by_connections (\<lambda>a. a)"
  unfolding by_connections_def
proof
  fix a :: "'i agent"
  show "\<exists>evs mem. a = a\<lparr>ag_hook := hook_run evs (ag_hook a), ag_users := (ag_users a)\<lparr>um_memory := mem\<rparr>\<rparr>
      \<and> list_all2 (\<lambda>l l'. lm_closed l' = lm_closed l) (um_memory (ag_users a)) mem"
    by (rule exI [of _ "[]"], rule exI [of _ "um_memory (ag_users a)"]) (simp add: hook_run_def list_all2_refl)
qed

theorem agent_invariant_witness:
  "case agent_main True id list_ops 0 (\<lambda>q w. (w, HttpError)) local_flags [] (\<lambda>a. a) [Tick (\<lambda>a. a) (\<lambda>a. a), CtxDone (\<lambda>a. a) (\<lambda>a. a)]
      local_world of None \<Rightarrow> False | Some (world, a) \<Rightarrow> pairs_ok (ag_users a)"
proof -
  have "agent_main True id list_ops 0 (\<lambda>q w. (w, HttpError)) local_flags [] (\<lambda>a. a)
      [Tick (\<lambda>a. a) (\<lambda>a. a), CtxDone (\<lambda>a. a) (\<lambda>a. a)] local_world \<noteq> None"
    using local_start unfolding agent_main_def by (metis (no_types, lifting) option.case_eq_if option.distinct(1))
  then obtain world a where m: "agent_main True id list_ops 0 (\<lambda>q w. (w, HttpError)) local_flags []
      (\<lambda>a. a) [Tick (\<lambda>a. a) (\<lambda>a. a), CtxDone (\<lambda>a. a) (\<lambda>a. a)] local_world = Some (world, a)" by auto
  with agent_invariant [OF some_order_id by_connections_id _ m] show ?thesis by (simp add: by_connections_id)
qed

end
