(* ===== verification/Identity.thy ===== *)
theory Identity
  imports Billing Membership
begin

text \<open>
  From the server's users to the names under which the agent bills: what the agent fetches is
  what the server has enabled, and after \<^verbatim>\<open>ApplyBox\<close> each of a user's secrets resolves to
  the user's id.
\<close>

section \<open>Secrets resolve to ids\<close>

definition user_secrets :: "user \<Rightarrow> string set" where
  "user_secrets u = {UUID u, Password u, Name u} - {[]}"

definition private_secrets :: "user list \<Rightarrow> bool" where
  "private_secrets us \<longleftrightarrow> (\<forall>u \<in> set us. \<forall>v \<in> set us. user_secrets u \<inter> user_secrets v \<noteq> {} \<longrightarrow> u = v)"

lemma mget_put_secret: "mget (put_secret uid s m) k = (if k = s \<and> s \<noteq> [] then Some uid else mget m k)"
  by (simp add: put_secret_def mget_mput)

lemma next_secrets_step:
  "mget (fold (put_secret uid) [UUID u, Password u, Name u] m) k = (if k \<in> user_secrets u then Some uid else mget m k)"
  by (auto simp: mget_put_secret user_secrets_def)

lemma next_secrets_mget:
  "private_secrets us \<Longrightarrow> \<forall>u \<in> set us. 0 < ID u \<Longrightarrow> v \<in> set us \<Longrightarrow> s \<in> user_secrets v \<Longrightarrow>
    mget (next_secrets us) s = Some (ID v)"
proof -
  let ?step = "\<lambda>u s. if ID u \<le> 0 then s else fold (put_secret (ID u)) [UUID u, Password u, Name u] s"
  have keep: "(\<forall>u \<in> set us. s \<in> user_secrets u \<longrightarrow> ID u = i) \<Longrightarrow> \<forall>u \<in> set us. 0 < ID u \<Longrightarrow>
      mget m s = Some i \<or> (\<exists>u \<in> set us. s \<in> user_secrets u) \<Longrightarrow> mget (fold ?step us m) s = Some i" for us i m
  proof (induction us arbitrary: m)
    case (Cons u us)
    have "\<not> ID u \<le> 0" using Cons.prems(2) by auto
    then have st: "mget (?step u m) s = (if s \<in> user_secrets u then Some (ID u) else mget m s)"
      using next_secrets_step by simp
    have "mget (fold ?step us (?step u m)) s = Some i"
      using Cons.IH [of "?step u m"] Cons.prems unfolding st by auto
    then show ?case by simp
  qed simp
  assume a: "private_secrets us" "\<forall>u \<in> set us. 0 < ID u" "v \<in> set us" "s \<in> user_secrets v"
  then have "\<forall>u \<in> set us. s \<in> user_secrets u \<longrightarrow> ID u = ID v" by (auto simp: private_secrets_def)
  from keep [OF this a(2), of "[]"] show ?thesis unfolding next_secrets_def using a(3,4) by blast
qed

lemma resolve_applied:
  assumes "apply_box enabled perm ops now inb us m = (inb', m', True)" and "distinct (map ID us)"
    and "\<forall>u \<in> set us. 0 < ID u" and "private_secrets us"
  shows "active_ids m' = map (\<lambda>u. itoa (ID u)) us"
    and "u \<in> set us \<Longrightarrow> s \<in> user_secrets u \<Longrightarrow> resolve m' s = itoa (ID u)"
proof -
  note m' = apply_box_success(2) [OF assms(1)]
  show "active_ids m' = map (\<lambda>u. itoa (ID u)) us"
    using next_users_distinct [OF assms(2,3)] by (simp add: active_ids_def m')
  assume u: "u \<in> set us" "s \<in> user_secrets u"
  then show "resolve m' s = itoa (ID u)"
    using next_secrets_mget [OF assms(4,3) u] by (auto simp: resolve_def m' user_secrets_def)
qed

section \<open>The users the server sends\<close>

definition agent_user :: "xuser \<Rightarrow> user" where
  "agent_user x = fill_user \<lparr>ID = xu_id x, UUID = xu_uuid x, Password = xu_password x, Name = xu_name x,
     SpeedLimit = xu_speed_limit x\<rparr>"

lemma ID_agent_user [simp]: "ID (agent_user x) = xu_id x"
  by (simp add: agent_user_def fill_user_def Let_def)

lemma dec_user_enc:
  assumes "good_xuser x"
  shows "dec_struct user_fields (enc_xuser x) zero_user =
    (\<lparr>ID = xu_id x, UUID = xu_uuid x, Password = xu_password x, Name = xu_name x, SpeedLimit = xu_speed_limit x\<rparr>, False)"
proof -
  have "find_field user_fields ''enabled'' = None"
    by (simp add: find_field_def user_fields_def to_lower_def lower_char_def)
  then show ?thesis using assms
    by (auto simp: enc_xuser_def user_fields_def field_of_def zero_user_def dec_members_append omit_empty_str_def
        omit_empty_int_def good_xuser_def)
qed

lemma dec_elems_enc:
  "(\<And>x. x \<in> set xs \<Longrightarrow> d (enc x) z = (f x, False)) \<Longrightarrow> dec_elems z d (map enc xs) [] = (map f xs, False)"
  by (induction xs) auto

lemma decode_users:
  assumes "list_all good_xuser xs"
  shows "decode_user_list (marshal (JObj [(''users'', JArr (map enc_xuser xs))]) @ [CHR 0x0A]) = Some (map agent_user xs)"
proof -
  have "wf_json (JObj [(''users'', JArr (map enc_xuser xs))])"
    using assms by (auto simp: list_all_iff wf_enc_xuser)
  note p = decode_prefix_printed [OF this]
  have e: "dec_elems zero_user (dec_struct user_fields) (map enc_xuser xs) [] = (map (\<lambda>x. \<lparr>ID = xu_id x, UUID = xu_uuid x,
      Password = xu_password x, Name = xu_name x, SpeedLimit = xu_speed_limit x\<rparr>) xs, False)"
    by (rule dec_elems_enc) (use assms in \<open>simp add: dec_user_enc list_all_iff\<close>)
  show ?thesis
    by (simp add: decode_user_list_def p dec_struct_def [of user_list_fields] user_list_fields_def field_of_def dec_users_def e)
      (simp add: agent_user_def comp_def)
qed

lemma fetch_users_served:
  assumes "credentials c s" and "cl_base c \<noteq> []" and "refresh_users flt mtime s fs = (s1, fs1, err)"
    and "list_all good_xuser (enabled_users s1)"
  shows "client_fetch_users (server_transport (cl_base c) flt mtime) c (s, fs)
    = ((s1, fs1), Some (map agent_user (enabled_users s1)))"
proof -
  obtain url q where ep: "endpoint c ''/api/v1/server/UniProxy/user'' = Some (url, q)"
    using assms(2) by (simp add: endpoint_def)
  let ?r = "server_request \<lparr>hr_method = ''GET'', hr_url = url, hr_query = q, hr_body = []\<rparr>"
  obtain e where "authenticate s ?r = Inr e"
    using assms(1) authenticate_query [of ?r "\<lparr>rq_method = [], rq_query = query_of c, rq_body = BodyTooLarge\<rparr>" s]
      endpoint_query [OF ep] by (auto simp: credentials_def)
  then have "handle_user flt mtime s fs ?r
      = (s1, fs1, write_json 200 (JObj [(''users'', JArr (map enc_xuser (enabled_users s1)))]))"
    using assms(3) by (simp add: handle_user_def server_request_def)
  then show ?thesis using ep endpoint_url [OF ep] decode_users [OF assms(4)]
    by (simp add: client_fetch_users_def http_get_def server_transport_def routes_def reply_def write_json_def success_def)
qed

text \<open>C9. From the server's books to the names the agent bills under: an agent with valid credentials
  fetches exactly the enabled users; when it has applied them, its active ids are theirs and each of a
  user's secrets resolves to the user's id, provided that no two users share a secret.\<close>

theorem users_resolve_end_to_end:
  assumes "store_ok s" and "credentials c s" and "cl_base c \<noteq> []" and "refresh_users flt mtime s fs = (s1, fs1, err)"
    and "list_all good_xuser (enabled_users s1)" and "private_secrets (map agent_user (enabled_users s1))"
    and "client_fetch_users (server_transport (cl_base c) flt mtime) c (s, fs) = (w, fetched)"
  shows "w = (s1, fs1) \<and> fetched = Some (map agent_user (enabled_users s1)) \<and>
    (\<forall>inb' m'. apply_box enabled perm ops now inb (map agent_user (enabled_users s1)) m = (inb', m', True) \<longrightarrow>
       active_ids m' = map (\<lambda>x. itoa (xu_id x)) (enabled_users s1) \<and>
       (\<forall>x secret. mget (st_users s1) (xu_id x) = Some x \<longrightarrow> xu_enabled x \<longrightarrow> secret \<in> user_secrets (agent_user x)
          \<longrightarrow> resolve m' secret = itoa (xu_id x)))"
proof -
  have ok: "store_ok s1" by (rule refresh_users_ok [OF assms(1,4)])
  note E = enabled_users_facts [OF ok]
  have "distinct (map xu_id (enabled_users s1))" using E strict_sorted_iff by blast
  then have d: "distinct (map ID (map agent_user (enabled_users s1)))" by (simp add: comp_def)
  have p: "\<forall>u \<in> set (map agent_user (enabled_users s1)). 0 < ID u"
    using E ok users_ok_entry [of "st_users s1"] by (auto simp: store_ok_def valid_user_def dest!: mget_Some_in)
  show ?thesis
  proof (intro conjI allI impI)
    show "w = (s1, fs1)" "fetched = Some (map agent_user (enabled_users s1))"
      using fetch_users_served [OF assms(2-5)] assms(7) by simp_all
    fix inb' m' assume a: "apply_box enabled perm ops now inb (map agent_user (enabled_users s1)) m = (inb', m', True)"
    note R = resolve_applied [OF a d p assms(6)]
    show "active_ids m' = map (\<lambda>x. itoa (xu_id x)) (enabled_users s1)" using R(1) by (simp add: comp_def)
    fix x secret assume x: "mget (st_users s1) (xu_id x) = Some x" "xu_enabled x" "secret \<in> user_secrets (agent_user x)"
    then have "agent_user x \<in> set (map agent_user (enabled_users s1))" using E by simp
    from R(2) [OF this x(3)] show "resolve m' secret = itoa (xu_id x)" by simp
  qed
qed

definition alice :: xuser where
  "alice = zero_xuser\<lparr>xu_id := 1, xu_uuid := ''a'', xu_enabled := True\<rparr>"

definition bob :: xuser where
  "bob = zero_xuser\<lparr>xu_id := 2, xu_uuid := ''b'', xu_password := ''c'', xu_enabled := True\<rparr>"

definition staffed_node :: store where
  "staffed_node = single_node\<lparr>st_users := [(2, bob), (1, alice)]\<rparr>"

lemma staffed_node_ok: "store_ok staffed_node"
  by (simp add: store_ok_def users_ok_def staffed_node_def single_node_def hy2_store_def empty_store_def covered_def
      max_users_def valid_user_def alice_def bob_def zero_xuser_def)

lemma staffed_credentials: "credentials demo_client staffed_node"
proof -
  have "admits staffed_node \<lparr>rq_method = [], rq_query = query_of demo_client, rq_body = BodyTooLarge\<rparr> hy2_entry"
    using hysteria2_type
    by (simp add: admits_def query_of_def demo_client_simps staffed_node_def single_node_def hy2_store_def hy2_entry_def
        zero_entry_def atoi_eval)
  moreover have "distinct (map ne_id (st_nodes staffed_node))" by (simp add: staffed_node_def single_node_def hy2_store_def)
  ultimately show ?thesis using authenticate_admits by (auto simp: credentials_def)
qed

lemma staffed_users: "enabled_users staffed_node = [alice, bob]"
  by (simp add: enabled_users_def staffed_node_def alice_def bob_def)

lemma staffed_agents: "map agent_user [alice, bob] =
    [\<lparr>ID = 1, UUID = ''a'', Password = ''a'', Name = ''1'', SpeedLimit = 0\<rparr>,
     \<lparr>ID = 2, UUID = ''b'', Password = ''c'', Name = ''2'', SpeedLimit = 0\<rparr>]"
  by code_simp

theorem users_resolve_end_to_end_witness:
  "case client_fetch_users (server_transport ''http://p'' no_faults 0) demo_client (staffed_node, \<lambda>_. None) of
     (w, None) \<Rightarrow> False
   | (w, Some us) \<Rightarrow> (case apply_box True id list_ops 0 [] us (manager_of []) of
       (inb, m, ok) \<Rightarrow> ok \<and> active_ids m = [''1'', ''2''] \<and> resolve m ''c'' = ''2'' \<and> resolve m ''a'' = ''1'')"
proof -
  let ?fetch = "client_fetch_users (server_transport ''http://p'' no_faults 0) demo_client (staffed_node, \<lambda>_. None)"
  obtain w fetched where f: "?fetch = (w, fetched)" by fastforce
  have r: "refresh_users no_faults 0 staffed_node (\<lambda>_. None) = (staffed_node, \<lambda>_. None, None)"
    by (simp add: refresh_users_def)
  have g: "list_all good_xuser (enabled_users staffed_node)"
    by (simp add: staffed_users good_xuser_def alice_def bob_def zero_xuser_def in_int64_def min_int64_def max_int64_def)
  have "private_secrets (map agent_user (enabled_users staffed_node))"
    unfolding staffed_users staffed_agents by (auto simp: private_secrets_def user_secrets_def)
  note U = users_resolve_end_to_end [OF staffed_node_ok staffed_credentials _ r g this, of w fetched True id list_ops 0 "[]" "manager_of []"]
  obtain m where a: "apply_box True id list_ops 0 [] (map agent_user (enabled_users staffed_node)) (manager_of []) = ([], m, True)"
    by (simp add: apply_box_def Let_def)
  have i: "itoa 1 = ''1''" "itoa 2 = ''2''" by code_simp+
  have m: "mget (st_users staffed_node) 1 = Some alice" "mget (st_users staffed_node) 2 = Some bob"
    by (simp_all add: staffed_node_def)
  have x: "xu_id alice = 1" "xu_id bob = 2" "xu_enabled alice" "xu_enabled bob" by (simp_all add: alice_def bob_def)
  have s: "''a'' \<in> user_secrets (agent_user alice)" "''c'' \<in> user_secrets (agent_user bob)"
    using staffed_agents by (simp_all add: user_secrets_def)
  have V: "fetched = Some [agent_user alice, agent_user bob]" "active_ids m = [''1'', ''2'']"
    "\<And>x secret. mget (st_users staffed_node) (xu_id x) = Some x \<Longrightarrow> xu_enabled x \<Longrightarrow> secret \<in> user_secrets (agent_user x)
      \<Longrightarrow> resolve m secret = itoa (xu_id x)"
    using U [unfolded demo_client_simps, OF _ f] a x i by (simp_all add: staffed_users)
  show ?thesis
    using V(1,2) a V(3) [of alice "''a''"] V(3) [of bob "''c''"] m x s i by (simp add: f staffed_users)
qed

end
