(* ===== verification/Wiring.thy ===== *)
theory Wiring
  imports Agent Identity
begin

text \<open>
  What a new connection gets (\<^verbatim>\<open>RoutedConnection\<close> and
  \<^verbatim>\<open>RoutedPacketConnection\<close>): the counter it is billed to and the limiters it waits
  for, from the name that sing-box's inbound gives it. What the wrappers then do is the subject of \<open>Routed\<close>.
\<close>

definition hook_resolve_user :: "user_manager option \<Rightarrow> string \<Rightarrow> string" where
  "hook_resolve_user users s = (case users of Some m \<Rightarrow> resolve m s | None \<Rightarrow> s)"

definition hook_directional_limiters :: "bool \<Rightarrow> user_manager option \<Rightarrow> string \<Rightarrow> nat option \<times> nat option \<times> nat option \<times> nat option" where
  "hook_directional_limiters enabled users s = (case users of Some m \<Rightarrow> directional_limiters enabled m s
     | None \<Rightarrow> (None, None, None, None))"

text \<open>A connection without a user is left as it is. Otherwise the address of its storage in the
  counter of its tag, and the addresses of its limiters: node read, node write, user read, user
  write.\<close>

record wrapping =
  wr_storage :: nat
  wr_limiters :: "nat option \<times> nat option \<times> nat option \<times> nat option"

definition wrap_connection :: "bool \<Rightarrow> user_manager option \<Rightarrow> string \<Rightarrow> string \<Rightarrow> hook \<Rightarrow> hook \<times> wrapping option" where
  "wrap_connection enabled users tag user h = (if user = [] then (h, None)
     else let lims = hook_directional_limiters enabled users user in
       (case hook_get_counter tag (hook_resolve_user users user) h of
          (a, h') \<Rightarrow> (h', Some \<lparr>wr_storage = a, wr_limiters = lims\<rparr>)))"

lemma get_counter_at: "get_counter c user = (a, c') \<Longrightarrow> mget (counters c') user = Some a"
  by (auto simp: get_counter_def gomap_simps Let_def split: option.splits)

lemma hook_get_counter_at:
  "hook_get_counter tag user h = (a, h') \<Longrightarrow>
    \<exists>c. mget h' (tag_or_default tag) = Some c \<and> mget (counters c) user = Some a"
  by (auto simp: hook_get_counter_def gomap_simps dest: get_counter_at split: prod.splits)

text \<open>C10. From a name to the right bill and the right limit: after a user list has been applied, a
  connection under any secret of a user gets that user's counter of its inbound and the node's
  limiters, and it gets limiters of its own exactly when the user has a speed limit, open and set to
  that limit in both directions.\<close>

theorem connection_wiring:
  assumes "agent_ok a" and "tracked_limiters (ag_users a)" and "some_order perm"
    and "distinct (map ID us)" and "\<forall>u \<in> set us. 0 < ID u" and "private_secrets us"
    and "snd (agent_apply True perm ops now us a)" and "agent_users True perm ops now us a = a'"
    and "u \<in> set us" and "s \<in> user_secrets u"
    and "wrap_connection True (Some (ag_users a')) tag s (ag_hook a') = (h', w)"
  shows "\<exists>addr nr nw ur uw c. w = Some \<lparr>wr_storage = addr, wr_limiters = (nr, nw, ur, uw)\<rparr>
    \<and> mget h' (tag_or_default tag) = Some c \<and> mget (counters c) (itoa (ID u)) = Some addr
    \<and> nr = map_option lp_rx (um_node_limit (ag_users a)) \<and> nw = map_option lp_tx (um_node_limit (ag_users a))
    \<and> (if 0 < SpeedLimit u then \<exists>r t. ur = Some r \<and> uw = Some t \<and> r \<noteq> t
         \<and> (\<forall>x \<in> {r, t}. lm_rate (um_memory (ag_users a') ! x) = mbps_to_bytes (SpeedLimit u)
             \<and> \<not> lm_closed (um_memory (ag_users a') ! x))
       else ur = None \<and> uw = None)"
proof -
  let ?m' = "ag_users a'"
  obtain inb m where b: "apply_box True perm ops now (collect_inbounds (ag_inbounds a)) us (ag_users a) = (inb, m, True)"
    using assms(7) by (auto simp: agent_apply_def split: prod.splits)
  then have m: "?m' = m" using assms(8) by (auto simp: agent_users_def agent_apply_def)
  have ok: "pairs_ok (ag_users a)" "wf_map (um_users (ag_users a))" using assms(1) by (simp_all add: agent_ok_def)
  note F = apply_box_facts [OF ok assms(2,3) b]
  have n: "next_users us = map (\<lambda>u. (ID u, u)) us" by (rule next_users_distinct [OF assms(4,5)])
  have "mget (next_users us) (ID u) = Some u"
    by (rule in_mget) (use assms(4,9) in \<open>auto simp: n comp_def\<close>)
  then have f: "follows m (ID u) u" using F by simp
  have s: "s \<noteq> []" "mget (um_by_secret m) s = Some (ID u)"
    using assms(10) next_secrets_mget [OF assms(6,5,9,10)] apply_box_success(2) [OF b] by (simp_all add: user_secrets_def)
  then have res: "resolve m s = itoa (ID u)" by (simp add: resolve_def)
  obtain addr where g: "hook_get_counter tag (itoa (ID u)) (ag_hook a') = (addr, h')"
    and w: "w = Some \<lparr>wr_storage = addr, wr_limiters = directional_limiters True m s\<rparr>"
    using assms(11) s(1) by (auto simp: wrap_connection_def Let_def hook_resolve_user_def hook_directional_limiters_def m res
        split: prod.splits)
  obtain c where c: "mget h' (tag_or_default tag) = Some c" "mget (counters c) (itoa (ID u)) = Some addr"
    using hook_get_counter_at [OF g] by blast
  have node: "um_node_limit m = um_node_limit (ag_users a)" using F by (simp add: owner_def)
  have up: "user_pair True m s = owner m (Some (ID u))" using s(2) by (simp add: user_pair_def owner_def)
  have d: "lp_rx p \<noteq> lp_tx p" if "owner m (Some (ID u)) = Some p" for p using pairs_okD(1) [OF _ that] F by blast
  show ?thesis
    using f c d by (auto simp: w directional_limiters_def node up m follows_def addrs_def split: option.splits)
qed

lemma served_limits: "private_secrets [limited_user]" by (simp add: private_secrets_def)

theorem connection_wiring_witness:
  "\<exists>addr nr nw r t. snd (wrap_connection True (Some (ag_users (agent_users True id list_ops 0 [limited_user] (new_agent 0 local_flags []))))
      ''vless-in'' ''p7'' (ag_hook (agent_users True id list_ops 0 [limited_user] (new_agent 0 local_flags []))))
    = Some \<lparr>wr_storage = addr, wr_limiters = (Some nr, Some nw, Some r, Some t)\<rparr>"
proof -
  let ?a = "new_agent 0 local_flags [] :: list_inbound agent"
  obtain h' w where w: "wrap_connection True (Some (ag_users (agent_users True id list_ops 0 [limited_user] ?a)))
      ''vless-in'' ''p7'' (ag_hook (agent_users True id list_ops 0 [limited_user] ?a)) = (h', w)" by fastforce
  have t: "tracked_limiters (ag_users ?a)"
    using new_user_manager_ok by (simp add: new_agent_def)
  have n: "um_node_limit (ag_users ?a) \<noteq> None"
    by (simp add: new_agent_def local_flags_def new_user_manager_def split: prod.split)
  have p: "snd (agent_apply True id list_ops 0 [limited_user] ?a)"
    using arg_cong [OF apply_no_inbounds [of list_ops 0 "[limited_user]" "new_user_manager 0 10"], of "snd \<circ> snd"]
    by (simp add: agent_apply_def new_agent_def local_flags_def collect_inbounds_def case_prod_beta)
  have u: "limited_user \<in> set [limited_user]" "''p7'' \<in> user_secrets limited_user" "0 < SpeedLimit limited_user" "0 < ID limited_user"
    by (simp_all add: user_secrets_def limited_user_def)
  from connection_wiring [OF new_agent_ok t some_order_id _ _ served_limits p refl u(1,2) w] u(3,4) n w
  show ?thesis by auto
qed

end
