(* ===== verification/Round.thy ===== *)
theory Round
  imports Conservation Wiring
begin

text \<open>
  One round of the synchroniser between the agent and the server: the users, then the traffic.
\<close>

section \<open>The agent's flush is the hook's\<close>

definition hook_syncer :: "'p panel_ops option \<Rightarrow> ('p, hook) syncer" where
  "hook_syncer pan = \<lparr>panel = pan, snapshot_cb = Some hook_snapshot_delta, commit_cb = Some hook_commit, users_cb = None, every = 0\<rparr>"

abbreviation on_hook :: "(hook \<Rightarrow> hook) \<Rightarrow> 'i agent \<Rightarrow> 'i agent" where
  "on_hook f a \<equiv> a\<lparr>ag_hook := f (ag_hook a)\<rparr>"

lemma agent_flush_hook:
  "flush (agent_syncer enabled perm ops now pan interval) (on_hook f) (p, a)
    = (case flush (hook_syncer pan) f (p, ag_hook a) of (p', h') \<Rightarrow> (p', a\<lparr>ag_hook := h'\<rparr>))"
  by (simp add: flush_def agent_syncer_def hook_syncer_def agent_delta_def agent_commit_def Let_def
      split: option.split prod.split bool.split)

lemma refresh_keeps_nodes:
  "refresh_users flt mtime s fs = (s', fs', e) \<Longrightarrow> st_nodes s' = st_nodes s \<and> st_token s' = st_token s"
  by (auto simp: refresh_users_def Let_def split: option.splits sum.splits prod.splits if_splits)

lemma authenticate_nodes:
  assumes "st_nodes s' = st_nodes s" "st_token s' = st_token s"
  shows "authenticate s' = authenticate s"
proof -
  have "node_snapshot_of s' = node_snapshot_of s" "valid_token s' = valid_token s" "lookup_node s' = lookup_node s"
    using assms by (simp_all add: fun_eq_iff node_snapshot_of_def valid_token_def lookup_node_def split: option.split)
  then show ?thesis by (intro ext) (simp only: authenticate_def)
qed

lemma credentials_refreshed:
  assumes "credentials c s" "refresh_users flt mtime s fs = (s', fs', e)"
  shows "credentials c s'"
proof -
  have "authenticate s' = authenticate s" using refresh_keeps_nodes [OF assms(2)] authenticate_nodes by blast
  then show ?thesis using assms(1) by (simp add: credentials_def)
qed

lemma refresh_again:
  "refresh_users flt mtime s fs = (s1, fs1, e) \<Longrightarrow> \<exists>e'. refresh_users flt mtime s1 fs1 = (s1, fs1, e')"
  by (auto simp: refresh_users_def Let_def users_path_def split: option.splits sum.splits prod.splits if_splits)

section \<open>The round\<close>

text \<open>The first half: the users reach the agent, and what is left is one flush of the hook without the
  counters of the users that are gone.\<close>

lemma round_users:
  fixes a :: "'i agent"
  defines "us \<equiv> \<lambda>s1. map agent_user (enabled_users s1)"
  assumes "store_ok s" and "credentials c s" and "cl_base c \<noteq> []"
    and "refresh_users flt mtime s fs = (s1, fs1, err)" and "list_all good_xuser (enabled_users s1)"
    and "private_secrets (us s1)" and "snd (agent_apply enabled perm ops now (us s1) a)"
    and "sync_once (agent_syncer enabled perm ops now (Some (client_panel (server_transport (cl_base c) flt mtime) c)) interval)
      (on_hook f) ((s, fs), a) = (x2, a')"
  obtains m where "active_ids (ag_users a') = active_ids m" and "active_ids m = map (\<lambda>x. itoa (xu_id x)) (enabled_users s1)"
    and "\<forall>u \<in> set (us s1). 0 < ID u"
    and "flush (hook_syncer (Some (client_panel (server_transport (cl_base c) flt mtime) c))) f
      ((s1, fs1), hook_remove_absent (active_ids m) (ag_hook a)) = (x2, ag_hook a')"
proof -
  let ?us = "map agent_user (enabled_users s1)" and ?pan = "client_panel (server_transport (cl_base c) flt mtime) c"
  let ?a1 = "agent_users enabled perm ops now ?us a"
  obtain inb m where b: "apply_box enabled perm ops now (collect_inbounds (ag_inbounds a)) ?us (ag_users a) = (inb, m, True)"
    using assms(8) by (auto simp: us_def agent_apply_def split: prod.splits)
  have a1: "?a1 = a\<lparr>ag_inbounds := inb, ag_users := m, ag_hook := hook_remove_absent (active_ids m) (ag_hook a)\<rparr>"
    using b by (simp add: agent_users_def agent_apply_def)
  have ok: "store_ok s1" by (rule refresh_users_ok [OF assms(2,5)])
  note E = enabled_users_facts [OF ok]
  have "distinct (map xu_id (enabled_users s1))" using E strict_sorted_iff by blast
  then have dist: "distinct (map ID ?us)" by (simp add: comp_def)
  have pos: "\<forall>u \<in> set ?us. 0 < ID u"
    using E ok users_ok_entry [of "st_users s1"] by (auto simp: store_ok_def valid_user_def dest!: mget_Some_in)
  have act: "active_ids m = map (\<lambda>x. itoa (xu_id x)) (enabled_users s1)"
    using resolve_applied(1) [OF b dist pos assms(7) [unfolded us_def]] by (simp add: comp_def)
  have fe: "fetch_users ?pan (s, fs) = ((s1, fs1), Some ?us)"
    using fetch_users_served [OF assms(3-6)] by (simp add: client_panel_def)
  obtain p' h' where h: "flush (hook_syncer (Some ?pan)) f ((s1, fs1), ag_hook ?a1) = (p', h')" by fastforce
  have st: "x2 = p'" "a' = ?a1\<lparr>ag_hook := h'\<rparr>"
    using assms(9) fe h agent_flush_hook [of enabled perm ops now "Some ?pan" interval f "(s1, fs1)" ?a1]
    by (simp_all add: sync_once_def agent_syncer_def)
  show thesis by (rule that [of m]) (use act pos h in \<open>simp_all add: st a1 us_def\<close>)
qed

text \<open>C3. One round of the synchroniser, with the agent's own callbacks against the server: it fetches
  the enabled users and applies them, so that the agent bills under exactly their ids; then it pushes.
  For every enabled user, what the server has booked plus what the agent has pending afterwards is what
  it was before plus the bytes that passed while the push was under way, modulo \<open>2 ^ 64\<close>.\<close>

theorem sync_round:
  fixes a :: "'i agent"
  defines "d \<equiv> agent_delta a"
  assumes "store_ok s" and "credentials c s" and "cl_base c \<noteq> []"
    and "refresh_users flt mtime s fs = (s1, fs1, err)" and "list_all good_xuser (enabled_users s1)"
    and "private_secrets (map agent_user (enabled_users s1))"
    and "agent_ok a" and "snd (agent_apply enabled perm ops now (map agent_user (enabled_users s1)) a)"
    and "ag_hook a = [(t, cnt)]" and "matches_inbound c t"
    and "x \<in> set (enabled_users s1)" and "mget (counters cnt) (itoa (xu_id x)) = Some addr"
    and "canonical (push_flat c d)" and "push_flat c d \<noteq> []"
    and "length (push_body (push_payload (push_flat c d))) \<le> max_push_body_size"
    and "billable s1 (xu_id x) (reported_at d t (itoa (xu_id x)))"
    and "sync_once (agent_syncer enabled perm ops now (Some (client_panel (server_transport (cl_base c) flt mtime) c)) interval)
      (on_hook (hook_run evs)) ((s, fs), a) = ((s2, fs2), a')"
  shows "active_ids (ag_users a') = map (\<lambda>x. itoa (xu_id x)) (enabled_users s1) \<and>
    padd (upload (traffic_of s2 (xu_id x)), download (traffic_of s2 (xu_id x))) (hook_pending (ag_hook a') t (itoa (xu_id x)))
    = padd (padd (upload (traffic_of s1 (xu_id x)), download (traffic_of s1 (xu_id x))) (hook_pending (ag_hook a) t (itoa (xu_id x))))
        (traffic_at addr (tag_events t evs))"
proof -
  let ?pan = "client_panel (server_transport (cl_base c) flt mtime) c" and ?i = "xu_id x"
  obtain m where act': "active_ids (ag_users a') = active_ids m" and act: "active_ids m = map (\<lambda>x. itoa (xu_id x)) (enabled_users s1)"
    and pos: "\<forall>u \<in> set (map agent_user (enabled_users s1)). 0 < ID u"
    and h: "flush (hook_syncer (Some ?pan)) (hook_run evs) ((s1, fs1), hook_remove_absent (active_ids m) (ag_hook a))
      = ((s2, fs2), ag_hook a')"
    by (rule round_users [OF assms(2-7,9,18)])
  let ?c1 = "remove_absent cnt (active_ids m)"
  have w: "wf_hook [(t, cnt)]" using assms(8,10) by (simp add: agent_ok_def)
  then have w1: "wf_hook [(t, ?c1)]" using wf_hook_remove_absent [of "[(t, cnt)]"] by (simp add: hook_remove_absent_def)
  have dl: "hook_snapshot_delta [(t, ?c1)] = d"
    using hook_delta_remove_absent [of "active_ids m" "[(t, cnt)]"] by (simp add: d_def agent_delta_def assms(10) hook_remove_absent_def)
  have k: "mget (counters ?c1) (itoa ?i) = Some addr"
  proof -
    have "itoa ?i \<in> set (active_ids m)" using assms(12) act by auto
    moreover have "wf_map (counters cnt)" using w by (simp add: wf_hook_def wf_counter_def)
    ultimately show ?thesis using assms(13) by (simp add: remove_absent_def mget_filter)
  qed
  obtain e' where r: "refresh_users flt mtime s1 fs1 = (s1, fs1, e')" using refresh_again [OF assms(5)] by blast
  have u: "0 < ?i" "in_int64 ?i" using pos assms(6,12) by (force simp: list_all_iff good_xuser_def)+
  then have n: "is_numeric_user (itoa ?i)" by (simp add: is_numeric_is_digits is_digits_itoa)
  have fl1: "flush (hook_syncer (Some ?pan)) (hook_run evs) ((s1, fs1), [(t, ?c1)]) = ((s2, fs2), ag_hook a')"
    using h by (simp add: assms(10) hook_remove_absent_def)
  have "padd (upload (traffic_of s2 ?i), download (traffic_of s2 ?i)) (hook_pending (ag_hook a') t (itoa ?i))
    = padd (padd (upload (traffic_of s1 ?i), download (traffic_of s1 ?i)) (hook_pending [(t, ?c1)] t (itoa ?i)))
        (traffic_at addr (tag_events t evs))"
    by (rule flush_conserves [OF w1 assms(11) k n u(2) _ _ _ _ _ assms(4) credentials_refreshed [OF assms(3,5)] r _ _ fl1])
      (simp_all add: hook_syncer_def dl assms(14-17))
  moreover have "hook_pending [(t, ?c1)] t (itoa ?i) = hook_pending (ag_hook a) t (itoa ?i)"
    using k assms(13) by (simp add: assms(10) hook_pending_def pending_def remove_absent_def)
  ultimately show ?thesis using act by (simp add: act')
qed

definition billing_agent :: "list_inbound agent" where
  "billing_agent = \<lparr>ag_hook = [(''hy2-in'', hy2_counter)], ag_users = manager_of [], ag_inbounds = []\<rparr>"

lemma staffed_private: "private_secrets (map agent_user (enabled_users staffed_node))"
  unfolding staffed_users staffed_agents by (auto simp: private_secrets_def user_secrets_def)

lemma staffed_good: "list_all good_xuser (enabled_users staffed_node)"
  by (simp add: staffed_users good_xuser_def alice_def bob_def zero_xuser_def in_int64_def min_int64_def max_int64_def)

lemma billing_agent_ok: "agent_ok billing_agent"
  using wf_next_users [of "[]"]
  by (auto simp: agent_ok_def billing_agent_def manager_of_def pairs_ok_def owner_def wf_hook_def wf_counter_def hy2_counter_def
      split: option.splits)

lemma billing_agent_applies: "snd (agent_apply True id list_ops 0 users billing_agent)"
  using apply_no_inbounds [of list_ops 0 users "manager_of []"]
  by (auto simp: agent_apply_def billing_agent_def collect_inbounds_def split: prod.splits)

theorem sync_round_witness:
  "case sync_once (agent_syncer True id list_ops 0 (Some (client_panel (server_transport ''http://p'' no_faults 0) demo_client)) 60)
       (on_hook (hook_run [HRecv ''hy2-in'' 0 5])) ((staffed_node, \<lambda>_. None), billing_agent) of
     ((s2, _), a') \<Rightarrow> active_ids (ag_users a') = [''1'', ''2'']
       \<and> padd (upload (traffic_of s2 1), download (traffic_of s2 1)) (hook_pending (ag_hook a') ''hy2-in'' ''1'') = (8, 4)"
proof -
  let ?h = "[(''hy2-in'', hy2_counter)]"
  let ?round = "sync_once (agent_syncer True id list_ops 0
      (Some (client_panel (server_transport (cl_base demo_client) no_faults 0) demo_client)) 60)
      (on_hook (hook_run [HRecv ''hy2-in'' 0 5])) ((staffed_node, \<lambda>_. None), billing_agent)"
  obtain s2 fs2 a' where r: "?round = ((s2, fs2), a')" by (cases ?round) auto
  have i: "itoa 1 = ''1''" "itoa 2 = ''2''" by code_simp+
  have x: "xu_id alice = 1" "xu_id bob = 2" by (simp_all add: alice_def bob_def)
  have d: "agent_delta billing_agent = [(''hy2-in'', [(''1'', (3, 4))])]"
    by (simp add: agent_delta_def billing_agent_def hy2_delta)
  have u: "is_numeric_user ''1''" by (simp add: is_numeric_user_def is_digit_def)
  have mt: "matches_inbound demo_client ''hy2-in''" by (simp add: matches_inbound_def demo_client_simps hy2_lower)
  then have fl: "push_flat demo_client (agent_delta billing_agent) = [(''1'', (3, 4))]"
    by (simp add: d push_flat_def flatten_user_def u reported_def padd_def pzero_def)
  have ref: "refresh_users no_faults 0 staffed_node (\<lambda>_. None) = (staffed_node, \<lambda>_. None, None)" by (simp add: refresh_users_def)
  have bil: "billable staffed_node (xu_id alice) (reported_at (agent_delta billing_agent) ''hy2-in'' (itoa (xu_id alice)))"
    by (simp add: d i x reported_at_def reported_def billable_def staffed_node_def single_node_def demo_store_def traffic_of_def
        hy2_store_def empty_store_def zero_traffic_def alice_def)
  have can: "canonical (push_flat demo_client (agent_delta billing_agent))"
    unfolding fl by (simp add: canonical_def canonical_id_def atoi_eval i)
  have ne: "push_flat demo_client (agent_delta billing_agent) \<noteq> []"
    and bd: "length (push_body (push_payload (push_flat demo_client (agent_delta billing_agent)))) \<le> max_push_body_size"
    unfolding fl by (simp_all add: demo_payload demo_body)
  have hk: "ag_hook billing_agent = [(''hy2-in'', hy2_counter)]" and mg: "mget (counters hy2_counter) (itoa (xu_id alice)) = Some 0"
    and al: "alice \<in> set (enabled_users staffed_node)" and cb: "cl_base demo_client \<noteq> []"
    by (simp_all add: billing_agent_def hy2_counter_def i x staffed_users demo_client_simps)
  have "active_ids (ag_users a') = map (\<lambda>x. itoa (xu_id x)) (enabled_users staffed_node) \<and>
    padd (upload (traffic_of s2 (xu_id alice)), download (traffic_of s2 (xu_id alice)))
      (hook_pending (ag_hook a') ''hy2-in'' (itoa (xu_id alice)))
    = padd (padd (upload (traffic_of staffed_node (xu_id alice)), download (traffic_of staffed_node (xu_id alice)))
        (hook_pending (ag_hook billing_agent) ''hy2-in'' (itoa (xu_id alice))))
      (traffic_at 0 (tag_events ''hy2-in'' [HRecv ''hy2-in'' 0 5]))"
    by (rule sync_round [OF staffed_node_ok staffed_credentials cb ref staffed_good staffed_private billing_agent_ok
          billing_agent_applies hk mt al mg can ne bd bil r])
  moreover have "hook_pending ?h ''hy2-in'' ''1'' = (3, 4)"
    by (simp add: hook_pending_def pending_def hy2_counter_def storage_delta_def)
  moreover have "traffic_of staffed_node 1 = zero_traffic"
    by (simp add: traffic_of_def staffed_node_def single_node_def hy2_store_def empty_store_def)
  ultimately show ?thesis
    using r by (simp add: demo_client_simps i x staffed_users billing_agent_def zero_traffic_def tag_events_def padd_def)
      (simp add: pzero_def)
qed

end
