(* ===== verification/Delivery.thy ===== *)
theory Delivery
  imports Metering Round
begin

text \<open>
  Agent and server over a network that may lose a request or its answer. A lost request changes
  nothing and its traffic stays pending; a lost answer makes the agent send again what the server has
  already booked. Over any run of the synchroniser the two sides account for every byte that was counted, and
  what is billed twice is exactly what the requests with a lost answer carried.
\<close>

section \<open>The size of a push\<close>

lemma length_nat_itoa: "n < 10 ^ k \<Longrightarrow> 0 < k \<Longrightarrow> length (nat_itoa n) \<le> k"
proof (induction n arbitrary: k rule: nat_itoa.induct)
  case (1 n)
  show ?case
  proof (cases "n < 10")
    case True
    then show ?thesis using 1 by (simp add: nat_itoa.simps [of n])
  next
    case False
    then obtain m where k: "k = Suc m" "0 < m" using 1(2,3) by (cases k; cases "k - 1") auto
    then have "n div 10 < 10 ^ m" using 1(2) by (simp add: less_mult_imp_div_less mult.commute)
    then show ?thesis using 1(1) [OF False _ k(2)] False k by (simp add: nat_itoa.simps [of n])
  qed
qed

lemma length_itoa:
  assumes "in_int64 i"
  shows "length (itoa i) \<le> 20"
proof -
  have "nat i < 10 ^ 19" "nat (- i) < 10 ^ 19"
    using assms by (auto simp: in_int64_def min_int64_def max_int64_def nat_less_iff intro: le_less_trans)
  from this [THEN length_nat_itoa] show ?thesis by (auto simp: itoa_def)
qed

lemma quote_digits: "list_all is_digit s \<Longrightarrow> length (quote s) = length s + 2"
proof -
  have "is_digit c \<Longrightarrow> escape_char c = [c]" for c
    by (auto simp: is_digit_def escape_char_def Let_def)
  then show "list_all is_digit s \<Longrightarrow> length (quote s) = length s + 2"
    by (induction s) (simp_all add: quote_def)
qed

lemma length_join: "(\<And>x. x \<in> set xs \<Longrightarrow> length x \<le> n) \<Longrightarrow> length (join '','' xs) \<le> Suc n * length xs"
proof (induction xs rule: induct_list012)
  case (3 x y zs)
  have "length (join '','' (y # zs)) \<le> Suc n * length (y # zs)" "length x \<le> n" using 3 by auto
  then show ?case by simp
qed force+

lemma length_pair: "length (print_json False d (enc_pair v)) \<le> 43"
  using length_itoa [OF sint_range64, of "fst v"] length_itoa [OF sint_range64, of "snd v"]
  by (simp add: enc_pair_def enc_int_def newline_def)

lemma length_push_body:
  assumes "list_all (\<lambda>(i, v). 0 \<le> i \<and> in_int64 i) p"
  shows "length (push_body p) \<le> 67 * length p + 3"
proof -
  have m: "length (quote (itoa i) @ '':'' @ print_json False d (enc_pair v)) \<le> 66" if "(i, v) \<in> set p" for i v d
  proof -
    have i: "0 \<le> i" "in_int64 i" using assms that by (auto simp: list_all_iff)
    then have "length (quote (itoa i)) \<le> 22"
      using quote_digits [of "itoa i"] is_digits_itoa length_itoa by (simp add: is_digits_def)
    then show ?thesis using length_pair [of d v] by simp
  qed
  let ?es = "map (\<lambda>(uid, v). (itoa uid, enc_pair v)) p"
  let ?xs = "map (\<lambda>(k, v). quote k @ colon False @ print_json False (Suc 0) v) (sort_key fst ?es)"
  have "length (join '','' ?xs) \<le> Suc 66 * length ?xs" using m by (intro length_join) (auto simp: colon_def)
  then show ?thesis by (auto simp: push_body_def enc_push_def marshal_def newline_def)
qed

lemma size_push:
  assumes "canonical m" and "wf_map m" and "set (keys m) \<subseteq> names" and "finite names" and "card names \<le> 3900"
  shows "length (push_body (push_payload m)) \<le> max_push_body_size"
proof -
  let ?p = "push_payload m"
  note P = payload_canonical [OF assms(1,2)]
  have i: "0 < i \<and> in_int64 i \<and> itoa i \<in> set (keys m)" if "i \<in> set (keys ?p)" for i
  proof -
    obtain v where v: "mget ?p i = Some v" using \<open>i \<in> set (keys ?p)\<close> mget_None_iff [of ?p i] by (cases "mget ?p i") auto
    then have r: "0 < i \<and> in_int64 i" using P by blast
    then have "mget m (itoa i) = Some v" using P v by metis
    then have "itoa i \<in> set (keys m)" using mget_None_iff [of m "itoa i"] by (cases "itoa i \<in> set (keys m)") auto
    with r show ?thesis by blast
  qed
  have "card (itoa ` set (keys ?p)) = card (set (keys ?p))"
    using i itoa_inj_on by (intro card_image) (auto simp: inj_on_def)
  also have "\<dots> = length ?p" using P distinct_card [of "keys ?p"] by simp
  finally have l: "card (itoa ` set (keys ?p)) = length ?p" .
  have "itoa ` set (keys ?p) \<subseteq> names" using i assms(3) by blast
  from card_mono [OF assms(4) this] have "length ?p \<le> card names" by (simp only: l)
  moreover have "list_all (\<lambda>(i, v). 0 \<le> i \<and> in_int64 i) ?p" using i by (force simp: list_all_iff)
  ultimately show ?thesis using length_push_body [of ?p] assms(5) by (simp add: max_push_body_size_def)
qed

section \<open>A network that loses requests and answers\<close>

datatype verdict = Delivered | RequestLost | AnswerLost

text \<open>The world of the network: what becomes of the next requests, the requests whose answer was lost,
  and the world behind it. When the verdicts are used up, everything is delivered.\<close>

type_synonym 'w network = "verdict list \<times> http_request list \<times> 'w"

definition flaky :: "'w transport \<Rightarrow> 'w network transport" where
  "flaky tr q = (\<lambda>(vs, lost, w). case vs of
     [] \<Rightarrow> (case tr q w of (w', r) \<Rightarrow> (([], lost, w'), r))
   | Delivered # vs' \<Rightarrow> (case tr q w of (w', r) \<Rightarrow> ((vs', lost, w'), r))
   | RequestLost # vs' \<Rightarrow> ((vs', lost, w), HttpError)
   | AnswerLost # vs' \<Rightarrow> ((vs', q # lost, fst (tr q w)), HttpError))"

lemma flakyE:
  assumes "flaky tr q (vs, lost, w) = (nw, r)" and "tr q w = (w', answer)"
  obtains vs' where "nw = (vs', lost, w')" "r = answer" "count_list vs' AnswerLost \<le> count_list vs AnswerLost"
  | vs' where "nw = (vs', lost, w)" "r = HttpError" "count_list vs' AnswerLost \<le> count_list vs AnswerLost"
  | vs' where "nw = (vs', q # lost, w')" "r = HttpError" "Suc (count_list vs' AnswerLost) \<le> count_list vs AnswerLost"
  using assms by (cases vs; cases "hd vs") (auto simp: flaky_def)

text \<open>What a request asks the server to book for user \<open>i\<close>.\<close>

definition carried :: "int \<Rightarrow> http_request \<Rightarrow> pair64" where
  "carried i q = (case dec_push (hr_body q) of
     (raw, False) \<Rightarrow> (case push_amounts raw of None \<Rightarrow> pzero
       | Some p \<Rightarrow> (case mget p i of None \<Rightarrow> pzero | Some v \<Rightarrow> v))
   | _ \<Rightarrow> pzero)"

fun carried_by :: "int \<Rightarrow> http_request list \<Rightarrow> pair64" where
  "carried_by i [] = pzero"
| "carried_by i (q # qs) = padd (carried i q) (carried_by i qs)"

definition booked :: "store \<Rightarrow> int \<Rightarrow> pair64" where
  "booked s i = (upload (traffic_of s i), download (traffic_of s i))"

lemma carried_push:
  assumes "canonical m" and "wf_map m" and "in_int64 i" and "hr_body q = push_body (push_payload m)"
  shows "carried i q = reported m (itoa i)"
proof -
  note P = payload_canonical [OF assms(1,2)]
  have k: "list_all in_int64 (keys (push_payload m))" using P by (auto simp: list_all_iff dest: in_mget)
  then have "list_all in_int64 (keys (sent (push_payload m)))" using P by (simp add: list_all_iff sent_facts)
  then show ?thesis
    using P k assms(3,4) by (simp add: carried_def dec_push_body amounts_of_raw sent_facts reported_def pzero_def)
qed

lemma carried_get: "hr_body q = [] \<Longrightarrow> carried i q = pzero"
proof -
  have "decode_prefix [] = None" by code_simp
  then show "hr_body q = [] \<Longrightarrow> carried i q = pzero" by (simp add: carried_def dec_push_def)
qed

section \<open>The server between two edits of its users\<close>

text \<open>The users file has not changed since it was read.\<close>

definition steady :: "int \<Rightarrow> store \<Rightarrow> fs \<Rightarrow> bool" where
  "steady mtime s fs \<longleftrightarrow> fs (users_path s) = None \<or> st_users_loaded s \<and> mtime \<le> st_users_mod s"

definition same_but_books :: "store \<Rightarrow> store \<Rightarrow> bool" where
  "same_but_books s s' \<longleftrightarrow> s'\<lparr>st_traffic := st_traffic s, st_dirty := st_dirty s\<rparr> = s"

lemma steady_refresh: "steady mtime s fs \<Longrightarrow> refresh_users flt mtime s fs = (s, fs, None)"
  by (auto simp: steady_def refresh_users_def split: option.split)

lemma same_refl [simp]: "same_but_books s s"
  by (simp add: same_but_books_def)

lemma sameE:
  assumes "same_but_books s s'"
  obtains tr d where "s' = s\<lparr>st_traffic := tr, st_dirty := d\<rparr>"
proof -
  have "s' = s'\<lparr>st_traffic := st_traffic s, st_dirty := st_dirty s\<rparr>\<lparr>st_traffic := st_traffic s', st_dirty := st_dirty s'\<rparr>"
    by simp
  then show thesis using assms that by (metis same_but_books_def)
qed

lemma same_trans: "same_but_books s s' \<Longrightarrow> same_but_books s' s'' \<Longrightarrow> same_but_books s s''"
  by (elim sameE) (simp add: same_but_books_def)

lemma same_accumulate: "accumulate uid up down s = (s', ok) \<Longrightarrow> same_but_books s s'"
  by (auto simp: accumulate_def Let_def same_but_books_def split: if_splits)

lemma same_push_one: "same_but_books s (fst (push_one uid up down (s, n)))"
  using same_accumulate by (auto simp: push_one_def split: prod.split)

lemma same_fold:
  assumes "\<And>x s n. same_but_books s (fst (f x (s, n)))"
  shows "same_but_books s (fst (fold f xs (s, n)))"
proof (induction xs arbitrary: s n)
  case (Cons x xs)
  obtain s' n' where "f x (s, n) = (s', n')" by fastforce
  then show ?case using Cons.IH [of s' n'] assms [of s x n] same_trans by simp
qed simp

lemma same_apply_push:
  assumes "apply_push s raw = (s', resp)"
  shows "same_but_books s s'"
proof -
  have "same_but_books s (fst (push_entries es (s, 0)))" for es
    unfolding push_entries_def by (rule same_fold) (rule same_push_one)
  moreover have "same_but_books s (fst (push_compact raw (s, 0)))" for raw
    unfolding push_compact_def by (rule same_fold) (auto simp: same_push_one split: prod.split bool.split option.split)
  ultimately show ?thesis using assms
    by (auto simp: apply_push_def split: option.splits prod.splits bool.splits) (metis fst_conv)+
qed

lemma server_steady:
  assumes "steady mtime s fs" and "server_transport base flt mtime q (s, fs) = ((s', fs'), r)"
  shows "fs' = fs \<and> same_but_books s s'"
proof -
  note R = steady_refresh [OF assms(1), of flt]
  have "same_but_books s s' \<and> fs' = fs" if "handle_user flt mtime s fs x = (s', fs', resp)" for x resp
    using that by (auto simp: handle_user_def R split: if_splits sum.splits)
  moreover have "same_but_books s s' \<and> fs' = fs" if "handle_push b flt mtime s fs x = (s', fs', resp)" for b x resp
    using that same_apply_push
    by (auto simp: handle_push_def R split: if_splits sum.splits push_body.splits prod.splits bool.splits)
  ultimately show ?thesis using assms(2)
    by (auto simp: server_transport_def split: if_splits option.splits route.splits prod.splits)
qed

lemma same_keeps:
  assumes "same_but_books s s'"
  shows "steady mtime s' fs = steady mtime s fs" and "credentials c s' = credentials c s"
    and "enabled_users s' = enabled_users s" and "st_users s' = st_users s"
proof -
  obtain tr d where s': "s' = s\<lparr>st_traffic := tr, st_dirty := d\<rparr>" using assms by (rule sameE)
  then show "steady mtime s' fs = steady mtime s fs" "enabled_users s' = enabled_users s" "st_users s' = st_users s"
    by (simp_all add: steady_def users_path_def enabled_users_def)
  have "authenticate s' = authenticate s" by (rule authenticate_nodes) (simp_all add: s')
  then show "credentials c s' = credentials c s" by (simp add: credentials_def)
qed

section \<open>The agent's counter of one user\<close>

text \<open>All that was ever counted in the user's storage of one inbound.\<close>

definition storage_total :: "storage \<Rightarrow> pair64" where
  "storage_total st = (up_counter st, down_counter st)"

definition hook_counted :: "hook \<Rightarrow> string \<Rightarrow> string \<Rightarrow> pair64" where
  "hook_counted h t u = (case mget h t of None \<Rightarrow> pzero | Some cnt \<Rightarrow>
     (case mget (counters cnt) u of None \<Rightarrow> pzero | Some a \<Rightarrow> storage_total (heap cnt ! a)))"

text \<open>The user's storage is at a known address, and all names of the inbound are known.\<close>

definition counts_at :: "string set \<Rightarrow> string \<Rightarrow> string \<Rightarrow> nat \<Rightarrow> hook \<Rightarrow> bool" where
  "counts_at names t u addr h \<longleftrightarrow> (\<exists>cnt. mget h t = Some cnt \<and> set (keys (counters cnt)) \<subseteq> names
     \<and> mget (counters cnt) u = Some addr)"

definition known_names :: "string set \<Rightarrow> string \<Rightarrow> hook_event list \<Rightarrow> bool" where
  "known_names names t evs \<longleftrightarrow> (\<forall>tag user. HConnect tag user \<in> set evs \<longrightarrow> tag_or_default tag = t \<longrightarrow> user \<in> names)"

lemma commit_user_totals: "map storage_total (heap (commit_user x c)) = map storage_total (heap c)"
proof -
  have "storage_total (commit_storage d s) = storage_total s" for d s
    by (simp add: commit_storage_def storage_total_def)
  moreover have "(map f xs)[a := f (xs ! a)] = map f xs" for f :: "storage \<Rightarrow> pair64" and xs a
    by (metis list_update_id map_update)
  ultimately show ?thesis by (auto simp: commit_user_def map_update split: prod.split option.split)
qed

lemma commit_totals: "map storage_total (heap (commit_snapshot c m)) = map storage_total (heap c)"
  unfolding commit_snapshot_def by (induction m arbitrary: c) (simp_all add: commit_user_totals)

lemma total_cong:
  assumes "map storage_total xs = map storage_total ys" and "a < length ys"
  shows "storage_total (xs ! a) = storage_total (ys ! a)"
  using assms by (metis length_map nth_map)

lemma counts_commit:
  assumes "wf_hook h" and "counts_at names t u addr h"
  shows "counts_at names t u addr (hook_commit h d) \<and> hook_counted (hook_commit h d) t u = hook_counted h t u"
proof -
  have one: "counts_at names t u addr (hook_commit_one (t', m) h) \<and> hook_counted (hook_commit_one (t', m) h) t u = hook_counted h t u"
    if H: "wf_hook h" "counts_at names t u addr h" for t' m h
  proof -
    obtain cnt where c: "mget h t = Some cnt" "set (keys (counters cnt)) \<subseteq> names" "mget (counters cnt) u = Some addr"
      using H(2) by (auto simp: counts_at_def)
    have "addr < length (heap cnt)" using wf_counterD(2) [OF wf_hook_get [OF H(1) c(1)] c(3)] .
    from total_cong [OF commit_totals this] c show ?thesis
      by (auto simp: counts_at_def hook_counted_def mget_commit_one)
  qed
  have "counts_at names t u addr (fold hook_commit_one d h) \<and> hook_counted (fold hook_commit_one d h) t u = hook_counted h t u"
    if "wf_hook h" "counts_at names t u addr h" for h
    using that
  proof (induction d arbitrary: h)
    case (Cons x d)
    then show ?case using one [of h "fst x" "snd x"] wf_commit_one [of h x] by simp
  qed simp
  with assms show ?thesis by (simp add: hook_commit_def)
qed

lemma counts_remove_absent:
  assumes "wf_hook h" and "counts_at names t u addr h" and "u \<in> set active"
  shows "counts_at names t u addr (hook_remove_absent active h)
    \<and> hook_counted (hook_remove_absent active h) t u = hook_counted h t u
    \<and> hook_pending (hook_remove_absent active h) t u = hook_pending h t u"
proof -
  obtain cnt where c: "mget h t = Some cnt" "set (keys (counters cnt)) \<subseteq> names" "mget (counters cnt) u = Some addr"
    using assms(2) by (auto simp: counts_at_def)
  have w: "wf_map (counters cnt)" using wf_counterD(1) [OF wf_hook_get [OF assms(1) c(1)]] .
  have h: "mget (hook_remove_absent active h) t = Some (remove_absent cnt active)"
    using c(1) by (simp add: hook_remove_absent_def mget_map_val)
  have u: "mget (counters (remove_absent cnt active)) u = Some addr"
    using c(3) assms(3) by (simp add: remove_absent_def mget_filter [OF w])
  have "set (keys (counters (remove_absent cnt active))) \<subseteq> names" using c(2) by (auto simp: remove_absent_def)
  with h u c show ?thesis by (simp add: counts_at_def hook_counted_def hook_pending_def pending_def remove_absent_def)
qed

lemma total_event:
  assumes "wf_counter c" and "a < length (heap c)"
  shows "storage_total (heap (apply_event e c) ! a) = padd (storage_total (heap c ! a)) (event_traffic a e)"
  using assms by (cases e)
    (auto simp: get_counter_def add_up_def add_down_def storage_total_def padd_def pzero_def nth_append nth_list_update
      split: option.split)

lemma length_event: "a < length (heap c) \<Longrightarrow> a < length (heap (apply_event e c))"
  by (cases e) (auto simp: get_counter_def add_up_def add_down_def split: option.split)

lemma total_events:
  "wf_counter c \<Longrightarrow> a < length (heap c) \<Longrightarrow>
    storage_total (heap (run_events evs c) ! a) = padd (storage_total (heap c ! a)) (traffic_at a evs)"
  by (induction evs arbitrary: c) (simp_all add: total_event length_event padd_ac(1))

lemma keys_events:
  "set (keys (counters c)) \<subseteq> names \<Longrightarrow> \<forall>user. Connect user \<in> set evs \<longrightarrow> user \<in> names \<Longrightarrow>
    set (keys (counters (run_events evs c))) \<subseteq> names"
proof (induction evs arbitrary: c)
  case (Cons e evs)
  have "set (keys (counters (apply_event e c))) \<subseteq> names"
  proof (cases e)
    case (Connect user)
    then have "user \<in> names" using Cons.prems(2) by simp
    then show ?thesis using Cons.prems(1) Connect set_keys_mput [of user "length (heap c)" "counters c"]
      by (cases "mget (counters c) user") (simp_all add: get_counter_def)
  qed (use Cons.prems(1) in \<open>simp_all add: add_up_def add_down_def\<close>)
  then show ?case using Cons by simp
qed simp

lemma counts_run:
  assumes "wf_hook h" and "counts_at names t u addr h" and "known_names names t evs"
  shows "counts_at names t u addr (hook_run evs h)
    \<and> hook_counted (hook_run evs h) t u = padd (hook_counted h t u) (traffic_at addr (tag_events t evs))
    \<and> hook_pending (hook_run evs h) t u = padd (hook_pending h t u) (traffic_at addr (tag_events t evs))"
proof -
  obtain cnt where c: "mget h t = Some cnt" "set (keys (counters cnt)) \<subseteq> names" "mget (counters cnt) u = Some addr"
    using assms(2) by (auto simp: counts_at_def)
  note w = wf_hook_get [OF assms(1) c(1)]
  have "Connect user \<in> set (tag_event t e) \<Longrightarrow> \<exists>tag. e = HConnect tag user \<and> tag_or_default tag = t" for user e
    by (cases e) (auto split: if_splits)
  then have "\<forall>user. Connect user \<in> set (tag_events t evs) \<longrightarrow> user \<in> names"
    using assms(3) by (fastforce simp: tag_events_def known_names_def)
  from keys_events [OF c(2) this] show ?thesis
    using c mget_hook_run [OF c(1)] mget_run_events [OF c(3)] total_events [OF w wf_counterD(2) [OF w c(3)]]
      hook_pending_run [OF assms(1) c(1,3)]
    by (simp add: counts_at_def hook_counted_def)
qed

section \<open>The contract between agent and server\<close>

text \<open>What does not change while the agent runs: the user, the client whose node type matches one
  inbound, and the names under which connections of this inbound are counted.\<close>

definition sound_account :: "((int \<times> user) list \<Rightarrow> (int \<times> user) list) \<Rightarrow> client \<Rightarrow> int \<Rightarrow> string \<Rightarrow> string set \<Rightarrow> bool" where
  "sound_account perm c i t names \<longleftrightarrow> some_order perm \<and> cl_base c \<noteq> [] \<and> 0 < i \<and> in_int64 i \<and> (\<forall>t'. matches_inbound c t' \<longleftrightarrow> t' = t)
     \<and> finite names \<and> card names \<le> 3900 \<and> (\<forall>n \<in> names. is_numeric_user n \<longrightarrow> canonical_id n)"

definition sound_server :: "nat \<Rightarrow> client \<Rightarrow> int \<Rightarrow> int \<Rightarrow> (store \<times> fs) network \<Rightarrow> bool" where
  "sound_server k c mtime i = (\<lambda>(vs, lost, s, fs). length lost + count_list vs AnswerLost \<le> k \<and> credentials c s \<and> steady mtime s fs
     \<and> list_all good_xuser (enabled_users s) \<and> i \<in> xu_id ` set (enabled_users s) \<and> i \<in> set (keys (st_users s)))"

definition in_service :: "nat \<Rightarrow> ((int \<times> user) list \<Rightarrow> (int \<times> user) list) \<Rightarrow> client \<Rightarrow> int \<Rightarrow> int \<Rightarrow> string \<Rightarrow> string set \<Rightarrow> nat \<Rightarrow>
    (store \<times> fs) network \<Rightarrow> 'i agent \<Rightarrow> bool" where
  "in_service k perm c mtime i t names addr w a \<longleftrightarrow> sound_account perm c i t names \<and> sound_server k c mtime i w
     \<and> counts_at names t (itoa i) addr (ag_hook a)"

text \<open>What the server has booked for the user, less what was booked again after a lost answer.\<close>

definition net_booked :: "int \<Rightarrow> (store \<times> fs) network \<Rightarrow> pair64" where
  "net_booked i = (\<lambda>(vs, lost, s, fs). psub (booked s i) (carried_by i lost))"

definition lists_user :: "int \<Rightarrow> user list \<Rightarrow> bool" where
  "lists_user i us \<longleftrightarrow> i \<in> ID ` set us"

lemma numeric_itoa: "0 < i \<Longrightarrow> is_numeric_user (itoa i)"
  by (simp add: is_numeric_is_digits is_digits_itoa)

lemma server_kept:
  assumes "sound_server k c mtime i (vs, lost, s, fs)" and "same_but_books s s'"
    and "length lost' + count_list vs' AnswerLost \<le> length lost + count_list vs AnswerLost"
  shows "sound_server k c mtime i (vs', lost', s', fs)"
  using assms(1,3) same_keeps [OF assms(2)] by (simp add: sound_server_def)

lemma fetch_flaky:
  assumes "sound_account perm c i t names" and "sound_server k c mtime i w"
    and "client_fetch_users (flaky (server_transport (cl_base c) flt mtime)) c w = (w', r)"
  shows "sound_server k c mtime i w' \<and> net_booked i w' = net_booked i w \<and> (\<forall>us. r = Some us \<longrightarrow> lists_user i us)"
proof -
  obtain vs lost s fs where w: "w = (vs, lost, s, fs)" by (cases w) auto
  note A = assms(1) [unfolded sound_account_def] and S = assms(2) [unfolded w sound_server_def prod.case]
  obtain url q where e: "endpoint c ''/api/v1/server/UniProxy/user'' = Some (url, q)"
    using A by (simp add: endpoint_def)
  let ?q = "\<lparr>hr_method = ''GET'', hr_url = url, hr_query = q, hr_body = []\<rparr>" and ?tr = "server_transport (cl_base c) flt mtime"
  have f: "client_fetch_users ?tr c (s, fs) = ((s, fs), Some (map agent_user (enabled_users s)))"
    using fetch_users_served [OF _ _ steady_refresh] A S by blast
  then obtain st body where tr: "?tr ?q (s, fs) = ((s, fs), HttpResponse st body)" "success st"
      "decode_user_list body = Some (map agent_user (enabled_users s))"
    using e by (auto simp: client_fetch_users_def http_get_def split: prod.splits http_result.splits if_splits)
  have l: "lists_user i (map agent_user (enabled_users s))" using S by (auto simp: lists_user_def image_comp comp_def)
  have z: "carried i ?q = pzero" by (rule carried_get) simp
  have fk: "client_fetch_users (flaky ?tr) c w = (case flaky ?tr ?q w of
      (w', HttpError) \<Rightarrow> (w', None) | (w', HttpResponse status body) \<Rightarrow> (w', if \<not> success status then None else decode_user_list body))"
    using e by (simp add: client_fetch_users_def http_get_def)
  obtain nw answer where fl: "flaky ?tr ?q (vs, lost, s, fs) = (nw, answer)" by fastforce
  then have w': "w' = nw" "r = (case answer of HttpError \<Rightarrow> None
      | HttpResponse status body \<Rightarrow> if \<not> success status then None else decode_user_list body)"
    using assms(3) [unfolded fk, unfolded w fl] by (auto split: http_result.splits)
  from fl tr(1) show ?thesis
    by (cases rule: flakyE) (use assms(2) l z in \<open>simp_all add: w w' tr sound_server_def net_booked_def\<close>)
qed

lemma keys_flatten: "set (keys (fold flatten_user m out)) \<subseteq> set (keys out) \<union> {u \<in> set (keys m). is_numeric_user u}"
proof (induction m arbitrary: out)
  case (Cons x m)
  have "set (keys (flatten_user x out)) \<subseteq> set (keys out) \<union> {u \<in> {fst x}. is_numeric_user u}"
    using set_keys_mput [of "fst x" "padd (reported out (fst x)) (snd x)" out] by (cases x) (auto simp: flatten_user_def)
  then have "set (keys (flatten_user x out)) \<union> {u \<in> set (keys m). is_numeric_user u}
      \<subseteq> set (keys out) \<union> {u \<in> set (keys (x # m)). is_numeric_user u}" by auto
  with Cons.IH [of "flatten_user x out"] show ?case by (simp only: fold_simps)
qed simp

lemma push_keys:
  assumes "sound_account perm c i t names" and "wf_hook h" and "counts_at names t u addr h"
  shows "set (keys (push_flat c (hook_snapshot_delta h))) \<subseteq> {n \<in> names. is_numeric_user n}"
proof -
  let ?d = "hook_snapshot_delta h"
  obtain cnt where c: "mget h t = Some cnt" "set (keys (counters cnt)) \<subseteq> names"
    using assms(3) by (auto simp: counts_at_def)
  have m: "set (keys m) \<subseteq> names" if "(t, m) \<in> set ?d" for m
  proof -
    have "mget ?d t = Some m" using that wf_hook_delta [OF assms(2)] by (simp add: in_mget wf_delta_def)
    then have "m = snapshot_delta cnt" using mget_hook_delta [OF assms(2)] c(1) by (auto split: if_splits)
    then show ?thesis using c(2) by (auto simp: snapshot_delta_def)
  qed
  have F: "set (keys (fold (\<lambda>(inbound, users) out. fold flatten_user users out) d out)) \<subseteq> {n \<in> names. is_numeric_user n}"
    if "\<forall>(tag, users) \<in> set d. set (keys users) \<subseteq> names" "set (keys out) \<subseteq> {n \<in> names. is_numeric_user n}" for d out
    using that
  proof (induction d arbitrary: out)
    case (Cons x d)
    have "set (keys (fold flatten_user (snd x) out)) \<subseteq> {n \<in> names. is_numeric_user n}"
      using keys_flatten [of "snd x" out] Cons.prems by (cases x) (simp, blast)
    with Cons show ?case by (simp add: case_prod_beta)
  qed simp
  have "\<forall>(tag, users) \<in> set (matched c ?d). set (keys users) \<subseteq> names"
    using assms(1) m by (auto simp: matched_def sound_account_def)
  from F [OF this, of "[]"] show ?thesis by (simp add: push_flat_matched flatten_def)
qed

lemma matched_total:
  assumes "wf_delta d" and "\<And>t'. matches_inbound c t' \<longleftrightarrow> t' = t" and "is_numeric_user u"
  shows "numeric_total (matched c d) u = reported_at d t u"
proof -
  have "distinct (keys d) \<Longrightarrow> numeric_total (filter (\<lambda>(tag, users). tag = t) d) u = reported_at d t u"
  proof (induction d)
    case (Cons x d)
    obtain t' m where x: "x = (t', m)" by (cases x)
    have "t \<notin> set (keys d) \<Longrightarrow> filter (\<lambda>(tag, users). tag = t) d = []" by (force simp: filter_empty_conv)
    with Cons x assms(3) show ?case by (auto simp: reported_at_def)
  qed (simp add: reported_at_def)
  then show ?thesis using assms(1,2) by (simp add: matched_def wf_delta_def)
qed

text \<open>A push that has something to send is one request, which carries what it reports; it reads its verdict
  off the answer.\<close>

definition push_request :: "client \<Rightarrow> delta \<Rightarrow> http_request" where
  "push_request c d = (case the (endpoint c ''/api/v1/server/UniProxy/push'') of (url, qu) \<Rightarrow>
     \<lparr>hr_method = ''POST'', hr_url = url, hr_query = qu, hr_body = push_body (push_payload (push_flat c d))\<rparr>)"

lemma push_is_request:
  assumes "canonical (push_flat c d)" and "wf_map (push_flat c d)" and "push_flat c d \<noteq> []" and "cl_base c \<noteq> []"
  shows "client_push_traffic tr c d w = (case tr (push_request c d) w of (w', HttpError) \<Rightarrow> (w', False)
    | (w', HttpResponse status body) \<Rightarrow> (w', success status))"
proof -
  let ?flat = "push_flat c d"
  obtain url qu where e: "endpoint c ''/api/v1/server/UniProxy/push'' = Some (url, qu)" using assms(4) by (simp add: endpoint_def)
  obtain u v where "(u, v) \<in> set ?flat" using assms(3) by (cases ?flat) auto
  then have uv: "mget ?flat u = Some v" "canonical_id u" using assms(1,2) by (auto simp: canonical_def list_all_iff in_mget)
  then obtain j where "u = itoa j" "in_int64 j" by (auto elim: canonical_idE)
  then have "mget (push_payload ?flat) j = Some v" using payload_canonical [OF assms(1,2)] uv(1) by simp
  then have "push_payload ?flat \<noteq> []" by auto
  then show ?thesis using assms(3) e by (simp add: client_push_traffic_def push_request_def Let_def)
qed

lemma carried_request:
  assumes "canonical (push_flat c d)" and "wf_map (push_flat c d)" and "cl_base c \<noteq> []" and "in_int64 i"
  shows "carried i (push_request c d) = reported (push_flat c d) (itoa i)"
  using assms(3) carried_push [OF assms(1,2,4)] by (auto simp: push_request_def endpoint_def)

lemma push_flaky:
  fixes i :: int
  assumes "sound_account perm c i t names" and "sound_server k c mtime i (vs, lost, s, fs)" and "counts_at names t (itoa i) addr h"
    and "wf_hook h" and "nonneg (hook_pending h t (itoa i))"
    and "client_push_traffic (flaky (server_transport (cl_base c) flt mtime)) c (hook_snapshot_delta h) (vs, lost, s, fs) = (w', ok)"
  shows "sound_server k c mtime i w' \<and> net_booked i w' =
    (if ok then padd (net_booked i (vs, lost, s, fs)) (reported_at (hook_snapshot_delta h) t (itoa i)) else net_booked i (vs, lost, s, fs))"
proof -
  let ?d = "hook_snapshot_delta h" and ?u = "itoa i" and ?tr = "server_transport (cl_base c) flt mtime"
  let ?flat = "push_flat c ?d" and ?v = "reported_at ?d t ?u"
  note A = assms(1) [unfolded sound_account_def] and S = assms(2) [unfolded sound_server_def prod.case]
  have wd: "wf_delta ?d" by (rule wf_hook_delta [OF assms(4)])
  have tot: "numeric_total (matched c ?d) ?u = ?v" using A numeric_itoa by (intro matched_total [OF wd]) auto
  have wf: "wf_map ?flat" by (simp add: push_flat_matched wf_flatten)
  have rep: "reported ?flat ?u = ?v" using reported_flatten [OF wf_matched [OF wd]] tot by (simp add: push_flat_matched)
  show ?thesis
  proof (cases "?flat = []")
    case True
    then show ?thesis using assms(2,6) rep by (auto simp: client_push_traffic_def reported_def)
  next
    case False
    note K = push_keys [OF assms(1,4,3)]
    have can: "canonical ?flat" using K A by (auto simp: canonical_def list_all_iff)
    have sz: "length (push_body (push_payload ?flat)) \<le> max_push_body_size"
      using K A by (intro size_push [OF can wf, of names]) auto
    have st: "steady mtime s fs" and cr: "credentials c s" and cb: "cl_base c \<noteq> []" and i: "in_int64 i" "i \<in> set (keys (st_users s))"
      using A S by auto
    from client_push_effect [OF wd can False cb cr steady_refresh [OF st] sz] obtain s2 where
      push: "client_push_traffic ?tr c ?d (s, fs) = ((s2, fs), True)"
      and eff: "\<forall>i. in_int64 i \<longrightarrow> (let v = numeric_total (matched c ?d) (itoa i) in
        upload (traffic_of s2 i) = upload (traffic_of s i) + (if billable s i v then fst v else 0)
        \<and> download (traffic_of s2 i) = download (traffic_of s i) + (if billable s i v then snd v else 0))" by blast
    have "nonneg ?v" using assms(5) reported_at_hook_delta [OF assms(4)] by (simp add: nonneg_def pzero_def)
    then have "billable s i ?v" using i(2) by (simp add: billable_def nonneg_def)
    then have bk: "booked s2 i = padd (booked s i) ?v"
      using eff [rule_format, OF i(1)] by (simp add: tot Let_def booked_def padd_def)
    let ?q = "push_request c ?d"
    note req = push_is_request [OF can wf False cb]
    have car: "carried i ?q = ?v" using carried_request [OF can wf cb i(1)] rep by simp
    obtain st' body where tr: "?tr ?q (s, fs) = ((s2, fs), HttpResponse st' body)" "success st'"
      using push unfolding req by (auto split: prod.splits http_result.splits)
    have same: "same_but_books s s2" using server_steady [OF st tr(1)] by blast
    obtain nw answer where fl: "flaky ?tr ?q (vs, lost, s, fs) = (nw, answer)" by fastforce
    then have w': "w' = nw" "ok = (case answer of HttpError \<Rightarrow> False | HttpResponse status body \<Rightarrow> success status)"
      using assms(6) [unfolded req, unfolded fl] by (auto split: http_result.splits)
    note kept = server_kept [OF assms(2) same] server_kept [OF assms(2) same_refl]
    have bal: "psub (booked s2 i) (padd (carried i ?q) x) = psub (booked s i) x"
      "psub (booked s2 i) x = padd (psub (booked s i) x) ?v" for x
      by (simp_all add: bk car padd_def psub_def)
    from fl tr(1) show ?thesis
      by (cases rule: flakyE) (use bal tr(2) in \<open>simp_all add: w' net_booked_def kept\<close>)
  qed
qed

lemma mem_next_users: "i \<in> ID ` set us \<Longrightarrow> 0 < i \<Longrightarrow> i \<in> set (keys (next_users us))"
proof -
  have "i \<in> ID ` set us \<or> i \<in> set (keys m) \<Longrightarrow> 0 < i \<Longrightarrow>
      i \<in> set (keys (fold (\<lambda>u nxt. if ID u \<le> 0 then nxt else mput (ID u) u nxt) us m))" for m
  proof (induction us arbitrary: m)
    case (Cons u us)
    have "i \<in> ID ` set us \<or> i \<in> set (keys (if ID u \<le> 0 then m else mput (ID u) u m))"
      using Cons.prems by (auto simp: set_keys_mput simp del: set_map)
    from Cons.IH [OF this Cons.prems(2)] show ?case by simp
  qed simp
  then show "i \<in> ID ` set us \<Longrightarrow> 0 < i \<Longrightarrow> i \<in> set (keys (next_users us))" by (simp add: next_users_def)
qed

lemma agent_users_serves:
  assumes "agent_ok a" and "counts_at names t (itoa i) addr (ag_hook a)" and "lists_user i us" and "0 < i"
  shows "counts_at names t (itoa i) addr (ag_hook (agent_users True perm ops now us a))
    \<and> hook_pending (ag_hook (agent_users True perm ops now us a)) t (itoa i) = hook_pending (ag_hook a) t (itoa i)
    \<and> hook_counted (ag_hook (agent_users True perm ops now us a)) t (itoa i) = hook_counted (ag_hook a) t (itoa i)"
proof -
  obtain inb m ok where b: "apply_box True perm ops now (collect_inbounds (ag_inbounds a)) us (ag_users a) = (inb, m, ok)"
    by (metis prod_cases3)
  show ?thesis
  proof (cases ok)
    case True
    then have "apply_box True perm ops now (collect_inbounds (ag_inbounds a)) us (ag_users a) = (inb, m, True)" using b by simp
    from apply_box_success(2) [OF this] have "um_users m = next_users us" by simp
    then have "itoa i \<in> set (active_ids m)"
      using mem_next_users [of i us] assms(3,4) by (force simp: active_ids_def lists_user_def)
    with counts_remove_absent [OF _ assms(2) this] assms(1) b True show ?thesis
      by (simp add: agent_users_def agent_apply_def agent_ok_def)
  qed (use assms(2) b in \<open>simp add: agent_users_def agent_apply_def\<close>)
qed

lemma in_service_serves: "in_service k perm c mtime i t names addr w a \<Longrightarrow> 0 < i \<and> some_order perm"
  by (simp add: in_service_def sound_account_def)

interpretation acct: metered agent_delta agent_commit "\<lambda>a :: 'i agent. agent_ok a" "\<lambda>a. hook_tracks (ag_hook a)"
    "\<lambda>a. hook_pending (ag_hook a)" "client_panel (flaky (server_transport (cl_base c) flt mtime)) c" "net_booked i"
    "\<lambda>a. hook_counted (ag_hook a) t (itoa i)" "in_service k perm c mtime i t names addr" "lists_user i"
    "agent_users True perm ops now" t "itoa i"
  for k c flt mtime i t perm names addr and ops :: "'i box_ops" and now
proof unfold_locales
  fix p p' :: "(store \<times> fs) network" and s :: "'i agent" and ok r d us
  assume serves: "in_service k perm c mtime i t names addr p s"
  note S = serves [unfolded in_service_def]
  show "is_numeric_user (itoa i)" using in_service_serves [OF serves] numeric_itoa by blast
  show "in_service k perm c mtime i t names addr p' s \<and> net_booked i p' = net_booked i p
      \<and> (\<forall>us. r = Some us \<longrightarrow> lists_user i us)"
    if "fetch_users (client_panel (flaky (server_transport (cl_base c) flt mtime)) c) p = (p', r)"
    using fetch_flaky [of perm c i t names k mtime p flt p' r] S that by (simp add: client_panel_def in_service_def)
  assume ok: "agent_ok s"
  then have w: "wf_hook (ag_hook s)" by (simp add: agent_ok_def)
  show "in_service k perm c mtime i t names addr p' s \<and> net_booked i p' =
      (if ok then padd (net_booked i p) (reported_at (agent_delta s) t (itoa i)) else net_booked i p)"
    if "nonneg (hook_pending (ag_hook s) t (itoa i))"
      "push_traffic (client_panel (flaky (server_transport (cl_base c) flt mtime)) c) (agent_delta s) p = (p', ok)"
    using push_flaky [of perm c i t names k mtime _ _ _ _ addr "ag_hook s" flt p' ok] S w that
    by (cases p) (auto simp: client_panel_def in_service_def agent_delta_def)
  show "in_service k perm c mtime i t names addr p (agent_commit s d)
      \<and> hook_counted (ag_hook (agent_commit s d)) t (itoa i) = hook_counted (ag_hook s) t (itoa i)"
    using counts_commit [OF w, of names t "itoa i" addr d] S by (simp add: in_service_def agent_commit_def)
  show "agent_ok (agent_users True perm ops now us s) \<and> in_service k perm c mtime i t names addr p (agent_users True perm ops now us s)
      \<and> hook_pending (ag_hook (agent_users True perm ops now us s)) t (itoa i) = hook_pending (ag_hook s) t (itoa i)
      \<and> hook_counted (ag_hook (agent_users True perm ops now us s)) t (itoa i) = hook_counted (ag_hook s) t (itoa i)"
    if "lists_user i us"
    using agent_users_serves [OF ok _ that] S agent_users_ok [OF ok] in_service_serves [OF serves] by (auto simp: in_service_def)
qed

section \<open>The whole run\<close>

text \<open>A life of the agent: what its connections do between the rounds and while a push is under way, and
  at last the signal to stop.\<close>

type_synonym life = "(hook_event list \<times> hook_event list) list"

definition wakes :: "life \<Rightarrow> hook_event list \<times> hook_event list \<Rightarrow> 'i agent wake list" where
  "wakes rounds final = map (\<lambda>(x, y). Tick (on_hook (hook_run x)) (on_hook (hook_run y))) rounds
     @ [CtxDone (on_hook (hook_run (fst final))) (on_hook (hook_run (snd final)))]"

definition life_room :: "string \<Rightarrow> nat \<Rightarrow> life \<Rightarrow> nat \<times> nat" where
  "life_room t addr rounds = room (map (\<lambda>(x, y). (traffic_at addr (tag_events t x), traffic_at addr (tag_events t y))) rounds)"

abbreviation balance_of :: "store \<Rightarrow> 'i agent \<Rightarrow> string \<Rightarrow> int \<Rightarrow> pair64" where
  "balance_of s a t i \<equiv> padd (booked s i) (hook_pending (ag_hook a) t (itoa i))"

lemma run_loop_stops: "snd (run_loop sy (wakes rounds final) st)"
proof (induction rounds arbitrary: st)
  case (Cons r rounds)
  obtain x y where "r = (x, y)" by (cases r)
  then show ?case using Cons [of "sync_once sy (on_hook (hook_run y)) (fst st, on_hook (hook_run x) (snd st))"]
    by (simp add: wakes_def)
qed (simp add: wakes_def)

lemma hook_run_adds:
  fixes a :: "'i agent"
  assumes "known_names names t evs"
  shows "acct.adds t i k perm c mtime names addr (traffic_at addr (tag_events t evs)) (on_hook (hook_run evs) :: 'i agent \<Rightarrow> 'i agent)"
proof -
  have "ags.carries (on_hook (hook_run evs) :: 'i agent \<Rightarrow> 'i agent)"
    using hook_run_carries [of evs] unfolding ags.carries_def hs.carries_def by (auto simp: agent_ok_def)
  moreover have "\<forall>p (s :: 'i agent). agent_ok s \<and> in_service k perm c mtime i t names addr p s \<longrightarrow>
      in_service k perm c mtime i t names addr p (on_hook (hook_run evs) s)
      \<and> hook_pending (ag_hook (on_hook (hook_run evs) s)) t (itoa i)
        = padd (hook_pending (ag_hook s) t (itoa i)) (traffic_at addr (tag_events t evs))
      \<and> hook_counted (ag_hook (on_hook (hook_run evs) s)) t (itoa i)
        = padd (hook_counted (ag_hook s) t (itoa i)) (traffic_at addr (tag_events t evs))"
    using counts_run [OF _ _ assms] by (simp add: in_service_def agent_ok_def)
  ultimately show ?thesis unfolding acct.adds_def by blast
qed

lemma wakes_add:
  "list_all (\<lambda>(x, y). known_names names t x \<and> known_names names t y) (rounds @ [final]) \<Longrightarrow>
    list_all2 (\<lambda>w (m, n). acct.adds t i k perm c mtime names addr m (idle w) \<and> acct.adds t i k perm c mtime names addr n (inflight w))
      (wakes rounds final :: 'i agent wake list)
      (map (\<lambda>(x, y). (traffic_at addr (tag_events t x), traffic_at addr (tag_events t y))) (rounds @ [final]))"
proof (induction rounds)
  case Nil
  then show ?case by (cases final) (auto simp: wakes_def intro!: hook_run_adds)
next
  case (Cons r rounds)
  then show ?case by (cases r) (auto simp: wakes_def intro!: hook_run_adds)
qed

text \<open>C2. Agent and server over a network that loses requests and answers, for the whole life of the
  synchroniser: any number of rounds, each of which fetches and applies the users and pushes, and the
  last push when the agent is stopped. For a user who stays enabled, what the server has booked plus
  what the agent has pending grows by exactly what the agent has counted plus what the requests with a
  lost answer carried (modulo \<open>2 ^ 64\<close>), and there are no more of those than lost answers. No byte is
  ever lost, and without a lost answer none is billed twice.\<close>

theorem delivery:
  fixes a :: "'i agent"
  assumes "agent_ok a" and "sound_account perm c i t names" and "counts_at names t (itoa i) addr (ag_hook a)"
    and "credentials c s" and "steady mtime s fs" and "list_all good_xuser (enabled_users s)"
    and "i \<in> xu_id ` set (enabled_users s)" and "i \<in> set (keys (st_users s))"
    and "list_all (\<lambda>(x, y). known_names names t x \<and> known_names names t y) (([], first) # rounds @ [final])"
    and "fits_with (life_room t addr (([], first) # rounds @ [final])) (hook_pending (ag_hook a) t (itoa i))"
    and "run (agent_syncer True perm ops now (Some (client_panel (flaky (server_transport (cl_base c) flt mtime)) c)) interval)
        (on_hook (hook_run first)) (wakes rounds final) ((vs, [], s, fs), a) = (((vs', lost, s', fs'), a'), stopped)"
  shows "stopped \<and> length lost \<le> count_list vs AnswerLost
    \<and> psub (balance_of s' a' t i) (balance_of s a t i)
      = padd (psub (hook_counted (ag_hook a') t (itoa i)) (hook_counted (ag_hook a) t (itoa i))) (carried_by i lost)"
proof -
  let ?pan = "client_panel (flaky (server_transport (cl_base c) flt mtime)) c"
  let ?sy = "agent_syncer True perm ops now (Some ?pan) interval" and ?u = "itoa i"
  let ?ns = "map (\<lambda>(x, y). (traffic_at addr (tag_events t x), traffic_at addr (tag_events t y))) (rounds @ [final])"
  let ?k = "count_list vs AnswerLost" and ?w = "(vs, [], s, fs)"
  have h: "acct.hooked c flt mtime perm ops now ?sy"
    by (simp add: acct.hooked_def ags.plugged_def agent_syncer_def)
  have s0: "in_service ?k perm c mtime i t names addr ?w a"
    using assms(2-8) by (simp add: in_service_def sound_server_def)
  have first: "known_names names t first" and all: "list_all (\<lambda>(x, y). known_names names t x \<and> known_names names t y) (rounds @ [final])"
    using assms(9) by simp_all
  have room: "fits_with (nadd (room ?ns) (traffic_at addr (tag_events t first))) (hook_pending (ag_hook a) t ?u)"
    using assms(10) by (simp add: life_room_def nadd_def tag_events_def pzero_def)
  have B: "in_service ?k perm c mtime i t names addr (vs', lost, s', fs') a' \<and>
      padd (padd (net_booked i (vs', lost, s', fs')) (hook_pending (ag_hook a') t ?u)) (hook_counted (ag_hook a) t ?u)
      = padd (padd (net_booked i ?w) (hook_pending (ag_hook a) t ?u)) (hook_counted (ag_hook a') t ?u)"
    by (rule acct.run_balance [OF h hook_run_adds [OF first] wakes_add [OF all] assms(1) s0 room assms(11)])
  let ?loop = "run_loop (?sy\<lparr>every := effective_every (every ?sy)\<rparr>) (wakes rounds final)
      (sync_once (?sy\<lparr>every := effective_every (every ?sy)\<rparr>) (on_hook (hook_run first)) (?w, a))"
  have "stopped = snd ?loop" using assms(11) by (simp add: run_def Let_def)
  then have stop: "stopped" by (simp only: run_loop_stops)
  have "length lost \<le> ?k" using B by (simp add: in_service_def sound_server_def)
  moreover have "psub (balance_of s' a' t i) (balance_of s a t i)
      = padd (psub (hook_counted (ag_hook a') t ?u) (hook_counted (ag_hook a) t ?u)) (carried_by i lost)"
    using B by (auto simp: net_booked_def padd_def psub_def pzero_def algebra_simps)
  ultimately show ?thesis using stop by blast
qed

lemma demo_account: "sound_account id demo_client 1 ''hy2-in'' {''1''}"
proof -
  have i: "itoa 1 = ''1''" by code_simp
  then show ?thesis
    by (auto simp: sound_account_def demo_client_simps matches_inbound_def hy2_lower some_order_id canonical_id_def atoi_eval
        in_int64_def min_int64_def max_int64_def)
qed

lemma billing_counts: "counts_at {''1''} ''hy2-in'' ''1'' 0 (ag_hook billing_agent)"
  by (simp add: counts_at_def billing_agent_def hy2_counter_def)

theorem delivery_witness:
  "\<exists>vs' s' fs' a'. run (agent_syncer True id list_ops 0
       (Some (client_panel (flaky (server_transport ''http://p'' no_faults 0)) demo_client)) 60)
      (on_hook (hook_run [HRecv ''hy2-in'' 0 5])) (wakes [([], [HSent ''hy2-in'' 0 2])] ([], []))
      (([Delivered, RequestLost, RequestLost], [], staffed_node, \<lambda>_. None), billing_agent)
      = (((vs', [], s', fs'), a'), True)
    \<and> psub (balance_of s' a' ''hy2-in'' 1) (3, 4) = psub (hook_counted (ag_hook a') ''hy2-in'' ''1'') (7, 4)"
proof -
  let ?sy = "agent_syncer True id list_ops 0 (Some (client_panel (flaky (server_transport (cl_base demo_client) no_faults 0)) demo_client)) 60"
  let ?run = "run ?sy (on_hook (hook_run [HRecv ''hy2-in'' 0 5])) (wakes [([], [HSent ''hy2-in'' 0 2])] ([], []))
      (([Delivered, RequestLost, RequestLost], [], staffed_node, \<lambda>_. None), billing_agent)"
  obtain x stopped where x: "?run = (x, stopped)" by (rule prod.exhaust)
  obtain p a' where p: "x = (p, a')" by (rule prod.exhaust)
  obtain vs' lost s' fs' where "p = (vs', lost, s', fs')" by (rule prod_cases4)
  with x p have r: "?run = (((vs', lost, s', fs'), a'), stopped)" by (simp only:)
  have i: "itoa 1 = ''1''" by code_simp
  have c: "counts_at {''1''} ''hy2-in'' (itoa 1) 0 (ag_hook billing_agent)" using billing_counts by (simp add: i)
  have st: "steady 0 staffed_node (\<lambda>_. None)" by (simp add: steady_def)
  have u: "1 \<in> xu_id ` set (enabled_users staffed_node)" "1 \<in> set (keys (st_users staffed_node))"
    unfolding staffed_users by (simp_all add: alice_def staffed_node_def)
  have k: "list_all (\<lambda>(x, y). known_names {''1''} ''hy2-in'' x \<and> known_names {''1''} ''hy2-in'' y)
      (([], [HRecv ''hy2-in'' 0 5]) # [([], [HSent ''hy2-in'' 0 2])] @ [([], [])])"
    by (simp add: known_names_def)
  have b0: "hook_pending (ag_hook billing_agent) ''hy2-in'' ''1'' = (3, 4)" "hook_counted (ag_hook billing_agent) ''hy2-in'' ''1'' = (7, 4)"
    "booked staffed_node 1 = pzero"
    by (simp_all add: hook_pending_def pending_def hook_counted_def storage_total_def billing_agent_def hy2_counter_def storage_delta_def
        booked_def traffic_of_def staffed_node_def single_node_def hy2_store_def empty_store_def zero_traffic_def pzero_def)
  have room: "fits_with (life_room ''hy2-in'' 0 (([], [HRecv ''hy2-in'' 0 5]) # [([], [HSent ''hy2-in'' 0 2])] @ [([], [])]))
      (hook_pending (ag_hook billing_agent) ''hy2-in'' (itoa 1))"
    by (simp add: i b0 fits_with_def life_room_def nadd_def tag_events_def pzero_def padd_def)
  from delivery [OF billing_agent_ok demo_account c staffed_credentials st staffed_good u k room r]
  have "stopped" "lost = []" "psub (balance_of s' a' ''hy2-in'' 1) (3, 4) = psub (hook_counted (ag_hook a') ''hy2-in'' ''1'') (7, 4)"
    by (simp_all add: i b0)
  with r show ?thesis by (auto simp: demo_client_simps)
qed

end
