(* ===== verification/RateConn.thy ===== *)
theory RateConn
  imports RateLimit Traffic
begin

text \<open>
  The connections that wait for a limiter: \<^verbatim>\<open>RateLimitedConn\<close> and
  \<^verbatim>\<open>RateLimitedPacketConn\<close> of \<^verbatim>\<open>counter/ratelimit.go\<close>, and the stack of wrappers that
  \<^verbatim>\<open>Hook.RoutedConnection\<close> puts around a connection. The connection below is a state with
  arbitrary functions for its reads and writes; a nil limiter is \<open>None\<close>.
\<close>

section \<open>Connections\<close>

datatype io_error = Below nat | ShortWrite | LimiterError

definition lim_io :: "lim_error option \<Rightarrow> io_error option" where
  "lim_io = map_option (\<lambda>e. LimiterError)"

text \<open>A write takes bytes and gives the number written; a read takes the length of the buffer.\<close>

type_synonym 'c conn_writer = "string \<Rightarrow> 'c \<Rightarrow> 'c \<times> nat \<times> io_error option"
type_synonym 'c conn_reader = "nat \<Rightarrow> 'c \<Rightarrow> 'c \<times> string \<times> io_error option"
type_synonym 'c limited = "'c \<times> lworld option"

definition chunk_size :: nat where "chunk_size = 64 * 1024"

definition limited_read :: "bool \<Rightarrow> 'c conn_reader \<Rightarrow> 'c limited conn_reader" where
  "limited_read fused rd len = (\<lambda>(c, p).
     let len = (if p \<noteq> None \<and> chunk_size < len then chunk_size else len) in
     (case rd len c of (c, data, err) \<Rightarrow>
       if 0 < length data \<and> p \<noteq> None then
         (case wait fused (int (length data)) p of (p, werr) \<Rightarrow>
           ((c, p), data, if werr \<noteq> None \<and> err = None then lim_io werr else err))
       else ((c, p), data, err)))"

function write_loop :: "bool \<Rightarrow> 'c conn_writer \<Rightarrow> string \<Rightarrow> nat \<Rightarrow> 'c \<Rightarrow> lworld option \<Rightarrow>
    'c limited \<times> nat \<times> io_error option" where
  "write_loop fused wr b pos c p = (if length b \<le> pos then ((c, p), pos, None)
     else let chunk = take (min (pos + chunk_size) (length b) - pos) (drop pos b) in
       (case wait fused (int (length chunk)) p of
         (p, Some e) \<Rightarrow> ((c, p), pos, lim_io (Some e))
       | (p, None) \<Rightarrow> (case wr chunk c of (c, n, err) \<Rightarrow>
           if err \<noteq> None then ((c, p), pos + n, err)
           else if n \<noteq> length chunk then ((c, p), pos + n, Some ShortWrite)
           else write_loop fused wr b (pos + n) c p)))"
  by pat_completeness auto
termination
  by (relation "measure (\<lambda>(fused, wr, b, pos, c, p). length b - pos)") (auto simp: chunk_size_def)

declare write_loop.simps [simp del]

definition limited_write :: "bool \<Rightarrow> 'c conn_writer \<Rightarrow> 'c limited conn_writer" where
  "limited_write fused wr b = (\<lambda>(c, p).
     if b = [] \<or> p = None then (case wr b c of (c, r) \<Rightarrow> ((c, p), r))
     else write_loop fused wr b 0 c p)"

text \<open>Buffers: a read fills the buffer with its data or fails; a buffer write gives only an error.\<close>

definition limited_read_buffer :: "bool \<Rightarrow> ('c \<Rightarrow> 'c \<times> string \<times> io_error option) \<Rightarrow>
    'c limited \<Rightarrow> 'c limited \<times> string \<times> io_error option" where
  "limited_read_buffer fused rdb = (\<lambda>(c, p). case rdb c of (c, buffer, err) \<Rightarrow>
     if err = None \<and> 0 < length buffer \<and> p \<noteq> None then
       (case wait fused (int (length buffer)) p of (p, werr) \<Rightarrow> ((c, p), buffer, lim_io werr))
     else ((c, p), buffer, err))"

function write_buffer_loop :: "bool \<Rightarrow> 'c conn_writer \<Rightarrow> (string \<Rightarrow> 'c \<Rightarrow> 'c \<times> io_error option) \<Rightarrow> string \<Rightarrow>
    'c \<Rightarrow> lworld option \<Rightarrow> 'c limited \<times> io_error option" where
  "write_buffer_loop fused wr wrb buffer c p = (if chunk_size < length buffer then
       (case wait fused (int chunk_size) p of
         (p, Some e) \<Rightarrow> ((c, p), lim_io (Some e))
       | (p, None) \<Rightarrow> (case wr (take chunk_size buffer) c of (c, n, err) \<Rightarrow>
           if err \<noteq> None then ((c, p), err)
           else write_buffer_loop fused wr wrb (drop chunk_size buffer) c p))
     else if 0 < length buffer then
       (case wait fused (int (length buffer)) p of
         (p, Some e) \<Rightarrow> ((c, p), lim_io (Some e))
       | (p, None) \<Rightarrow> (case wrb buffer c of (c, err) \<Rightarrow> ((c, p), err)))
     else ((c, p), None))"
  by pat_completeness auto
termination
  by (relation "measure (\<lambda>(fused, wr, wrb, buffer, c, p). length buffer)") (auto simp: chunk_size_def)

declare write_buffer_loop.simps [simp del]

definition limited_write_buffer :: "bool \<Rightarrow> 'c conn_writer \<Rightarrow> (string \<Rightarrow> 'c \<Rightarrow> 'c \<times> io_error option) \<Rightarrow> string \<Rightarrow>
    'c limited \<Rightarrow> 'c limited \<times> io_error option" where
  "limited_write_buffer fused wr wrb buffer = (\<lambda>(c, p).
     if length buffer = 0 \<or> p = None then (case wrb buffer c of (c, err) \<Rightarrow> ((c, p), err))
     else write_buffer_loop fused wr wrb buffer c p)"

text \<open>Packets never wait: what the bucket does not allow is dropped.\<close>

definition limited_read_packet :: "bool \<Rightarrow> ('c \<Rightarrow> 'c \<times> string \<times> 'dest \<times> io_error option) \<Rightarrow>
    'c limited \<Rightarrow> 'c limited \<times> string \<times> 'dest \<times> io_error option" where
  "limited_read_packet fused rp = (\<lambda>(c, p). case rp c of (c, buffer, dest, err) \<Rightarrow>
     if err = None \<and> 0 < length buffer \<and> p \<noteq> None then
       (case allow_world fused (int (length buffer)) p of
         (p, Inl e) \<Rightarrow> ((c, p), buffer, dest, Some LimiterError)
       | (p, Inr allowed) \<Rightarrow> ((c, p), if allowed then buffer else [], dest, err))
     else ((c, p), buffer, dest, err))"

definition limited_write_packet :: "bool \<Rightarrow> (string \<Rightarrow> 'dest \<Rightarrow> 'c \<Rightarrow> 'c \<times> io_error option) \<Rightarrow> string \<Rightarrow> 'dest \<Rightarrow>
    'c limited \<Rightarrow> 'c limited \<times> io_error option" where
  "limited_write_packet fused wp buffer dest = (\<lambda>(c, p).
     if 0 < length buffer \<and> p \<noteq> None then
       (case allow_world fused (int (length buffer)) p of
         (p, Inl e) \<Rightarrow> ((c, p), Some LimiterError)
       | (p, Inr False) \<Rightarrow> ((c, p), None)
       | (p, Inr True) \<Rightarrow> (case wp buffer dest c of (c, err) \<Rightarrow> ((c, p), err)))
     else (case wp buffer dest c of (c, err) \<Rightarrow> ((c, p), err)))"

section \<open>The contract of a writer\<close>

text \<open>\<open>out\<close> is what has left through the connection: a write of a block that \<open>P\<close> admits appends the
  part it reports, and reports an error when that is not all.\<close>

definition is_writer :: "(string \<Rightarrow> bool) \<Rightarrow> 'c conn_writer \<Rightarrow> ('c \<Rightarrow> string) \<Rightarrow> bool" where
  "is_writer P wr out \<longleftrightarrow> (\<forall>b c c' n err. P b \<longrightarrow> wr b c = (c', n, err) \<longrightarrow>
     n \<le> length b \<and> out c' = out c @ take n b \<and> (err = None \<longrightarrow> n = length b))"

abbreviation small :: "string \<Rightarrow> bool" where
  "small b \<equiv> length b \<le> chunk_size"

abbreviation any :: "string \<Rightarrow> bool" where
  "any b \<equiv> True"

lemma is_writerD:
  assumes "is_writer P wr out" and "wr b c = (c', n, err)" and "P b"
  shows "n \<le> length b" and "out c' = out c @ take n b" and "err = None \<Longrightarrow> n = length b"
  using assms by (auto simp: is_writer_def)

lemma is_writer_small: "is_writer any wr out \<Longrightarrow> is_writer small wr out"
  by (simp add: is_writer_def)

definition chunk_at :: "string \<Rightarrow> nat \<Rightarrow> string" where
  "chunk_at b pos = take (min (pos + chunk_size) (length b) - pos) (drop pos b)"

lemma take_of_take: "n \<le> length (take m xs) \<Longrightarrow> take n (take m xs) = take n xs"
  by (simp add: min.absorb1)

lemma take_drop_join:
  assumes "pos + k \<le> n"
  shows "take k (drop pos b) @ take (n - (pos + k)) (drop (pos + k) b) = take (n - pos) (drop pos b)"
proof -
  have "n - pos = k + (n - (pos + k))" using assms by simp
  then show ?thesis by (simp only: take_add drop_drop add.commute)
qed

lemma chunk_at_simps:
  "pos < length b \<Longrightarrow> length (chunk_at b pos) = min chunk_size (length b - pos)"
  "small (chunk_at b pos)"
  "n \<le> length (chunk_at b pos) \<Longrightarrow> take n (chunk_at b pos) = take n (drop pos b)"
  unfolding chunk_at_def by (auto simp: min_def take_of_take simp del: take_take)

lemma write_loop_writer:
  assumes wr: "is_writer small wr out"
  shows "write_loop fused wr b pos c p = ((c', p'), n, err) \<Longrightarrow> pos \<le> length b \<Longrightarrow>
    pos \<le> n \<and> n \<le> length b \<and> out c' = out c @ take (n - pos) (drop pos b) \<and> (err = None \<longrightarrow> n = length b)"
  using wr
proof (induction fused wr b pos c p rule: write_loop.induct)
  case (1 fused wr b pos c p)
  note eq = "1.prems"(1) [unfolded write_loop.simps [of fused wr b pos c p], folded chunk_at_def]
  let ?chunk = "chunk_at b pos"
  show ?case
  proof (cases "length b \<le> pos")
    case True
    then show ?thesis using eq "1.prems"(2) by simp
  next
    case False
    obtain p1 we where w: "wait fused (int (length ?chunk)) p = (p1, we)" by fastforce
    obtain c1 k e where r: "wr ?chunk c = (c1, k, e)" by (metis prod.exhaust)
    note D = is_writerD [OF "1.prems"(3) r chunk_at_simps(2)]
    have len: "length ?chunk = min chunk_size (length b - pos)" using False chunk_at_simps(1) by simp
    then have len': "pos + length ?chunk \<le> length b" using False by simp
    have out1: "out c1 = out c @ take k (drop pos b)" using D(1,2) chunk_at_simps(3) by simp
    show ?thesis
    proof (cases we)
      case (Some x)
      then show ?thesis using eq False w by (auto simp: Let_def lim_io_def)
    next
      case None
      note eq = eq [unfolded if_not_P [OF False] Let_def w None prod.case option.case r]
      show ?thesis
      proof (cases "e = None \<and> k = length ?chunk")
        case True
        then have "write_loop fused wr b (pos + k) c1 p1 = ((c', p'), n, err)" using eq by simp
        moreover have "pos + k \<le> length b" using True len' by simp
        ultimately have "pos + k \<le> n \<and> n \<le> length b \<and> out c' = out c1 @ take (n - (pos + k)) (drop (pos + k) b)
            \<and> (err = None \<longrightarrow> n = length b)"
          using "1.IH" [OF False, folded chunk_at_def, OF refl w [symmetric] None r [symmetric] refl] True "1.prems"(3)
          by simp
        then show ?thesis using out1 take_drop_join [of pos k n b] by auto
      next
        case False
        then have "n = pos + k" "c' = c1" "err \<noteq> None" using eq by (auto split: if_splits)
        then show ?thesis using out1 D(1) len' by auto
      qed
    qed
  qed
qed

lemma limited_write_writer:
  assumes "is_writer any wr out"
  shows "is_writer any (limited_write fused wr) (\<lambda>(c, p). out c)"
  unfolding is_writer_def
proof (intro allI impI)
  fix b and st st' :: "'a limited" and n err
  assume w: "limited_write fused wr b st = (st', n, err)"
  obtain c p c' p' where st: "st = (c, p)" "st' = (c', p')" by fastforce
  show "n \<le> length b \<and> (case st' of (c, p) \<Rightarrow> out c) = (case st of (c, p) \<Rightarrow> out c) @ take n b
      \<and> (err = None \<longrightarrow> n = length b)"
  proof (cases "b = [] \<or> p = None")
    case True
    then have "wr b c = (c', n, err)" using w by (auto simp: st limited_write_def split: prod.splits)
    from is_writerD [OF assms this] show ?thesis by (auto simp: st)
  next
    case False
    then have "write_loop fused wr b 0 c p = ((c', p'), n, err)" using w by (auto simp: st limited_write_def)
    from write_loop_writer [OF is_writer_small [OF assms] this] show ?thesis by (simp add: st)
  qed
qed

text \<open>With a limiter, the connection below sees blocks of at most 64 KiB only.\<close>

lemma limited_write_small:
  assumes "is_writer small wr out"
  shows "is_writer (\<lambda>b. b \<noteq> []) (\<lambda>b c. case limited_write fused wr b (c, Some w) of ((c', p), r) \<Rightarrow> (c', r)) out"
  unfolding is_writer_def
proof (intro allI impI)
  fix b c c' n err
  assume b: "b \<noteq> []" and w: "(case limited_write fused wr b (c, Some w) of ((c', p), r) \<Rightarrow> (c', r)) = (c', n, err)"
  then obtain p' where "write_loop fused wr b 0 c (Some w) = ((c', p'), n, err)"
    by (auto simp: limited_write_def split: prod.splits)
  from write_loop_writer [OF assms this]
  show "n \<le> length b \<and> out c' = out c @ take n b \<and> (err = None \<longrightarrow> n = length b)" by simp
qed

section \<open>Invariants of the connection below\<close>

definition keeps :: "'c conn_writer \<Rightarrow> ('c \<Rightarrow> bool) \<Rightarrow> bool" where
  "keeps wr J \<longleftrightarrow> (\<forall>b c. J c \<longrightarrow> J (fst (wr b c)))"

lemma write_loop_keeps:
  "keeps wr J \<Longrightarrow> J c \<Longrightarrow> J (fst (fst (write_loop fused wr b pos c p)))"
proof (induction fused wr b pos c p rule: write_loop.induct)
  case (1 fused wr b pos c p)
  obtain p1 we where w: "wait fused (int (length (chunk_at b pos))) p = (p1, we)" by fastforce
  obtain c1 k e where r: "wr (chunk_at b pos) c = (c1, k, e)" by (metis prod.exhaust)
  have J: "J c1" using "1.prems" r by (metis fst_conv keeps_def)
  have "J (fst (fst (write_loop fused wr b (pos + k) c1 p1)))"
    if "\<not> length b \<le> pos" "we = None" "e = None" "k = length (chunk_at b pos)"
    using "1.IH" [OF that(1), folded chunk_at_def, OF refl w [symmetric] that(2) r [symmetric] refl] that "1.prems"(1) J by simp
  then show ?case using "1.prems"(2) J w r
    by (subst write_loop.simps, fold chunk_at_def) (auto simp: Let_def split: option.split)
qed

lemma limited_write_keeps: "keeps wr J \<Longrightarrow> keeps (limited_write fused wr) (\<lambda>(c, p). J c)"
  using write_loop_keeps [of wr J] by (auto simp: keeps_def limited_write_def split: prod.splits) (metis fst_conv)+

end
