(* ===== verification/Routed.thy ===== *)
theory Routed
  imports RateConn Hook
begin

text \<open>
  The stack of wrappers that \<^verbatim>\<open>Hook.RoutedConnection\<close> and
  \<^verbatim>\<open>RoutedPacketConnection\<close> (\<^verbatim>\<open>cmd/mini-sb-agent/main.go\<close>) put around a
  connection: the counter inside, then the node's limiter, then the user's. The state of the
  connection below carries the traffic counter it is billed to; each direction has its own
  limiters, so a read and a write path are separate states.
\<close>

section \<open>The counting connection as a layer\<close>

definition counted_write :: "nat \<Rightarrow> 'c conn_writer \<Rightarrow> ('c \<times> tcounter) conn_writer" where
  "counted_write a wr b = (\<lambda>(c, tc). case wr b c of (c, n, err) \<Rightarrow> ((c, conn_write a (int n) tc), n, err))"

definition counted_read :: "nat \<Rightarrow> 'c conn_reader \<Rightarrow> ('c \<times> tcounter) conn_reader" where
  "counted_read a rd len = (\<lambda>(c, tc). case rd len c of (c, data, err) \<Rightarrow>
     ((c, conn_read a (int (length data)) tc), data, err))"

definition counted_read_packet :: "nat \<Rightarrow> ('c \<Rightarrow> 'c \<times> string \<times> 'dest \<times> io_error option) \<Rightarrow>
    'c \<times> tcounter \<Rightarrow> ('c \<times> tcounter) \<times> string \<times> 'dest \<times> io_error option" where
  "counted_read_packet a rp = (\<lambda>(c, tc). case rp c of (c, buffer, dest, err) \<Rightarrow>
     ((c, read_packet a (err \<noteq> None) (int (length buffer)) tc), buffer, dest, err))"

definition counted_write_packet :: "nat \<Rightarrow> (string \<Rightarrow> 'dest \<Rightarrow> 'c \<Rightarrow> 'c \<times> io_error option) \<Rightarrow> string \<Rightarrow> 'dest \<Rightarrow>
    'c \<times> tcounter \<Rightarrow> ('c \<times> tcounter) \<times> io_error option" where
  "counted_write_packet a wp buffer dest = (\<lambda>(c, tc). case wp buffer dest c of (c, err) \<Rightarrow>
     ((c, write_packet a (err \<noteq> None) (int (length buffer)) tc), err))"

section \<open>RoutedConnection and RoutedPacketConnection\<close>

definition routed_write :: "bool \<Rightarrow> nat \<Rightarrow> 'c conn_writer \<Rightarrow> ('c \<times> tcounter) limited limited conn_writer" where
  "routed_write fused a wr = limited_write fused (limited_write fused (counted_write a wr))"

definition routed_read :: "bool \<Rightarrow> nat \<Rightarrow> 'c conn_reader \<Rightarrow> ('c \<times> tcounter) limited limited conn_reader" where
  "routed_read fused a rd = limited_read fused (limited_read fused (counted_read a rd))"

definition routed_read_packet :: "bool \<Rightarrow> nat \<Rightarrow> ('c \<Rightarrow> 'c \<times> string \<times> 'dest \<times> io_error option) \<Rightarrow>
    ('c \<times> tcounter) limited limited \<Rightarrow> ('c \<times> tcounter) limited limited \<times> string \<times> 'dest \<times> io_error option" where
  "routed_read_packet fused a rp = limited_read_packet fused (limited_read_packet fused (counted_read_packet a rp))"

definition routed_write_packet :: "bool \<Rightarrow> nat \<Rightarrow> (string \<Rightarrow> 'dest \<Rightarrow> 'c \<Rightarrow> 'c \<times> io_error option) \<Rightarrow> string \<Rightarrow> 'dest \<Rightarrow>
    ('c \<times> tcounter) limited limited \<Rightarrow> ('c \<times> tcounter) limited limited \<times> io_error option" where
  "routed_write_packet fused a wp = limited_write_packet fused (limited_write_packet fused (counted_write_packet a wp))"

section \<open>Writing\<close>

lemma add_down_add: "a < length (heap tc) \<Longrightarrow> add_down a y (add_down a x tc) = add_down a (x + y) tc"
  by (simp add: add_down_def add.assoc)

lemma add_down_0: "a < length (heap tc) \<Longrightarrow> add_down a 0 tc = tc"
  by (simp add: add_down_def)

lemma conn_write_nat: "a < length (heap tc) \<Longrightarrow> conn_write a (int n) tc = add_down a (of_nat n) tc"
  by (simp add: conn_write_def add_down_0)

lemma counted_write_writer: "is_writer P wr out \<Longrightarrow> is_writer P (counted_write a wr) (\<lambda>(c, tc). out c)"
  by (auto simp: is_writer_def counted_write_def split: prod.splits)

text \<open>The counter holds exactly what has left since the state \<open>(c0, tc0)\<close>.\<close>

definition billed :: "('c \<Rightarrow> string) \<Rightarrow> nat \<Rightarrow> 'c \<Rightarrow> tcounter \<Rightarrow> 'c \<times> tcounter \<Rightarrow> bool" where
  "billed out a c0 tc0 = (\<lambda>(c, tc). length (out c0) \<le> length (out c) \<and>
     tc = add_down a (of_nat (length (out c) - length (out c0))) tc0)"

lemma counted_write_billed:
  assumes "is_writer any wr out" and "a < length (heap tc0)"
  shows "keeps (counted_write a wr) (billed out a c0 tc0)"
  unfolding keeps_def
proof (intro allI impI)
  fix b st assume J: "billed out a c0 tc0 st"
  obtain c tc where st: "st = (c, tc)" by (cases st)
  obtain c1 n err where w: "wr b c = (c1, n, err)" by (metis prod.exhaust)
  note D = is_writerD [OF assms(1) w]
  have h: "a < length (heap tc)" using J assms(2) by (simp add: st billed_def add_down_def)
  have "length (out c1) - length (out c0) = (length (out c) - length (out c0)) + n"
    using D(1,2) J by (simp add: st billed_def)
  then show "billed out a c0 tc0 (fst (counted_write a wr b st))"
    using D(1,2) J assms(2) h
    by (simp add: st billed_def counted_write_def w conn_write_nat add_down_add algebra_simps)
qed

lemma routed_write_writer: "is_writer any wr out \<Longrightarrow> is_writer any (routed_write fused a wr) (\<lambda>(((c, tc), node), user). out c)"
proof -
  assume "is_writer any wr out"
  from limited_write_writer [OF limited_write_writer [OF counted_write_writer [OF this]], of fused fused a]
  show ?thesis by (simp add: routed_write_def case_prod_unfold)
qed

lemma routed_write_keeps:
  "is_writer any wr out \<Longrightarrow> a < length (heap tc0) \<Longrightarrow>
    keeps (routed_write fused a wr) (\<lambda>((st, node), user). billed out a c0 tc0 st)"
  using limited_write_keeps [OF limited_write_keeps [OF counted_write_billed [of wr out a tc0 c0]], of fused fused]
  by (simp add: routed_write_def case_prod_unfold)

text \<open>C15. Whatever the two limiters and the other goroutines do, even when a limiter is closed in
  the middle of a write: a write through the wrappers sends a prefix of its data in order, reports its
  length, reports success only for all of it, and bills exactly the bytes sent.\<close>

theorem routed_write_bills:
  assumes "is_writer any wr out" and "a < length (heap tc)"
    and "routed_write fused a wr b (((c, tc), node), user) = ((((c', tc'), node'), user'), n, err)"
  shows "n \<le> length b \<and> out c' = out c @ take n b \<and> (err = None \<longrightarrow> n = length b)
    \<and> tc' = add_down a (of_nat n) tc"
proof -
  note D = is_writerD [OF routed_write_writer [OF assms(1)] assms(3)]
  have "billed out a c tc (c, tc)" using assms(2) by (simp add: billed_def add_down_0)
  then have "billed out a c tc (c', tc')"
    using routed_write_keeps [OF assms(1,2), of fused c] assms(3) unfolding keeps_def
    by (metis (no_types, lifting) case_prod_conv fst_conv)
  then show ?thesis using D by (auto simp: billed_def)
qed

definition demo_counter :: tcounter where
  "demo_counter = snd (get_counter new_traffic_counter ''7'')"

text \<open>A connection that takes everything, and a limiter that is off until another goroutine closes it.\<close>

definition all_writer :: "string conn_writer" where
  "all_writer b c = (c @ b, length b, None)"

definition off_world :: "(nat \<times> lim_op) list list \<Rightarrow> lworld" where
  "off_world batches = \<lparr>lw_limiter = new_rate_limiter 0 0, lw_now = 0, lw_others = batches\<rparr>"

lemma all_writer: "is_writer any all_writer id"
  by (auto simp: is_writer_def all_writer_def)

lemma demo_counter: "length (heap demo_counter) = 1"
  by (simp add: demo_counter_def get_counter_def new_traffic_counter_def)

lemma demo_write:
  "(case routed_write False 0 all_writer ''data'' ((([], demo_counter), None), Some (off_world [])) of
      (((st, node), user), n, err) \<Rightarrow> (n, err) = (4, None))"
  "(case routed_write False 0 all_writer ''data'' ((([], demo_counter), None), Some (off_world [[], [(5, Close)]])) of
      (((st, node), user), n, err) \<Rightarrow> (n, err) = (0, Some LimiterError))"
  by (simp_all add: routed_write_def limited_write_def write_loop.simps chunk_size_def wait_def wait_loop.simps
      off_world_def new_rate_limiter_def set_rate_def zero_limiter_def off_def others_def world_reserve_def reserve_def
      other_op_def close_limiter_def counted_write_def all_writer_def lim_io_def Let_def)

theorem routed_write_bills_witness:
  "(case routed_write False 0 all_writer ''data'' ((([], demo_counter), None), Some (off_world [])) of
      ((((c, tc), node), user), n, err) \<Rightarrow> (n, err) = (4, None) \<and> c = ''data'' \<and> tc = add_down 0 4 demo_counter) \<and>
   (case routed_write False 0 all_writer ''data'' ((([], demo_counter), None), Some (off_world [[], [(5, Close)]])) of
      ((((c, tc), node), user), n, err) \<Rightarrow> (n, err) = (0, Some LimiterError) \<and> c = [] \<and> tc = add_down 0 0 demo_counter)"
proof -
  have "0 < length (heap demo_counter)" by (simp add: demo_counter)
  note routed_write_bills [OF all_writer this]
  then show ?thesis using demo_write by (fastforce split: prod.splits)
qed

section \<open>Packets\<close>

lemma limited_read_packet_cases:
  assumes "rp c = (c1, buffer, dest, err)" and "limited_read_packet fused rp (c, p) = ((c', p'), buffer', dest', err')"
  shows "c' = c1 \<and> dest' = dest \<and> (buffer' = buffer \<or> buffer' = []) \<and> (err \<noteq> None \<longrightarrow> err' = err)
    \<and> (err = None \<longrightarrow> err' \<in> {None, Some LimiterError}) \<and> (err' \<noteq> None \<longrightarrow> buffer' = buffer)
    \<and> (buffer = [] \<longrightarrow> err' = err)"
  using assms by (auto simp: limited_read_packet_def split: if_splits prod.splits sum.splits)

lemma limited_write_packet_cases:
  assumes "limited_write_packet fused wp buffer dest (c, p) = ((c', p'), err)"
  shows "wp buffer dest c = (c', err) \<or> c' = c \<and> err \<in> {None, Some LimiterError}"
  using assms by (auto simp: limited_write_packet_def split: if_splits prod.splits sum.splits bool.splits)

lemma add_up_0: "a < length (heap tc) \<Longrightarrow> add_up a 0 tc = tc"
  by (simp add: add_up_def)

text \<open>C37. A packet that comes in is billed in full, whether or not the limiters then drop it: the
  counter is the innermost wrapper. What the user of the connection gets is the packet or an empty
  buffer, and the error of the connection below or of a closed limiter.\<close>

theorem routed_read_packet_bills:
  assumes "rp c = (c1, buffer, dest, None)" and "a < length (heap tc)"
    and "routed_read_packet fused a rp (((c, tc), node), user) = ((((c', tc'), node'), user'), buffer', dest', err)"
  shows "c' = c1 \<and> dest' = dest \<and> (buffer' = buffer \<or> buffer' = [] \<and> err = None)
    \<and> err \<in> {None, Some LimiterError} \<and> tc' = add_up a (of_nat (length buffer)) tc"
proof -
  have inner: "counted_read_packet a rp (c, tc) = ((c1, read_packet a False (int (length buffer)) tc), buffer, dest, None)"
    using assms(1) by (simp add: counted_read_packet_def)
  obtain st1 node1 buffer1 dest1 err1 where mid: "limited_read_packet fused (counted_read_packet a rp) ((c, tc), node)
      = ((st1, node1), buffer1, dest1, err1)" by (metis prod.exhaust)
  note m = limited_read_packet_cases [OF inner mid]
  note o = limited_read_packet_cases [OF mid assms(3) [unfolded routed_read_packet_def]]
  have "read_packet a False (int (length buffer)) tc = add_up a (of_nat (length buffer)) tc"
    using assms(2) by (cases "buffer = []") (simp_all add: read_packet_def add_up_0)
  then show ?thesis using m o by auto
qed

definition empty_bucket :: lworld where
  "empty_bucket = \<lparr>lw_limiter = new_rate_limiter 0 1000000, lw_now = 0, lw_others = []\<rparr>"

definition one_packet :: "unit \<Rightarrow> unit \<times> string \<times> nat \<times> io_error option" where
  "one_packet c = ((), ''packet'', 53, None)"

lemma demo_drop:
  "fst (snd (routed_read_packet False 0 one_packet ((((), demo_counter), None), Some empty_bucket))) = []"
  by (simp add: routed_read_packet_def limited_read_packet_def counted_read_packet_def one_packet_def allow_world_def
      empty_bucket_def others_def allow_def new_rate_limiter_def set_rate_def zero_limiter_def burst_of_def off_def
      refill_def sub_time_def seconds_def needed_def float_of_def val64_def default_burst_window_def second_def max_chunk_def
      signed_divide_int_def signed_modulo_int_def min_int64_def max_int64_def Let_def)

theorem routed_read_packet_bills_witness:
  "case routed_read_packet False 0 one_packet ((((), demo_counter), None), Some empty_bucket) of
     (((st, node), user), buffer, dest, err) \<Rightarrow> buffer = [] \<and> snd st = add_up 0 6 demo_counter"
proof -
  have "0 < length (heap demo_counter)" by (simp add: demo_counter)
  note routed_read_packet_bills [OF one_packet_def this]
  then show ?thesis using demo_drop by (fastforce split: prod.splits)
qed

end
