(* ===== verification/Shaping.thy ===== *)
theory Shaping
  imports RateLimit
begin

text \<open>
  What the token bucket promises: over any sequence of \<^verbatim>\<open>reserve\<close> and
  \<^verbatim>\<open>allow\<close> calls, by however many goroutines, the bytes that may pass until a time are
  bounded by the tokens at the start plus the rate times the time, up to the rounding of the
  floats, for which the bounds below are explicit.
\<close>

section \<open>Constants\<close>

definition ulp1 :: rat where "ulp1 = 1 / 2 ^ 53"

definition growth :: rat where "growth = 1 + 1 / 2 ^ 51"

lemma growth_bounds: "(1 + ulp1) ^ 3 \<le> growth" "1 \<le> growth * (1 - ulp1) ^ 3"
  by (simp_all add: growth_def ulp1_def power3_eq_cube field_simps)

lemma ulp1_pos: "0 < ulp1" "ulp1 < 1"
  by (simp_all add: ulp1_def)

lemmas fl_bounds = float64.rnd_upper [folded ulp1_def] float64.rnd_lower [folded ulp1_def]
  float64.rnd_limited_debt [folded ulp1_def] float64.rnd_charge [folded ulp1_def]

section \<open>Refilling\<close>

lemma seconds_bounds:
  assumes "0 \<le> d" and "d \<le> max_int64"
  shows "0 \<le> seconds d \<and> seconds d \<le> (1 + ulp1) ^ 2 * (of_int d / of_int second)"
proof -
  define q r where "q = d div second" and "r = d mod second"
  have S: "(0 :: int) < second" "(0 :: rat) < of_int second" by (simp_all add: second_def)
  have r: "0 \<le> r" "r < second" using S(1) by (simp_all add: r_def)
  have d: "d = q * second + r" by (simp add: q_def r_def)
  have q: "0 \<le> q" using assms(1) S(1) by (simp add: q_def pos_imp_zdiv_nonneg_iff)
  have "q * second \<le> max_int64" using d r(1) assms(2) by linarith
  then have q53: "\<bar>q\<bar> \<le> 2 ^ 53" using q by (simp add: second_def max_int64_def)
  have r53: "\<bar>r\<bar> \<le> 2 ^ 53" using r by (simp add: second_def)
  have dm: "d sdiv second = q" "d smod second = r"
    using assms(1) S(1) by (simp_all add: signed_divide_int_def signed_modulo_int_def q_def r_def sgn_if minus_div_mult_eq_mod)
  have e: "seconds d = fl (of_int q + fl (of_int r / of_int second))"
    by (simp add: seconds_def dm fl_int [OF q53] fl_int [OF r53])
  have rs: "0 \<le> of_int r / (of_int second :: rat)" using r(1) S(2) by simp
  note f = float64.rnd_nonneg [OF rs] fl_bounds(1) [OF rs]
  have "of_int q \<le> (1 + ulp1) * of_int q" using q ulp1_pos by (simp add: distrib_right)
  then have "of_int q + fl (of_int r / of_int second) \<le> (1 + ulp1) * (of_int q + of_int r / of_int second)"
    using f(2) by (simp add: distrib_left)
  then have "(1 + ulp1) * (of_int q + fl (of_int r / of_int second))
      \<le> (1 + ulp1) * ((1 + ulp1) * (of_int q + of_int r / of_int second))"
    using ulp1_pos by (intro mult_left_mono) simp_all
  moreover have "of_int q + of_int r / of_int second = of_int d / (of_int second :: rat)"
    using S by (simp add: d add_divide_distrib)
  moreover have "0 \<le> of_int q + fl (of_int r / of_int second)" using q f(1) by simp
  moreover note fl_bounds(1) [OF this] float64.rnd_nonneg [OF this]
  ultimately show ?thesis unfolding e by (simp add: power2_eq_square mult.assoc)
qed

text \<open>The value a refill computes, before and after limiting it to the burst.\<close>

lemma refill_value:
  assumes t: "float64.exact t" "t \<le> b" "- d \<le> t" and b: "float64.exact b" "0 \<le> b" and d: "0 \<le> d"
    and e: "0 \<le> e" "0 \<le> \<rho>"
    and v: "v = (if fused then fl (t + e * \<rho>) else fl (t + fl (e * \<rho>)))"
  shows "t \<le> min v b \<and> min v b \<le> t + (1 + ulp1) * (e * \<rho>) + ulp1 * (b + d)"
proof -
  define p where "p = (if fused then e * \<rho> else fl (e * \<rho>))"
  have er: "0 \<le> e * \<rho>" using e by simp
  have p: "0 \<le> p" "p \<le> (1 + ulp1) * (e * \<rho>)"
    using er ulp1_pos fl_bounds(1) [OF er] float64.rnd_nonneg [OF er] by (auto simp: p_def distrib_right)
  have "v = fl (t + p)" by (simp add: v p_def)
  then have "t \<le> v" using t(1) p(1) by (auto intro: float64.rnd_ge_exact)
  moreover have "min v b \<le> t + p + ulp1 * (b + d)"
    unfolding \<open>v = fl (t + p)\<close> using t b d p by (intro fl_bounds(3)) simp_all
  ultimately show ?thesis using t(2) p(2) by linarith
qed

definition slack :: "limiter \<Rightarrow> rat \<Rightarrow> rat" where
  "slack l d = ulp1 * (val64 (lm_burst l) + d)"

definition speed :: "limiter \<Rightarrow> rat" where
  "speed l = growth * (val64 (lm_rate l) / of_int second)"

definition running :: "limiter \<Rightarrow> bool" where
  "running l \<longleftrightarrow> limiter_ok l \<and> \<not> lm_closed l \<and> 0 < sint (lm_rate l) \<and> sint (lm_rate l) \<le> 2 ^ 53"

lemma runningD:
  assumes "running l"
  shows "lm_burst l = burst_of (lm_rate l)" and "lm_last l \<noteq> None" and "float64.exact (lm_tokens l)"
    and "lm_tokens l \<le> val64 (lm_burst l)" and "\<not> off l" and "0 < val64 (lm_rate l)"
    and "float_of (lm_rate l) = val64 (lm_rate l)" and "0 < speed l" and "\<not> lm_closed l"
  using assms limiter_okD [of l]
  by (simp_all add: running_def val64_def speed_def growth_def second_def float_of_def fl_int del: of_int_sint)

lemma refill_step:
  assumes run: "running l" and last: "lm_last l = Some t0" and now: "t0 \<le> now"
    and d: "0 \<le> d" "- d \<le> lm_tokens l"
  obtains t1 where "lm_last (refill fused now l) = Some t1" and "t0 \<le> t1" and "t1 \<le> now"
    and "running (refill fused now l)" and "lm_tokens l \<le> lm_tokens (refill fused now l)"
    and "lm_tokens (refill fused now l) \<le> lm_tokens l + speed l * of_int (t1 - t0) + slack l d"
proof (cases "0 < seconds (sub_time now t0)")
  case True
  note R = runningD [OF run]
  let ?e = "seconds (sub_time now t0)" and ?\<rho> = "val64 (lm_rate l)" and ?b = "val64 (lm_burst l)"
  define v where "v = (if fused then fl (lm_tokens l + ?e * ?\<rho>) else fl (lm_tokens l + fl (?e * ?\<rho>)))"
  have b: "float64.exact ?b" "0 \<le> ?b" "float_of (lm_burst l) = ?b"
    using R(1) exact_burst burst_positive [of "lm_rate l"] by (simp_all add: float_of_burst)
  have r: "refill fused now l = l\<lparr>lm_tokens := min v ?b, lm_last := Some now\<rparr>"
    using True R(7) b(3) last by (auto simp: refill_def Let_def v_def min_def)
  have V: "lm_tokens l \<le> min v ?b \<and> min v ?b \<le> lm_tokens l + (1 + ulp1) * (?e * ?\<rho>) + slack l d"
    unfolding slack_def by (rule refill_value [OF R(3,4) d(2) b(1,2) d(1) _ _ v_def]) (use True R(6) in simp_all)
  have s: "0 \<le> sub_time now t0" "sub_time now t0 \<le> max_int64" "sub_time now t0 \<le> now - t0"
    using now by (auto simp: sub_time_def min_int64_def max_int64_def)
  have S: "(0 :: rat) < of_int second" by (simp add: second_def)
  have "?e \<le> (1 + ulp1) ^ 2 * (of_int (sub_time now t0) / of_int second)" using seconds_bounds [OF s(1,2)] by simp
  also have "\<dots> \<le> (1 + ulp1) ^ 2 * (of_int (now - t0) / of_int second)"
    using s(3) S by (intro mult_left_mono divide_right_mono) simp_all
  finally have "?e * ?\<rho> \<le> (1 + ulp1) ^ 2 * (of_int (now - t0) / of_int second) * ?\<rho>"
    using R(6) by (intro mult_right_mono) simp_all
  then have "(1 + ulp1) * (?e * ?\<rho>) \<le> (1 + ulp1) * ((1 + ulp1) ^ 2 * (of_int (now - t0) / of_int second) * ?\<rho>)"
    using ulp1_pos by (intro mult_left_mono) simp_all
  also have "\<dots> = (1 + ulp1) ^ 3 * (of_int (now - t0) / of_int second * ?\<rho>)"
    by (simp add: power3_eq_cube power2_eq_square)
  also have "\<dots> \<le> growth * (of_int (now - t0) / of_int second * ?\<rho>)"
    using growth_bounds(1) now S R(6) by (intro mult_right_mono mult_nonneg_nonneg divide_nonneg_nonneg) simp_all
  also have "\<dots> = speed l * of_int (now - t0)" by (simp add: speed_def)
  finally have g: "(1 + ulp1) * (?e * ?\<rho>) \<le> speed l * of_int (now - t0)" .
  have "running (refill fused now l)" using run limiter_ok_refill [of l] by (simp add: running_def)
  then show thesis using that [of now] V g now by (simp add: r)
next
  case False
  then have r: "refill fused now l = l" using last by (simp add: refill_def Let_def)
  have "0 \<le> slack l d" using d burst_positive [of "lm_rate l"] ulp1_pos runningD(1) [OF run] by (simp add: slack_def)
  then show thesis using that [of t0] run last now by (simp add: r)
qed

section \<open>Charging\<close>

lemma needed_small: "running l \<Longrightarrow> 0 < n \<Longrightarrow> n \<le> sint (lm_burst l) \<Longrightarrow> needed n l = of_int n"
proof -
  assume a: "running l" "0 < n" "n \<le> sint (lm_burst l)"
  have b: "lm_burst l = burst_of (lm_rate l)" using runningD(1) [OF a(1)] .
  have "n \<le> 2 ^ 34" using a(3) burst_bounds [of "lm_rate l"] by (simp add: b)
  then have "fl (of_int n) = of_int n" using a(2) by (intro fl_int) simp
  moreover have "of_int n \<le> val64 (lm_burst l)" using a(3) unfolding val64_def by (simp only: of_int_le_iff)
  ultimately show ?thesis by (simp add: needed_def Let_def b float_of_burst)
qed

definition charged :: "int \<Rightarrow> limiter \<Rightarrow> limiter" where
  "charged n l = l\<lparr>lm_tokens := fl (lm_tokens l - of_int n)\<rparr>"

lemma charged_step:
  assumes run: "running l" and n: "0 < n" "n \<le> sint (lm_burst l)"
    and d: "0 \<le> D" "- of_int D \<le> lm_tokens l" "D + sint (lm_burst l) \<le> 2 ^ 53"
  shows "running (charged n l)" and "lm_tokens (charged n l) \<le> lm_tokens l - of_int n + slack l (of_int D)"
    and "- of_int (D + sint (lm_burst l)) \<le> lm_tokens (charged n l)"
proof -
  note R = runningD [OF run]
  have nd: "needed n l = of_int n" using needed_small [OF run n] .
  show "running (charged n l)" using run limiter_ok_charge [of l n] n(1)
    by (simp add: running_def charged_def nd)
  have "of_int n \<le> val64 (lm_burst l)" using n(2) unfolding val64_def by (simp only: of_int_le_iff)
  then show "lm_tokens (charged n l) \<le> lm_tokens l - of_int n + slack l (of_int D)"
    using R(4) d n(1) burst_positive [of "lm_rate l"] R(1) unfolding charged_def slack_def
    by (simp, intro fl_bounds(4)) simp_all
  have "fl (of_int (- (D + sint (lm_burst l)))) \<le> fl (lm_tokens l - of_int n)"
  proof (rule fl_mono)
    have "of_int (- (D + sint (lm_burst l))) \<le> (of_int (- D - n) :: rat)" using n(2) by (simp only: of_int_le_iff)
    also have "\<dots> \<le> lm_tokens l - of_int n" using d(2) by simp
    finally show "of_int (- (D + sint (lm_burst l))) \<le> lm_tokens l - of_int n" .
  qed
  moreover have "fl (of_int (- (D + sint (lm_burst l)))) = of_int (- (D + sint (lm_burst l)))"
    using d n by (intro fl_int) simp
  ultimately show "- of_int (D + sint (lm_burst l)) \<le> lm_tokens (charged n l)"
    by (simp only: charged_def of_int_minus limiter.select_convs limiter.update_convs) simp
qed

text \<open>The wait covers the missing tokens.\<close>

lemma wait_covers:
  assumes run: "running l" and m: "0 < m"
  defines "w \<equiv> trunc_float (fl (fl (fl m / float_of (lm_rate l)) * of_int second))"
  shows "0 \<le> w" and "m \<le> speed l * of_int (w + 1)"
proof -
  note R = runningD [OF run]
  let ?\<rho> = "val64 (lm_rate l)" and ?S = "of_int second :: rat"
  have S: "0 < ?S" by (simp add: second_def)
  have u: "0 \<le> 1 - ulp1" using ulp1_pos by simp
  have m1: "(1 - ulp1) * m \<le> fl m" using m by (intro fl_bounds(2)) simp
  have f0: "0 \<le> fl m" using m by (intro float64.rnd_nonneg) simp
  have "(1 - ulp1) * ((1 - ulp1) * m / ?\<rho>) \<le> (1 - ulp1) * (fl m / ?\<rho>)"
    using m1 R(6) u by (intro mult_left_mono divide_right_mono) simp_all
  also have "\<dots> \<le> fl (fl m / ?\<rho>)" using f0 R(6) by (intro fl_bounds(2)) simp
  finally have q: "(1 - ulp1) ^ 2 * m / ?\<rho> \<le> fl (fl m / ?\<rho>)" by (simp add: power2_eq_square mult.assoc)
  have q0: "0 \<le> fl (fl m / ?\<rho>)" using f0 R(6) by (intro float64.rnd_nonneg) simp
  define s where "s = fl (fl (fl m / ?\<rho>) * ?S)"
  have "(1 - ulp1) * ((1 - ulp1) ^ 2 * m / ?\<rho> * ?S) \<le> (1 - ulp1) * (fl (fl m / ?\<rho>) * ?S)"
    using q S u by (intro mult_left_mono mult_right_mono) simp_all
  also have "\<dots> \<le> s" using q0 S unfolding s_def by (intro fl_bounds(2)) simp
  finally have s: "(1 - ulp1) ^ 3 * (m / ?\<rho> * ?S) \<le> s" by (simp add: power3_eq_cube power2_eq_square mult.assoc)
  have s0: "0 \<le> s" using q0 S unfolding s_def by (intro float64.rnd_nonneg) simp
  have w: "w = \<lfloor>s\<rfloor>" using s0 unfolding w_def R(7) s_def [symmetric] by (simp add: trunc_float_def)
  then show "0 \<le> w" using s0 by simp
  have "s \<le> of_int (w + 1)" unfolding w using floor_correct [of s] by simp
  then have "growth * ((1 - ulp1) ^ 3 * (m / ?\<rho> * ?S)) \<le> growth * of_int (w + 1)"
    using s by (intro mult_left_mono) (simp_all add: growth_def)
  moreover have "1 * (m / ?\<rho> * ?S) \<le> growth * (1 - ulp1) ^ 3 * (m / ?\<rho> * ?S)"
    using growth_bounds(2) m R(6) S by (intro mult_right_mono) simp_all
  ultimately have "m / ?\<rho> * ?S \<le> growth * of_int (w + 1)" by (simp add: mult.assoc)
  then have "m / ?\<rho> * ?S * (?\<rho> / ?S) \<le> growth * of_int (w + 1) * (?\<rho> / ?S)"
    using R(6) S by (intro mult_right_mono) simp_all
  then show "m \<le> speed l * of_int (w + 1)" using R(6) S by (simp add: speed_def mult_ac)
qed

section \<open>One operation\<close>

text \<open>Requests of one to \<open>b\<close> bytes at times that do not go back.\<close>

fun metered :: "int \<Rightarrow> int \<Rightarrow> (int \<times> lim_op) list \<Rightarrow> bool" where
  "metered b t0 [] = True"
| "metered b t0 ((t, op) # ops) = (t0 \<le> t \<and> metered b t ops \<and>
     (case op of Reserve n \<Rightarrow> 0 < n \<and> n \<le> b | Allow n \<Rightarrow> 0 < n \<and> n \<le> b | _ \<Rightarrow> False))"

definition same_pace :: "limiter \<Rightarrow> limiter \<Rightarrow> bool" where
  "same_pace l l' \<longleftrightarrow> lm_rate l' = lm_rate l \<and> lm_burst l' = lm_burst l"

lemma same_pace_simps [simp]: "same_pace l (refill fused now l)" "same_pace l (charged n l)"
  "lm_last (charged n l) = lm_last l" "lm_closed (charged n l) = lm_closed l"
  by (simp_all add: same_pace_def charged_def)

lemma same_pace_trans: "same_pace l m \<Longrightarrow> same_pace m k \<Longrightarrow> same_pace l k"
  by (simp add: same_pace_def)

lemma same_pace_eqs: "same_pace l m \<Longrightarrow> speed m = speed l \<and> slack m d = slack l d \<and> lm_burst m = lm_burst l"
  by (simp add: same_pace_def speed_def slack_def)

lemma reserve_running:
  assumes "running l" and "0 < n" and "n \<le> sint (lm_burst l)"
  shows "reserve fused now n l = (let r = refill fused now l in
    (charged n r, Inr (if of_int n \<le> lm_tokens r then 0
       else trunc_float (fl (fl (fl (of_int n - lm_tokens r) / float_of (lm_rate l)) * of_int second)))))"
proof -
  have "needed n (refill fused now l) = needed n l" by (simp add: needed_def Let_def)
  then show ?thesis using assms runningD(5,9) [OF assms(1)]
    by (simp add: reserve_def needed_small Let_def charged_def)
qed

lemma allow_running:
  assumes "running l" and "0 < n" and "n \<le> sint (lm_burst l)"
  shows "allow fused now n l = (let r = refill fused now l in
    if lm_tokens r < of_int n then (r, Inr False) else (charged n r, Inr True))"
proof -
  have "needed n (refill fused now l) = needed n l" by (simp add: needed_def Let_def)
  then show ?thesis using assms runningD(5,9) [OF assms(1)]
    by (simp add: allow_def needed_small Let_def charged_def)
qed

text \<open>A granted operation pays for its grant: \<open>C\<close> is what it charges.\<close>

definition accounted :: "limiter \<Rightarrow> int \<Rightarrow> int \<Rightarrow> int \<Rightarrow> int \<Rightarrow> limiter \<Rightarrow> (int \<times> int) list \<Rightarrow> bool" where
  "accounted l t0 now D n l1 gs \<longleftrightarrow>
     running l1 \<and> same_pace l l1 \<and> - of_int (D + sint (lm_burst l)) \<le> lm_tokens l1 \<and>
     (\<exists>t1. lm_last l1 = Some t1 \<and> t0 \<le> t1 \<and> t1 \<le> now \<and>
       (let up = lm_tokens l + speed l * of_int (t1 - t0) + 2 * slack l (of_int D) in
        (gs = [] \<and> lm_tokens l1 \<le> up) \<or>
        (\<exists>rel. gs = [(rel, n)] \<and> now \<le> rel \<and> lm_tokens l1 \<le> up - of_int n \<and>
           of_int n \<le> lm_tokens l + speed l * of_int (rel - t0 + 1) + 2 * slack l (of_int D))))"

lemma slack_nonneg: "running l \<Longrightarrow> 0 \<le> D \<Longrightarrow> 0 \<le> slack l (of_int D)"
  using runningD(1) [of l] burst_positive [of "lm_rate l"] ulp1_pos by (simp add: slack_def)

lemma granted_accounted:
  assumes run: "running l" and last: "lm_last l = Some t0" and now: "t0 \<le> now"
    and D: "0 \<le> D" "- of_int D \<le> lm_tokens l" "D + sint (lm_burst l) \<le> 2 ^ 53"
    and n: "0 < n" "n \<le> sint (lm_burst l)"
    and w: "0 \<le> w" "of_int n \<le> lm_tokens (refill fused now l) \<or>
      of_int n - lm_tokens (refill fused now l) \<le> speed l * of_int (w + 1)"
  shows "accounted l t0 now D n (charged n (refill fused now l)) [(now + w, n)]"
proof -
  let ?r = "refill fused now l" and ?d = "of_int D :: rat"
  obtain t1 where t1: "lm_last ?r = Some t1" "t0 \<le> t1" "t1 \<le> now" and rr: "running ?r"
    and lo: "lm_tokens l \<le> lm_tokens ?r"
    and up: "lm_tokens ?r \<le> lm_tokens l + speed l * of_int (t1 - t0) + slack l ?d"
    by (rule refill_step [OF run last now]) (use D in simp_all)
  have c: "running (charged n ?r)" "lm_tokens (charged n ?r) \<le> lm_tokens ?r - of_int n + slack l ?d"
    "- of_int (D + sint (lm_burst l)) \<le> lm_tokens (charged n ?r)"
    using charged_step [OF rr, of n D] n D lo by (simp_all add: slack_def)
  have sp: "0 < speed l" using runningD(8) [OF run] .
  have "of_int n \<le> lm_tokens ?r + speed l * of_int (w + 1)"
  proof (cases "of_int n \<le> lm_tokens ?r")
    case True
    moreover have "0 \<le> speed l * of_int (w + 1)" using sp w(1) by simp
    ultimately show ?thesis by linarith
  qed (use w(2) in simp)
  also have "\<dots> \<le> lm_tokens l + speed l * of_int (t1 - t0) + slack l ?d + speed l * of_int (w + 1)" using up by simp
  also have "\<dots> = lm_tokens l + speed l * of_int (t1 - t0 + w + 1) + slack l ?d" by (simp add: distrib_left algebra_simps)
  also have "\<dots> \<le> lm_tokens l + speed l * of_int (now + w - t0 + 1) + slack l ?d"
    using t1(3) sp by (simp add: mult_left_mono)
  finally have "of_int n \<le> lm_tokens l + speed l * of_int (now + w - t0 + 1) + 2 * slack l ?d"
    using slack_nonneg [OF run D(1)] by linarith
  moreover have "lm_tokens (charged n ?r) \<le> lm_tokens l + speed l * of_int (t1 - t0) + 2 * slack l ?d - of_int n"
    using c(2) up by linarith
  moreover have "same_pace l (charged n ?r)" by (rule same_pace_trans [of l ?r]) simp_all
  ultimately show ?thesis unfolding accounted_def Let_def using c(1,3) t1 w(1) by auto
qed

lemma op_accounted:
  assumes run: "running l" and last: "lm_last l = Some t0"
    and D: "0 \<le> D" "- of_int D \<le> lm_tokens l" "D + sint (lm_burst l) \<le> 2 ^ 53"
    and m: "metered (sint (lm_burst l)) t0 ((now, op) # ops)"
  obtains n where "0 < n" and "accounted l t0 now D n (fst (apply_op fused now op l)) (snd (apply_op fused now op l))"
proof -
  let ?r = "refill fused now l"
  have now: "t0 \<le> now" using m by simp
  have sp: "speed ?r = speed l" by (simp add: speed_def)
  obtain n where op: "op = Reserve n \<or> op = Allow n" and n: "0 < n" "n \<le> sint (lm_burst l)"
    using m by (cases op) auto
  obtain t1 where t1: "lm_last ?r = Some t1" "t0 \<le> t1" "t1 \<le> now" and rr: "running ?r"
    and lo: "lm_tokens l \<le> lm_tokens ?r"
    and up: "lm_tokens ?r \<le> lm_tokens l + speed l * of_int (t1 - t0) + slack l (of_int D)"
    by (rule refill_step [OF run last now]) (use D in simp_all)
  have granted: "accounted l t0 now D n (charged n ?r) [(now, n)]" if "of_int n \<le> lm_tokens ?r"
    using granted_accounted [OF run last now D n, of 0 fused] that by simp
  show thesis
  proof (cases "of_int n \<le> lm_tokens ?r")
    case True
    then have "apply_op fused now op l = (charged n ?r, [(now, n)])"
      using op reserve_running [OF run n] allow_running [OF run n] by (auto simp: Let_def)
    then show thesis using that [OF n(1)] granted [OF True] by simp
  next
    case False
    let ?w = "trunc_float (fl (fl (fl (of_int n - lm_tokens ?r) / float_of (lm_rate l)) * of_int second))"
    from False have pos: "0 < of_int n - lm_tokens ?r" by simp
    note w = wait_covers [OF rr pos, unfolded refill_fields sp]
    from op show thesis
    proof
      assume "op = Reserve n"
      then have "apply_op fused now op l = (charged n ?r, [(now + ?w, n)])"
        using reserve_running [OF run n] False by (simp add: Let_def)
      then show thesis using that [OF n(1)] granted_accounted [OF run last now D n w(1)] w(2) by simp
    next
      assume "op = Allow n"
      then have a: "apply_op fused now op l = (?r, [])"
        using allow_running [OF run n] False by (simp add: Let_def)
      have "(of_int (- (D + sint (lm_burst l))) :: rat) \<le> of_int (- D)" using n by (simp only: of_int_le_iff)
      then have "- of_int (D + sint (lm_burst l)) \<le> lm_tokens ?r" using D(2) lo by simp
      then have "accounted l t0 now D n ?r []" unfolding accounted_def Let_def
        using rr t1 up slack_nonneg [OF run D(1)] by auto
      then show thesis using that [OF n(1)] a by simp
    qed
  qed
qed

section \<open>Traces\<close>

lemma metered_later: "metered b t ops \<Longrightarrow> t0 \<le> t \<Longrightarrow> metered b t0 ops"
  by (cases "(b, t, ops)" rule: metered.cases) auto

lemma released_by_simps:
  "released_by T [] = 0"
  "released_by T (g # gs) = (if fst g \<le> T then snd g else 0) + released_by T gs"
  by (simp_all add: released_by_def case_prod_beta)

lemma slack_mono: "d \<le> e \<Longrightarrow> slack l d \<le> slack l e"
  unfolding slack_def using ulp1_pos by (intro mult_left_mono) simp_all

text \<open>One more grant: \<open>tk\<close> is the level it leaves, of at most \<open>up\<close>, and \<open>B\<close> the bound.\<close>

lemma released_step:
  assumes "gs = [] \<and> tk \<le> up \<or> (\<exists>rel. gs = [(rel, n)] \<and> tk \<le> up - of_int n \<and> (rel \<le> T \<longrightarrow> of_int n \<le> B))"
    and "released_by T gs' = 0 \<or> of_int (released_by T gs') \<le> B - up + tk" and "0 < n"
  shows "released_by T (gs @ gs') = 0 \<or> of_int (released_by T (gs @ gs')) \<le> (B :: rat)"
proof -
  have n: "(0 :: rat) \<le> of_int n" using assms(3) by simp
  from assms(1) show ?thesis
  proof (elim disjE exE conjE)
    fix rel assume "gs = [(rel, n)]" "tk \<le> up - of_int n" "rel \<le> T \<longrightarrow> of_int n \<le> B"
    then show ?thesis using assms(2) n by (cases "rel \<le> T") (auto simp: released_by_simps)
  qed (use assms(2) in auto)
qed

lemma run_bounded:
  assumes "running l" and "lm_last l = Some t0" and "0 \<le> D" and "- of_int D \<le> lm_tokens l"
    and "D + int (length ops) * sint (lm_burst l) \<le> M" and "M \<le> 2 ^ 53"
    and "metered (sint (lm_burst l)) t0 ops"
  shows "released_by T (snd (run_ops fused ops l)) = 0 \<or>
    of_int (released_by T (snd (run_ops fused ops l)))
      \<le> lm_tokens l + speed l * of_int (T - t0 + 1) + 2 * of_nat (length ops) * slack l (of_int M)"
  using assms
proof (induction ops arbitrary: l t0 D)
  case Nil
  then show ?case by (simp add: released_by_simps)
next
  case (Cons x ops)
  obtain now op where x: "x = (now, op)" by (cases x)
  let ?b = "sint (lm_burst l)" and ?\<epsilon> = "slack l (of_int M)" and ?k = "of_nat (length ops) :: rat"
  note R = runningD [OF Cons.prems(1)]
  have b: "0 \<le> ?b" using burst_bounds [of "lm_rate l"] R(1) by (simp add: max_chunk_def)
  have kb: "0 \<le> int (length ops) * ?b" using b by simp
  have DM: "D + ?b + int (length ops) * ?b \<le> M" using Cons.prems(5) by (simp add: distrib_right)
  then have D1: "D + ?b \<le> 2 ^ 53" using Cons.prems(6) kb by linarith
  obtain n where n: "0 < n" and acc: "accounted l t0 now D n (fst (apply_op fused now op l)) (snd (apply_op fused now op l))"
    by (rule op_accounted [OF Cons.prems(1,2,3,4) D1]) (use Cons.prems(7) x in blast)+
  obtain l1 gs where a: "apply_op fused now op l = (l1, gs)" by fastforce
  obtain l2 gs2 where r: "run_ops fused ops l1 = (l2, gs2)" by fastforce
  have all: "snd (run_ops fused (x # ops) l) = gs @ gs2" by (simp add: x a r)
  note A = acc [unfolded a fst_conv snd_conv accounted_def Let_def]
  then obtain t1 where t1: "lm_last l1 = Some t1" "t0 \<le> t1" "t1 \<le> now"
    and step: "(gs = [] \<and> lm_tokens l1 \<le> lm_tokens l + speed l * of_int (t1 - t0) + 2 * slack l (of_int D)) \<or>
        (\<exists>rel. gs = [(rel, n)] \<and> now \<le> rel
           \<and> lm_tokens l1 \<le> lm_tokens l + speed l * of_int (t1 - t0) + 2 * slack l (of_int D) - of_int n
           \<and> of_int n \<le> lm_tokens l + speed l * of_int (rel - t0 + 1) + 2 * slack l (of_int D))" by blast
  note P = same_pace_eqs [of l l1]
  have sp: "same_pace l l1" "running l1" using A by simp_all
  note E = conjunct1 [OF P [OF sp(1)]] conjunct1 [OF conjunct2 [OF P [OF sp(1)]]] conjunct2 [OF conjunct2 [OF P [OF sp(1)]]]
  have me: "metered (sint (lm_burst l1)) t1 ops" using Cons.prems(7) x t1(3) E(3) metered_later by auto
  have IH: "released_by T gs2 = 0 \<or>
     of_int (released_by T gs2) \<le> lm_tokens l1 + speed l * of_int (T - t1 + 1) + 2 * ?k * ?\<epsilon>"
    using Cons.IH [OF sp(2) t1(1) _ _ _ Cons.prems(6) me, of "D + ?b"] A Cons.prems(3) b DM
    by (simp add: r E)
  have e: "0 \<le> ?\<epsilon>" "slack l (of_int D) \<le> ?\<epsilon>"
  proof -
    have "0 \<le> M" using DM Cons.prems(3) b kb by linarith
    then show "0 \<le> ?\<epsilon>" by (rule slack_nonneg [OF Cons.prems(1)])
    have "D \<le> M" using DM b kb by linarith
    then show "slack l (of_int D) \<le> ?\<epsilon>" by (intro slack_mono) simp
  qed
  have split: "speed l * of_int (t1 - t0) + speed l * of_int (T - t1 + 1) = speed l * of_int (T - t0 + 1)"
    by (simp flip: distrib_left)
  have kk: "2 * of_nat (length (x # ops)) * ?\<epsilon> = 2 * ?\<epsilon> + 2 * ?k * ?\<epsilon>" by (simp add: distrib_right distrib_left)
  have k0: "0 \<le> 2 * ?k * ?\<epsilon>" using e(1) by simp
  define up where "up = lm_tokens l + speed l * of_int (t1 - t0) + 2 * slack l (of_int D)"
  define B where "B = lm_tokens l + speed l * of_int (T - t0 + 1) + 2 * of_nat (length (x # ops)) * ?\<epsilon>"
  have rest: "released_by T gs2 = 0 \<or> of_int (released_by T gs2) \<le> B - up + lm_tokens l1"
    using IH split kk e(2) unfolding B_def up_def by linarith
  have low: "of_int n \<le> B" if "of_int n \<le> lm_tokens l + speed l * of_int (rel - t0 + 1) + 2 * slack l (of_int D)" "rel \<le> T" for rel
  proof -
    have "speed l * of_int (rel - t0 + 1) \<le> speed l * of_int (T - t0 + 1)" using that(2) runningD(8) [OF Cons.prems(1)] by simp
    then show ?thesis using that(1) kk k0 e(2) unfolding B_def by linarith
  qed
  have "released_by T (gs @ gs2) = 0 \<or> of_int (released_by T (gs @ gs2)) \<le> B"
    by (rule released_step [OF _ rest n]) (use step low in \<open>unfold up_def [symmetric], blast\<close>)
  then show ?case unfolding all B_def .
qed

lemma admitted_core:
  assumes run: "running l" and "lm_last l = Some t0" and "0 \<le> lm_tokens l" and "t0 \<le> T"
    and "metered (sint (lm_burst l)) t0 ops" and "int (length ops) * sint (lm_burst l) \<le> 2 ^ 53"
  shows "of_int (released_by T (snd (run_ops fused ops l)))
    \<le> lm_tokens l + (1 + 1 / 2 ^ 51) * (of_int (sint (lm_rate l)) / 10 ^ 9) * of_int (T - t0 + 1)
      + of_nat (length ops * (length ops + 1)) * of_int (sint (lm_burst l)) / 2 ^ 52"
proof -
  let ?b = "sint (lm_burst l)" and ?N = "length ops"
  have sl: "slack l (of_int (int ?N * ?b)) = of_nat (?N + 1) * of_int ?b / 2 ^ 53"
    unfolding slack_def val64_def ulp1_def of_int_mult of_int_of_nat_eq by (simp add: distrib_right)
  have b: "0 \<le> ?b" using burst_bounds [of "lm_rate l"] runningD(1) [OF run] by (simp add: max_chunk_def)
  note N = assms(6)
  have sp: "speed l = (1 + 1 / 2 ^ 51) * (of_int (sint (lm_rate l)) / 10 ^ 9)"
    unfolding speed_def growth_def val64_def second_def by simp
  have "0 \<le> speed l * of_int (T - t0 + 1)" using runningD(8) [OF run] assms(4) by simp
  moreover have "0 \<le> 2 * of_nat ?N * slack l (of_int (int ?N * ?b))"
    using slack_nonneg [OF run, of "int ?N * ?b"] b by (intro mult_nonneg_nonneg) simp_all
  moreover have "0 \<le> int ?N * ?b" using b by simp
  moreover note run_bounded [OF run assms(2) order_refl _ _ N assms(5), of T fused]
  ultimately have "of_int (released_by T (snd (run_ops fused ops l)))
      \<le> lm_tokens l + speed l * of_int (T - t0 + 1) + 2 * of_nat ?N * slack l (of_int (int ?N * ?b))"
    using assms(3) by auto
  also have "2 * of_nat ?N * slack l (of_int (int ?N * ?b))
      = of_nat (?N * (?N + 1)) * of_int ?b / 2 ^ 52" unfolding sl by (simp add: algebra_simps)
  finally show ?thesis unfolding sp .
qed

text \<open>C5. The shaping bound: starting with \<open>tokens\<close> bytes in the bucket, the bytes that any sequence of
  \<^verbatim>\<open>reserve\<close> and \<^verbatim>\<open>allow\<close> calls lets pass by the time \<open>T\<close> exceed the tokens plus the rate
  times the time by at most a factor \<open>2 ^ -51\<close> of the rate, one nanosecond, and the rounding of the
  tokens, which is far below a byte for any realistic number of calls.\<close>

theorem admitted_bounded:
  assumes "limiter_ok l" and "\<not> lm_closed l" and "0 < sint (lm_rate l)" and "sint (lm_rate l) \<le> 2 ^ 53"
    and "lm_last l = Some t0" and "0 \<le> lm_tokens l" and "t0 \<le> T"
    and "metered (sint (lm_burst l)) t0 ops" and "int (length ops) * sint (lm_burst l) \<le> 2 ^ 53"
  shows "of_int (released_by T (snd (run_ops fused ops l)))
    \<le> lm_tokens l + (1 + 1 / 2 ^ 51) * (of_int (sint (lm_rate l)) / 10 ^ 9) * of_int (T - t0 + 1)
      + of_nat (length ops * (length ops + 1)) * of_int (sint (lm_burst l)) / 2 ^ 52"
  by (rule admitted_core) (use assms in \<open>simp_all add: running_def\<close>)

section \<open>Waiting among others\<close>

text \<open>A running limiter whose last refill is not in the future.\<close>

definition clocked :: "limiter \<Rightarrow> int \<Rightarrow> bool" where
  "clocked l t \<longleftrightarrow> running l \<and> (\<exists>t0. lm_last l = Some t0 \<and> t0 \<le> t)"

definition metered_op :: "int \<Rightarrow> lim_op \<Rightarrow> bool" where
  "metered_op b op = (case op of Reserve n \<Rightarrow> 0 < n \<and> n \<le> b | Allow n \<Rightarrow> 0 < n \<and> n \<le> b | _ \<Rightarrow> False)"

lemma metered_Cons: "metered b t ((now, op) # ops) \<longleftrightarrow> t \<le> now \<and> metered b now ops \<and> metered_op b op"
  by (simp add: metered_op_def split: lim_op.split)

lemma metered_append:
  "metered b t ops \<Longrightarrow> list_all (\<lambda>x. fst x \<le> t') ops \<Longrightarrow> t \<le> t' \<Longrightarrow> metered b t' ops' \<Longrightarrow> metered b t (ops @ ops')"
  by (induction ops arbitrary: t) (auto simp: metered_Cons intro: metered_later simp del: metered.simps(2))

lemma run_ops_append: "run_ops fused ops l = (l1, gs) \<Longrightarrow> run_ops fused ops' l1 = (l2, gs') \<Longrightarrow>
    run_ops fused (ops @ ops') l = (l2, gs @ gs')"
  by (induction ops arbitrary: l gs) (auto split: prod.splits)

lemma released_by_append: "released_by T (gs @ gs') = released_by T gs + released_by T gs'"
  by (simp add: released_by_def)

lemma released_by_nonneg: "list_all (\<lambda>g. 0 < snd g) gs \<Longrightarrow> 0 \<le> released_by T gs"
  by (induction gs) (auto simp: released_by_simps)

text \<open>A stretch of operations from \<open>t\<close> to \<open>t'\<close>, with what they grant.\<close>

definition stretch :: "bool \<Rightarrow> limiter \<Rightarrow> int \<Rightarrow> (int \<times> lim_op) list \<Rightarrow> (int \<times> int) list \<Rightarrow> limiter \<Rightarrow> int \<Rightarrow> bool" where
  "stretch fused l t ops gs l' t' \<longleftrightarrow> metered (sint (lm_burst l)) t ops \<and> list_all (\<lambda>x. fst x \<le> t') ops \<and> t \<le> t'
     \<and> run_ops fused ops l = (l', gs) \<and> clocked l' t' \<and> same_pace l l' \<and> list_all (\<lambda>g. 0 < snd g) gs"

lemma stretch_empty: "clocked l t \<Longrightarrow> t \<le> t' \<Longrightarrow> stretch fused l t [] [] l t'"
  by (auto simp: stretch_def clocked_def same_pace_def)

lemma stretch_append:
  assumes "stretch fused l t ops gs l1 t1" and "stretch fused l1 t1 ops' gs' l2 t2"
  shows "stretch fused l t (ops @ ops') (gs @ gs') l2 t2"
proof -
  have b: "lm_burst l1 = lm_burst l" using assms(1) by (simp add: stretch_def same_pace_def)
  have "list_all (\<lambda>x. fst x \<le> t2) ops" using assms by (auto simp: stretch_def list_all_iff)
  then show ?thesis using assms metered_append [of "sint (lm_burst l)" t ops t1 ops'] run_ops_append [of fused ops l l1 gs ops' l2 gs']
    by (auto simp: stretch_def b same_pace_def)
qed

lemma refill_clocked: "clocked l t \<Longrightarrow> t \<le> now \<Longrightarrow> clocked (refill fused now l) now"
proof -
  assume c: "clocked l t" and now: "t \<le> now"
  then obtain t0 where t0: "lm_last l = Some t0" "t0 \<le> now" by (auto simp: clocked_def)
  have run: "running l" using c by (simp add: clocked_def)
  show "clocked (refill fused now l) now"
    by (rule refill_step [OF run t0, of "max 0 (- lm_tokens l)" fused]) (auto simp: max_def clocked_def)
qed

lemma charged_clocked: "clocked l t \<Longrightarrow> 0 < n \<Longrightarrow> n \<le> sint (lm_burst l) \<Longrightarrow> clocked (charged n l) t"
  using limiter_ok_charge [of l n] needed_small [of l n] by (auto simp: clocked_def running_def charged_def)

lemma stretch_op:
  assumes "clocked l t" and "t \<le> now" and "metered_op (sint (lm_burst l)) op" and "apply_op fused now op l = (l', gs)"
  shows "stretch fused l t [(now, op)] gs l' now"
proof -
  let ?r = "refill fused now l"
  have r: "clocked ?r now" "same_pace l ?r" "sint (lm_burst ?r) = sint (lm_burst l)"
    using refill_clocked [OF assms(1,2)] by simp_all
  have run: "running l" using assms(1) by (simp add: clocked_def)
  obtain n where op: "op = Reserve n \<or> op = Allow n" and n: "0 < n" "n \<le> sint (lm_burst l)"
    using assms(3) by (auto simp: metered_op_def split: lim_op.splits)
  have c: "clocked (charged n ?r) now" by (rule charged_clocked [OF r(1) n(1)]) (simp add: n(2))
  have "same_pace l (charged n ?r)" by (rule same_pace_trans [OF r(2)]) simp
  then have "clocked l' now \<and> same_pace l l' \<and> list_all (\<lambda>g. 0 < snd g) gs"
    using op assms(4) reserve_running [OF run n] allow_running [OF run n] r c n(1)
    by (auto simp: Let_def split: if_splits)
  then show ?thesis using assms by (simp add: stretch_def metered_Cons del: metered.simps(2))
qed

definition fair_others :: "int \<Rightarrow> lworld \<Rightarrow> bool" where
  "fair_others b w \<longleftrightarrow> list_all (list_all (\<lambda>(d, op). metered_op b op)) (lw_others w)"

definition others_left :: "lworld \<Rightarrow> nat" where
  "others_left w = sum_list (map length (lw_others w))"

lemma stretch_batch:
  "clocked l t \<Longrightarrow> list_all (\<lambda>(d, op). metered_op (sint (lm_burst l)) op) batch \<Longrightarrow> fold (other_op fused) batch (l, t) = (l', t') \<Longrightarrow>
    \<exists>ops gs. stretch fused l t ops gs l' t' \<and> length ops = length batch"
proof (induction batch arbitrary: l t)
  case Nil
  then show ?case using stretch_empty [of l t t fused] by auto
next
  case (Cons x batch)
  obtain d op where x: "x = (d, op)" by (cases x)
  obtain l1 gs where a: "apply_op fused (t + int d) op l = (l1, gs)" by fastforce
  have s: "stretch fused l t [(t + int d, op)] gs l1 (t + int d)"
    by (rule stretch_op [OF Cons.prems(1) _ _ a]) (use Cons.prems(2) x in simp_all)
  then have c: "clocked l1 (t + int d)" "lm_burst l1 = lm_burst l" by (simp_all add: stretch_def same_pace_def)
  have "fold (other_op fused) batch (l1, t + int d) = (l', t')" using Cons.prems(3) by (simp add: x other_op_def a)
  then obtain ops' gs' where r: "stretch fused l1 (t + int d) ops' gs' l' t'" "length ops' = length batch"
    using Cons.IH [OF c(1)] Cons.prems(2) c(2) by auto
  from stretch_append [OF s r(1)] r(2) show ?case by auto
qed

lemma stretch_others:
  assumes "clocked (lw_limiter w) (lw_now w)" and "fair_others (sint (lm_burst (lw_limiter w))) w"
  obtains ops gs where "stretch fused (lw_limiter w) (lw_now w) ops gs (lw_limiter (others fused w)) (lw_now (others fused w))"
    and "length ops + others_left (others fused w) = others_left w"
    and "fair_others (sint (lm_burst (lw_limiter w))) (others fused w)"
proof (cases "lw_others w")
  case Nil
  then have "others fused w = w" by (simp add: others_def)
  then show thesis using that [of "[]" "[]"] stretch_empty [OF assms(1) order_refl] assms(2) by simp
next
  case (Cons batch rest)
  obtain l' t' where f: "fold (other_op fused) batch (lw_limiter w, lw_now w) = (l', t')" by fastforce
  then have o: "others fused w = \<lparr>lw_limiter = l', lw_now = t', lw_others = rest\<rparr>" by (simp add: others_def Cons)
  obtain ops gs where "stretch fused (lw_limiter w) (lw_now w) ops gs l' t'" "length ops = length batch"
    using stretch_batch [OF assms(1) _ f] assms(2) by (auto simp: fair_others_def Cons)
  then show thesis using that assms(2) by (simp add: o others_left_def fair_others_def Cons)
qed

lemma stretch_later: "stretch fused l t ops gs l' t' \<Longrightarrow> t' \<le> t'' \<Longrightarrow> stretch fused l t ops gs l' t''"
  by (fastforce simp: stretch_def clocked_def list_all_iff)

text \<open>A reservation and the sleep that follows it, during which the others go on.\<close>

lemma stretch_reserve:
  assumes "clocked (lw_limiter w) (lw_now w)" and "fair_others b w" and "0 < n" and "n \<le> b"
    and "b = sint (lm_burst (lw_limiter w))"
  obtains w' rel ops gs where "world_reserve fused n w = (w', None)"
    and "stretch fused (lw_limiter w) (lw_now w) ((lw_now w, Reserve n) # ops) ((rel, n) # gs) (lw_limiter w') (lw_now w')"
    and "rel \<le> lw_now w'" and "length ops + others_left w' = others_left w" and "fair_others b w'"
proof -
  let ?l = "lw_limiter w" and ?now = "lw_now w"
  let ?r = "refill fused ?now ?l"
  define wait where "wait = (if of_int n \<le> lm_tokens ?r then 0
      else trunc_float (fl (fl (fl (of_int n - lm_tokens ?r) / float_of (lm_rate ?l)) * of_int second)))"
  define w1 where "w1 = w\<lparr>lw_limiter := charged n ?r\<rparr>"
  have run: "running ?l" using assms(1) by (simp add: clocked_def)
  have rr: "running ?r" using refill_clocked [OF assms(1) order_refl] by (simp add: clocked_def)
  have w0: "0 \<le> wait" using wait_covers(1) [OF rr] by (simp add: wait_def)
  have r: "reserve fused ?now n ?l = (charged n ?r, Inr wait)"
    using reserve_running [OF run assms(3)] assms(4,5) by (simp add: Let_def wait_def)
  then have "apply_op fused ?now (Reserve n) ?l = (charged n ?r, [(?now + wait, n)])" by simp
  then have s: "stretch fused ?l ?now [(?now, Reserve n)] [(?now + wait, n)] (charged n ?r) ?now"
    by (intro stretch_op [OF assms(1) order_refl]) (use assms(3-5) in \<open>simp_all add: metered_op_def\<close>)
  then have c: "clocked (lw_limiter w1) (lw_now w1)" "sint (lm_burst (lw_limiter w1)) = b"
    by (simp_all add: stretch_def same_pace_def w1_def assms(5))
  have f: "fair_others b w1" "others_left w1 = others_left w" using assms(2) by (simp_all add: w1_def fair_others_def others_left_def)
  show thesis
  proof (cases "0 < wait")
    case False
    then have "world_reserve fused n w = (w1, None)" using r by (simp add: world_reserve_def w1_def)
    then show thesis using that [of w1 "[]" "?now + wait" "[]"] s f False by (simp add: w1_def)
  next
    case True
    let ?w2 = "others fused w1"
    let ?w3 = "?w2\<lparr>lw_now := max (lw_now ?w2) (?now + wait)\<rparr>"
    obtain ops gs where o: "stretch fused (lw_limiter w1) (lw_now w1) ops gs (lw_limiter ?w2) (lw_now ?w2)"
      "length ops + others_left ?w2 = others_left w1" "fair_others b ?w2"
      using stretch_others [OF c(1), of fused] f(1) unfolding c(2) by blast
    have "stretch fused ?l ?now ([(?now, Reserve n)] @ ops) ([(?now + wait, n)] @ gs) (lw_limiter ?w2) (lw_now ?w2)"
      by (rule stretch_append [OF s]) (use o(1) in \<open>simp add: w1_def\<close>)
    then have "stretch fused ?l ?now ((?now, Reserve n) # ops) ((?now + wait, n) # gs) (lw_limiter ?w3) (lw_now ?w3)"
      by (auto intro: stretch_later)
    moreover have "world_reserve fused n w = (?w3, None)" using r True by (simp add: world_reserve_def w1_def Let_def)
    ultimately show thesis using that [of ?w3 ops "?now + wait" gs] o(2,3) f(2) by (simp add: fair_others_def others_left_def)
  qed
qed

text \<open>\<open>own\<close> counts the chunks of the waiting goroutine itself.\<close>

lemma wait_stretch:
  assumes "clocked (lw_limiter w) (lw_now w)" and "fair_others (sint (lm_burst (lw_limiter w))) w" and "0 < n"
  shows "\<exists>w' ops gs own. wait_loop fused n w = (w', None) \<and> stretch fused (lw_limiter w) (lw_now w) ops gs (lw_limiter w') (lw_now w')
    \<and> n \<le> released_by (lw_now w') gs \<and> length ops + others_left w' = own + others_left w
    \<and> int own * sint (lm_burst (lw_limiter w)) < n + sint (lm_burst (lw_limiter w))"
  using assms
proof (induction "nat n" arbitrary: n w rule: less_induct)
  case less
  let ?l = "lw_limiter w" and ?b = "sint (lm_burst (lw_limiter w))"
  let ?w1 = "others fused w" let ?w2 = "others fused ?w1"
  obtain o1 g1 where s1: "stretch fused ?l (lw_now w) o1 g1 (lw_limiter ?w1) (lw_now ?w1)"
    "length o1 + others_left ?w1 = others_left w" "fair_others ?b ?w1"
    by (rule stretch_others [OF less.prems(1,2)])
  then have c1: "clocked (lw_limiter ?w1) (lw_now ?w1)" "lm_burst (lw_limiter ?w1) = lm_burst ?l"
    by (simp_all add: stretch_def same_pace_def)
  obtain o2 g2 where s2: "stretch fused (lw_limiter ?w1) (lw_now ?w1) o2 g2 (lw_limiter ?w2) (lw_now ?w2)"
    "length o2 + others_left ?w2 = others_left ?w1" "fair_others ?b ?w2"
    by (rule stretch_others [OF c1(1)]) (use s1(3) c1(2) in simp_all)
  then have c2: "clocked (lw_limiter ?w2) (lw_now ?w2)" "lm_burst (lw_limiter ?w2) = lm_burst ?l"
    using c1(2) by (simp_all add: stretch_def same_pace_def)
  have b: "0 < ?b" using burst_bounds [of "lm_rate ?l"] runningD(1) [of ?l] less.prems(1) by (simp add: clocked_def max_chunk_def)
  define k where "k = chunk_of n (lw_limiter ?w1)"
  have k: "0 < k" "k \<le> ?b" "k \<le> n" using b less.prems(3) c1(2) by (auto simp: chunk_of_def k_def)
  obtain w3 rel o3 g3 where r: "world_reserve fused k ?w2 = (w3, None)"
    and s3: "stretch fused (lw_limiter ?w2) (lw_now ?w2) ((lw_now ?w2, Reserve k) # o3) ((rel, k) # g3) (lw_limiter w3) (lw_now w3)"
    and rel: "rel \<le> lw_now w3" and left: "length o3 + others_left w3 = others_left ?w2" and f3: "fair_others ?b w3"
    by (rule stretch_reserve [OF c2(1) s2(3) k(1,2)]) (use c2(2) in simp)
  have c3: "clocked (lw_limiter w3) (lw_now w3)" "lm_burst (lw_limiter w3) = lm_burst ?l"
    using s3 c2(2) by (simp_all add: stretch_def same_pace_def)
  have "\<not> off (lw_limiter ?w1)" "\<not> lm_closed (lw_limiter ?w1)" using c1(1) runningD(5,9) by (auto simp: clocked_def)
  then have step: "wait_loop fused n w = wait_loop fused (n - k) w3"
    using less.prems(3) r by (subst wait_loop.simps) (simp add: Let_def k_def)
  let ?ops = "(o1 @ o2) @ (lw_now ?w2, Reserve k) # o3" and ?gs = "(g1 @ g2) @ (rel, k) # g3"
  note s = stretch_append [OF stretch_append [OF s1(1) s2(1)] s3]
  have g: "0 \<le> released_by T g1" "0 \<le> released_by T g2" "0 \<le> released_by T g3" for T
    using s1(1) s2(1) s3 by (auto simp: stretch_def intro: released_by_nonneg)
  have own: "k \<le> released_by T ?gs" if "lw_now w3 \<le> T" for T
    using g [of T] rel that by (simp add: released_by_append released_by_simps)
  show ?case
  proof (cases "n = k")
    case True
    then have "wait_loop fused n w = (w3, None)" unfolding step by (simp add: wait_loop.simps)
    then show ?thesis using s s1(2) s2(2) left k b own [OF order_refl] True
      by (intro exI [of _ w3] exI [of _ ?ops] exI [of _ ?gs] exI [of _ 1]) simp
  next
    case False
    then have kb: "k = ?b" using c1(2) by (auto simp: chunk_of_def k_def split: if_splits)
    have "nat (n - k) < nat n" "0 < n - k" using k False by simp_all
    from less.hyps [OF this(1) c3(1) _ this(2)] f3
    obtain w' ops gs own' where IH: "wait_loop fused (n - k) w3 = (w', None)"
      "stretch fused (lw_limiter w3) (lw_now w3) ops gs (lw_limiter w') (lw_now w')" "n - k \<le> released_by (lw_now w') gs"
      "length ops + others_left w' = own' + others_left w3" "int own' * ?b < n - k + ?b" unfolding c3(2) by blast
    have "lw_now w3 \<le> lw_now w'" using IH(2) by (simp add: stretch_def)
    then have "n \<le> released_by (lw_now w') (?gs @ gs)" using IH(3) own [of "lw_now w'"] by (simp add: released_by_append released_by_simps)
    then show ?thesis using step IH(1,4,5) stretch_append [OF s IH(2)] s1(2) s2(2) left kb
      by (intro exI [of _ w'] exI [of _ "?ops @ ops"] exI [of _ "?gs @ gs"] exI [of _ "Suc own'"]) (simp add: distrib_right)
  qed
qed

text \<open>C22. \<^verbatim>\<open>Wait\<close> on an open limiter with a rate returns without an error, and not before the rate has paid for its
  bytes, whatever \<^verbatim>\<open>Reserve\<close> and \<^verbatim>\<open>Allow\<close> calls of others fall between its steps and into its sleeps, and whatever debt \<open>D\<close>
  earlier reservations have left; \<open>k\<close> is the number of operations, its own and the others', that the rounding
  is counted for. That somebody else closes the limiter or changes its rate in the meantime is excluded.\<close>

theorem wait_paced:
  assumes "limiter_ok (lw_limiter w)" and "\<not> lm_closed (lw_limiter w)"
    and "0 < sint (lm_rate (lw_limiter w))" and "sint (lm_rate (lw_limiter w)) \<le> 2 ^ 53"
    and "lm_last (lw_limiter w) = Some t0" and "t0 \<le> lw_now w" and "0 < n"
    and "b = sint (lm_burst (lw_limiter w))" and "fair_others b w"
    and "0 \<le> D" and "- of_int D \<le> lm_tokens (lw_limiter w)" and "D + n + (int (others_left w) + 1) * b \<le> 2 ^ 53"
  shows "\<exists>w' k. wait fused n (Some w) = (Some w', None) \<and> lw_now w \<le> lw_now w'
    \<and> int k * b < n + (int (others_left w) + 1) * b
    \<and> of_int n \<le> lm_tokens (lw_limiter w)
        + (1 + 1 / 2 ^ 51) * (of_int (sint (lm_rate (lw_limiter w))) / 10 ^ 9) * of_int (lw_now w' - t0 + 1)
        + of_nat k * (of_int D + of_nat (k + 1) * of_int b) / 2 ^ 52"
proof -
  let ?l = "lw_limiter w"
  have run: "running ?l" using assms by (simp add: running_def)
  then have c: "clocked ?l (lw_now w)" using assms(5,6) by (simp add: clocked_def)
  have b: "0 \<le> b" using burst_bounds [of "lm_rate ?l"] runningD(1) [OF run] by (simp add: assms(8) max_chunk_def)
  obtain w' ops gs own where W: "wait_loop fused n w = (w', None)" "stretch fused ?l (lw_now w) ops gs (lw_limiter w') (lw_now w')"
    "n \<le> released_by (lw_now w') gs" "length ops + others_left w' = own + others_left w" "int own * b < n + b"
    using wait_stretch [OF c _ assms(7)] assms(8,9) by blast
  define k where "k = length ops"
  have "int k \<le> int own + int (others_left w)" using W(4) by (simp add: k_def)
  then have "int k * b \<le> (int own + int (others_left w)) * b" using b by (rule mult_right_mono)
  then have kb: "int k * b < n + (int (others_left w) + 1) * b" using W(5) by (simp add: distrib_right)
  have m: "metered b t0 ops" "run_ops fused ops ?l = (lw_limiter w', gs)" "lw_now w \<le> lw_now w'"
    using W(2) assms(6,8) metered_later by (auto simp: stretch_def)
  have M: "D + int k * b \<le> 2 ^ 53" using kb assms(12) by linarith
  have nz: "released_by (lw_now w') gs \<noteq> 0" and le: "(of_int n :: rat) \<le> of_int (released_by (lw_now w') gs)"
    using W(3) assms(7) by (linarith, simp only: of_int_le_iff)
  have bd: "of_int (released_by (lw_now w') gs)
      \<le> lm_tokens ?l + speed ?l * of_int (lw_now w' - t0 + 1) + 2 * of_nat k * slack ?l (of_int (D + int k * b))"
    using run_bounded [OF run assms(5,10,11) _ M, of ops "lw_now w'" fused] m(1,2) nz by (simp add: assms(8) k_def)
  have sl: "2 * of_nat k * slack ?l (of_int (D + int k * b)) = of_nat k * (of_int D + of_nat (k + 1) * of_int b) / 2 ^ 52"
    unfolding slack_def val64_def ulp1_def assms(8) [symmetric] by (simp add: algebra_simps)
  have sp: "speed ?l = (1 + 1 / 2 ^ 51) * (of_int (sint (lm_rate ?l)) / 10 ^ 9)"
    unfolding speed_def growth_def val64_def second_def by simp
  have "wait fused n (Some w) = (Some w', None)" using W(1) assms(7) by (simp add: wait_def)
  then show ?thesis using kb m(3) order_trans [OF le bd [unfolded sl sp]] by blast
qed

section \<open>A bucket of a megabyte per second\<close>

definition demo_limiter :: limiter where
  "demo_limiter = new_rate_limiter 0 1000000"

definition demo_ops :: "(int \<times> lim_op) list" where
  "demo_ops = [(1000000000, Reserve 200000), (1000000000, Allow 1000), (1000000000, Reserve 125000)]"

lemma demo_limiter: "demo_limiter = \<lparr>lm_rate = 1000000, lm_burst = 200000, lm_tokens = 0, lm_last = Some 0,
    lm_disabled = False, lm_closed = False\<rparr>"
  by (simp add: demo_limiter_def new_rate_limiter_def set_rate_def burst_of_def zero_limiter_def Let_def
      default_burst_window_def second_def max_chunk_def signed_divide_int_def float_of_def val64_def)

lemma demo_run: "snd (run_ops False demo_ops demo_limiter) = [(1000000000, 200000), (1125000000, 125000)]"
proof -
  have e: "fl (1 / 8) = 1 / 8" using fl_scale [of 1 3] by simp
  show ?thesis by (simp add: e demo_ops_def demo_limiter reserve_def allow_def refill_def needed_def off_def Let_def sub_time_def
      min_int64_def max_int64_def seconds_def second_def signed_divide_int_def signed_modulo_int_def
      float_of_def val64_def trunc_float_def)
qed

theorem admitted_bounded_witness:
  "released_by 1125000000 (snd (run_ops False demo_ops demo_limiter)) = 325000 \<and>
   of_int (released_by 1125000000 (snd (run_ops False demo_ops demo_limiter)))
     \<le> (0 :: rat) + (1 + 1 / 2 ^ 51) * (1000000 / 10 ^ 9) * of_int (1125000000 - 0 + 1) + of_nat (3 * 4) * 200000 / 2 ^ 52"
proof
  show "released_by 1125000000 (snd (run_ops False demo_ops demo_limiter)) = 325000"
    by (simp add: demo_run released_by_def)
  have "limiter_ok demo_limiter" unfolding demo_limiter_def by (rule limiter_ok_new)
  then show "of_int (released_by 1125000000 (snd (run_ops False demo_ops demo_limiter)))
     \<le> (0 :: rat) + (1 + 1 / 2 ^ 51) * (1000000 / 10 ^ 9) * of_int (1125000000 - 0 + 1) + of_nat (3 * 4) * 200000 / 2 ^ 52"
    using admitted_bounded [of demo_limiter 0 1125000000 demo_ops False]
    by (simp add: demo_limiter demo_ops_def)
qed

text \<open>After a reservation of a whole burst the bucket is in debt; another goroutine asks for a packet in between.\<close>

definition indebted :: lworld where
  "indebted = \<lparr>lw_limiter = fst (run_ops False [(0, Reserve 200000)] demo_limiter), lw_now = 0, lw_others = [[(5, Allow 1000)]]\<rparr>"

lemma indebted_limiter: "lw_limiter indebted = demo_limiter\<lparr>lm_tokens := - 200000\<rparr>"
proof -
  have "fl (- 200000) = - 200000" using fl_int [of "- 200000"] by simp
  then show ?thesis
    by (simp add: indebted_def demo_limiter reserve_def refill_def needed_def off_def Let_def sub_time_def
      min_int64_def max_int64_def seconds_def second_def signed_divide_int_def signed_modulo_int_def float_of_def val64_def)
qed

theorem wait_paced_witness:
  "\<exists>w' k. wait False 1000000 (Some indebted) = (Some w', None) \<and> 0 \<le> lw_now w' \<and> int k < 7
    \<and> (1000000 :: rat) \<le> - 200000 + (1 + 1 / 2 ^ 51) * (1000000 / 10 ^ 9) * of_int (lw_now w' + 1)
        + of_nat k * (200000 + of_nat (k + 1) * 200000) / 2 ^ 52"
proof -
  have "limiter_ok (lw_limiter indebted)"
    unfolding indebted_def by (simp add: limiter_ok_run demo_limiter_def limiter_ok_new del: run_ops.simps)
  moreover have "fair_others 200000 indebted" "others_left indebted = 1" "lw_now indebted = 0"
    by (simp_all add: indebted_def fair_others_def others_left_def metered_op_def)
  ultimately show ?thesis using wait_paced [of indebted 0 1000000 200000 200000 False] by (simp add: indebted_limiter demo_limiter)
qed

end
