(* ===== verification/NodeConfig.thy ===== *)
theory NodeConfig
  imports Billing
begin

text \<open>
  \<^verbatim>\<open>panelapi/node_config.go\<close>: the node configuration as the agent decodes it, with the
  field that is a string or an integer, the optional \<^verbatim>\<open>data\<close> wrapper, and the probing of
  node types. Values of Go's \<^verbatim>\<open>any\<close> are kept as JSON.
\<close>

section \<open>Types\<close>

record base_config =
  bc_push_interval :: int
  bc_pull_interval :: int

record ech_config =
  ech_enabled :: bool
  ech_conf :: "json option"
  ech_query_server_name :: "string option"
  ech_key :: string
  ech_key_path :: string
  ech_config_path :: "string option"

record tls_settings =
  ts_server_name :: string
  ts_server_port :: string
  ts_public_key :: string
  ts_private_key :: string
  ts_short_id :: string
  ts_allow_insecure :: bool
  ts_ech :: ech_config

record node_config =
  nc_protocol :: string
  nc_listen_ip :: string
  nc_server_port :: int
  nc_network :: string
  nc_network_config :: "json option"
  nc_tls :: int
  nc_flow :: string
  nc_decryption :: "string option"
  nc_tls_settings :: tls_settings
  nc_version :: int
  nc_host :: string
  nc_server_name :: string
  nc_up_mbps :: int
  nc_down_mbps :: int
  nc_obfs :: string
  nc_obfs_password :: string
  nc_base_config :: base_config

definition zero_base_config :: base_config where
  "zero_base_config = \<lparr>bc_push_interval = 0, bc_pull_interval = 0\<rparr>"

definition zero_ech :: ech_config where
  "zero_ech = \<lparr>ech_enabled = False, ech_conf = None, ech_query_server_name = None, ech_key = [],
     ech_key_path = [], ech_config_path = None\<rparr>"

definition zero_tls_settings :: tls_settings where
  "zero_tls_settings = \<lparr>ts_server_name = [], ts_server_port = [], ts_public_key = [], ts_private_key = [],
     ts_short_id = [], ts_allow_insecure = False, ts_ech = zero_ech\<rparr>"

definition zero_node_config :: node_config where
  "zero_node_config = \<lparr>nc_protocol = [], nc_listen_ip = [], nc_server_port = 0, nc_network = [],
     nc_network_config = None, nc_tls = 0, nc_flow = [], nc_decryption = None, nc_tls_settings = zero_tls_settings,
     nc_version = 0, nc_host = [], nc_server_name = [], nc_up_mbps = 0, nc_down_mbps = 0, nc_obfs = [],
     nc_obfs_password = [], nc_base_config = zero_base_config\<rparr>"

section \<open>Decoders\<close>

definition dec_string_int :: "string decoder" where
  "dec_string_int j v = (case j of JNull \<Rightarrow> ([], False) | JStr s \<Rightarrow> (s, False)
     | JNum s \<Rightarrow> (case atoi s of Some i \<Rightarrow> (itoa i, False) | None \<Rightarrow> (v, True))
     | _ \<Rightarrow> (v, True))"

definition dec_any :: "json option decoder" where
  "dec_any j v = (if j = JNull then None else Some j, False)"

definition dec_string_ptr :: "string option decoder" where
  "dec_string_ptr j v = (case j of JNull \<Rightarrow> (None, False) | JStr s \<Rightarrow> (Some s, False) | _ \<Rightarrow> (v, True))"

definition base_config_fields :: "base_config field list" where
  "base_config_fields = [(''push_interval'', field_of dec_int bc_push_interval (\<lambda>x. bc_push_interval_update (\<lambda>_. x))),
     (''pull_interval'', field_of dec_int bc_pull_interval (\<lambda>x. bc_pull_interval_update (\<lambda>_. x)))]"

definition ech_fields :: "ech_config field list" where
  "ech_fields = [(''enabled'', field_of dec_bool ech_enabled (\<lambda>x. ech_enabled_update (\<lambda>_. x))),
     (''config'', field_of dec_any ech_conf (\<lambda>x. ech_conf_update (\<lambda>_. x))),
     (''query_server_name'', field_of dec_string_ptr ech_query_server_name (\<lambda>x. ech_query_server_name_update (\<lambda>_. x))),
     (''key'', field_of dec_string ech_key (\<lambda>x. ech_key_update (\<lambda>_. x))),
     (''key_path'', field_of dec_string ech_key_path (\<lambda>x. ech_key_path_update (\<lambda>_. x))),
     (''config_path'', field_of dec_string_ptr ech_config_path (\<lambda>x. ech_config_path_update (\<lambda>_. x)))]"

definition tls_settings_fields :: "tls_settings field list" where
  "tls_settings_fields = [(''server_name'', field_of dec_string ts_server_name (\<lambda>x. ts_server_name_update (\<lambda>_. x))),
     (''server_port'', field_of dec_string_int ts_server_port (\<lambda>x. ts_server_port_update (\<lambda>_. x))),
     (''public_key'', field_of dec_string ts_public_key (\<lambda>x. ts_public_key_update (\<lambda>_. x))),
     (''private_key'', field_of dec_string ts_private_key (\<lambda>x. ts_private_key_update (\<lambda>_. x))),
     (''short_id'', field_of dec_string ts_short_id (\<lambda>x. ts_short_id_update (\<lambda>_. x))),
     (''allow_insecure'', field_of dec_bool ts_allow_insecure (\<lambda>x. ts_allow_insecure_update (\<lambda>_. x))),
     (''ech'', field_of (dec_struct ech_fields) ts_ech (\<lambda>x. ts_ech_update (\<lambda>_. x)))]"

definition node_config_fields :: "node_config field list" where
  "node_config_fields = [(''protocol'', field_of dec_string nc_protocol (\<lambda>x. nc_protocol_update (\<lambda>_. x))),
     (''listen_ip'', field_of dec_string nc_listen_ip (\<lambda>x. nc_listen_ip_update (\<lambda>_. x))),
     (''server_port'', field_of dec_int nc_server_port (\<lambda>x. nc_server_port_update (\<lambda>_. x))),
     (''network'', field_of dec_string nc_network (\<lambda>x. nc_network_update (\<lambda>_. x))),
     (''networkSettings'', field_of dec_any nc_network_config (\<lambda>x. nc_network_config_update (\<lambda>_. x))),
     (''tls'', field_of dec_int nc_tls (\<lambda>x. nc_tls_update (\<lambda>_. x))),
     (''flow'', field_of dec_string nc_flow (\<lambda>x. nc_flow_update (\<lambda>_. x))),
     (''decryption'', field_of dec_string_ptr nc_decryption (\<lambda>x. nc_decryption_update (\<lambda>_. x))),
     (''tls_settings'', field_of (dec_struct tls_settings_fields) nc_tls_settings (\<lambda>x. nc_tls_settings_update (\<lambda>_. x))),
     (''version'', field_of dec_int nc_version (\<lambda>x. nc_version_update (\<lambda>_. x))),
     (''host'', field_of dec_string nc_host (\<lambda>x. nc_host_update (\<lambda>_. x))),
     (''server_name'', field_of dec_string nc_server_name (\<lambda>x. nc_server_name_update (\<lambda>_. x))),
     (''up_mbps'', field_of dec_int nc_up_mbps (\<lambda>x. nc_up_mbps_update (\<lambda>_. x))),
     (''down_mbps'', field_of dec_int nc_down_mbps (\<lambda>x. nc_down_mbps_update (\<lambda>_. x))),
     (''obfs'', field_of dec_string nc_obfs (\<lambda>x. nc_obfs_update (\<lambda>_. x))),
     (''obfs-password'', field_of dec_string nc_obfs_password (\<lambda>x. nc_obfs_password_update (\<lambda>_. x))),
     (''base_config'', field_of (dec_struct base_config_fields) nc_base_config (\<lambda>x. nc_base_config_update (\<lambda>_. x)))]"

definition dec_node_config :: "node_config decoder" where
  "dec_node_config = dec_struct node_config_fields"

definition has_node_config :: "node_config \<Rightarrow> bool" where
  "has_node_config c \<longleftrightarrow> nc_protocol c \<noteq> [] \<or> nc_server_port c \<noteq> 0"

datatype fetch_error = TransportError | ConfigStatus nat string | BadBody | MissingConfig

definition decode_wrapped :: "json \<Rightarrow> fetch_error + node_config" where
  "decode_wrapped raw = (case dec_struct [(''data'', field_of dec_node_config id (\<lambda>x _. x))] raw zero_node_config of
     (_, True) \<Rightarrow> Inl BadBody
   | (c, False) \<Rightarrow> if has_node_config c then Inr c else Inl MissingConfig)"

definition decode_node_config :: "json \<Rightarrow> fetch_error + node_config" where
  "decode_node_config raw = (case dec_node_config raw zero_node_config of
     (c, False) \<Rightarrow> if has_node_config c then Inr c else decode_wrapped raw
   | (_, True) \<Rightarrow> decode_wrapped raw)"

record error_message =
  em_message :: string
  em_error :: string

definition error_message_fields :: "error_message field list" where
  "error_message_fields = [(''message'', field_of dec_string em_message (\<lambda>x. em_message_update (\<lambda>_. x))),
     (''error'', field_of dec_string em_error (\<lambda>x. em_error_update (\<lambda>_. x)))]"

definition error_text :: "string \<Rightarrow> string" where
  "error_text body = (let m = (case decode_prefix body of None \<Rightarrow> \<lparr>em_message = [], em_error = []\<rparr>
       | Some j \<Rightarrow> fst (dec_struct error_message_fields j \<lparr>em_message = [], em_error = []\<rparr>))
     in if trim_space (em_message m) \<noteq> [] then trim_space (em_message m) else trim_space (em_error m))"

definition fetch_node_config :: "'w transport \<Rightarrow> client \<Rightarrow> 'w \<Rightarrow> 'w \<times> (fetch_error + node_config)" where
  "fetch_node_config tr c w = (case http_get tr c ''/api/v1/server/UniProxy/config'' w of
     (w', HttpError) \<Rightarrow> (w', Inl TransportError)
   | (w', HttpResponse status body) \<Rightarrow>
       (w', if \<not> success status then Inl (ConfigStatus status (error_text body))
         else case decode_prefix body of None \<Rightarrow> Inl BadBody | Some raw \<Rightarrow> decode_node_config raw))"

fun probe_from :: "'w transport \<Rightarrow> string \<Rightarrow> string \<Rightarrow> string \<Rightarrow> string list \<Rightarrow> fetch_error \<Rightarrow> 'w \<Rightarrow>
    'w \<times> (fetch_error + string \<times> node_config)" where
  "probe_from tr base token node_id [] err w = (w, Inl err)"
| "probe_from tr base token node_id (t # ts) err w =
     (case fetch_node_config tr (new_client base token node_id t) w of
       (w', Inr cfg) \<Rightarrow> (w', Inr (t, cfg))
     | (w', Inl e) \<Rightarrow> probe_from tr base token node_id ts e w')"

definition probe_node_config :: "'w transport \<Rightarrow> string \<Rightarrow> string \<Rightarrow> string \<Rightarrow> 'w \<Rightarrow>
    'w \<times> (fetch_error + string \<times> node_config)" where
  "probe_node_config tr base token node_id =
     probe_from tr base token node_id [''vless'', ''hysteria2'', ''hysteria''] TransportError"

section \<open>Optional members\<close>

definition opt :: "string \<Rightarrow> bool \<Rightarrow> json \<Rightarrow> (string \<times> json) list" where
  "opt k b v = (if b then [(k, v)] else [])"

lemma put_nonempty_opt: "k \<notin> set (keys m) \<Longrightarrow> put_nonempty k v m = m @ opt k (v \<noteq> []) (JStr v)"
  by (simp add: put_nonempty_def opt_def mput_new)

lemma set_keys_opt: "set (keys (opt k b v)) = (if b then {k} else {})"
  by (simp add: opt_def)

lemma dec_opt:
  "find_field fs k = Some d \<Longrightarrow> dec_members fs (opt k b v) x = (if b then d v x else (x, False))"
  by (simp add: opt_def)

lemma sorted_entries_unique:
  assumes "set ys = set xs" and "sorted (keys ys)" and "distinct (keys ys)" and "distinct (keys xs)"
  shows "sorted_entries xs = ys"
proof (rule map_sorted_distinct_set_unique [of fst])
  have "inj_on fst (set xs)" using assms(4) by (simp add: distinct_map)
  then show "inj_on fst (set (sorted_entries xs) \<union> set ys)" by (simp add: sorted_entries_def assms(1))
qed (use assms in \<open>simp_all add: sorted_entries_def wf_sorted_entries [unfolded sorted_entries_def]\<close>)

lemma subseq_sorted:
  "subseq ks full \<Longrightarrow> sorted full \<Longrightarrow> distinct full \<Longrightarrow> set ks \<subseteq> set full \<and> sorted ks \<and> distinct ks"
  for ks :: "string list"
  by (induction rule: list_emb.induct) auto

lemma subseq_opt:
  "subseq ks full \<Longrightarrow> subseq (k # ks) (k # full)"
  "subseq ks full \<Longrightarrow> subseq (keys (opt k b v) @ ks) (k # full)"
  by (auto simp: opt_def)

end
