(* ===== verification/GoPath.thy ===== *)
theory GoPath
  imports Persist
begin

text \<open>
  What the agent's commands use of Go's \<^verbatim>\<open>path/filepath\<close>, \<^verbatim>\<open>os\<close> and
  \<^verbatim>\<open>flag\<close>: \<open>clean\<close>, \<open>dir\<close> and \<open>join_path\<close> on Unix paths, writing a file on a disk that
  can refuse or tear it, and a \<^verbatim>\<open>FlagSet\<close> of string flags.
\<close>

section \<open>Paths\<close>

fun split_where :: "(char \<Rightarrow> bool) \<Rightarrow> string \<Rightarrow> string list" where
  "split_where P [] = [[]]"
| "split_where P (c # cs) = (if P c then [] # split_where P cs
     else case split_where P cs of w # ws \<Rightarrow> (c # w) # ws | [] \<Rightarrow> [[c]])"

definition split_on :: "char \<Rightarrow> string \<Rightarrow> string list" where
  "split_on b = split_where (\<lambda>c. c = b)"

lemma split_where_nonempty [simp]: "split_where P s \<noteq> []"
  by (cases s) (auto split: list.split)

lemma split_where_none: "list_all (\<lambda>c. \<not> P c) w \<Longrightarrow> split_where P w = [w]"
  by (induction w) auto

lemma split_where_append: "list_all (\<lambda>c. \<not> P c) w \<Longrightarrow> P b \<Longrightarrow> split_where P (w @ b # s) = w # split_where P s"
  by (induction w) auto

text \<open>One element of a path, onto the elements kept so far, the last one first.\<close>

definition clean_step :: "bool \<Rightarrow> string \<Rightarrow> string list \<Rightarrow> string list" where
  "clean_step rooted el out = (if el = [] \<or> el = ''.'' then out
     else if el = ''..'' then
       (case out of x # xs \<Rightarrow> if x \<noteq> ''..'' then xs else el # out | [] \<Rightarrow> if rooted then [] else [el])
     else el # out)"

definition clean :: "string \<Rightarrow> string" where
  "clean path = (if path = [] then ''.'' else
     let rooted = (hd path = CHR ''/'');
       body = join ''/'' (rev (fold (clean_step rooted) (split_on CHR ''/'' path) []))
     in if rooted then CHR ''/'' # body else if body = [] then ''.'' else body)"

definition dir :: "string \<Rightarrow> string" where
  "dir path = clean (rev (dropWhile (\<lambda>c. c \<noteq> CHR ''/'') (rev path)))"

definition join_path :: "string \<Rightarrow> string \<Rightarrow> string" where
  "join_path d f = (if d \<noteq> [] then clean (d @ ''/'' @ f) else if f \<noteq> [] then clean f else [])"

lemma clean_nonempty [simp]: "clean path \<noteq> []"
  by (simp add: clean_def Let_def)

lemma dir_nonempty [simp]: "dir path \<noteq> []"
  by (simp add: dir_def)

lemma join_path_nonempty [simp]: "join_path (dir path) f \<noteq> []"
  by (simp add: join_path_def)

lemma clean_examples:
  "clean ''a//b/../c/.'' = ''a/c''" "clean ''/../a/'' = ''/a''" "clean ''../../a'' = ''../../a''"
  "dir ''/etc/mini/config.json'' = ''/etc/mini''" "dir ''config.json'' = ''.''"
  "join_path (dir ''config.json'') ''cert.pem'' = ''cert.pem''"
  by code_simp+

section \<open>Writing files\<close>

text \<open>A write succeeds, is refused before the file is touched, or stops after some bytes of the
  truncated file, its failing \<^verbatim>\<open>Close\<close> included.\<close>

datatype write_outcome = WriteOk | OpenFails | WriteFails nat

record disk =
  dk_mkdir_fails :: "string \<Rightarrow> bool"
  dk_write :: "string \<Rightarrow> write_outcome"

definition sound_disk :: disk where
  "sound_disk = \<lparr>dk_mkdir_fails = (\<lambda>_. False), dk_write = (\<lambda>_. WriteOk)\<rparr>"

definition write_file :: "disk \<Rightarrow> string \<Rightarrow> string \<Rightarrow> fs \<Rightarrow> fs \<times> bool" where
  "write_file disk path data files = (case dk_write disk path of
     WriteOk \<Rightarrow> (files(path \<mapsto> data), True)
   | OpenFails \<Rightarrow> (files, False)
   | WriteFails n \<Rightarrow> (files(path \<mapsto> take n data), False))"

lemma write_file_other: "write_file disk path data files = (files', b) \<Longrightarrow> p \<noteq> path \<Longrightarrow> files' p = files p"
  by (auto simp: write_file_def split: write_outcome.splits)

lemma write_file_ok: "write_file disk path data files = (files', True) \<Longrightarrow> files' = files(path \<mapsto> data)"
  by (auto simp: write_file_def split: write_outcome.splits)

lemma write_file_failed: "write_file disk path data files = (files', False) \<Longrightarrow>
    files' = files \<or> (\<exists>n. dk_write disk path = WriteFails n \<and> files' = files(path \<mapsto> take n data))"
  by (auto simp: write_file_def split: write_outcome.splits)

section \<open>String flags\<close>

text \<open>\<^verbatim>\<open>FlagSet.Parse\<close> over flags that all take a string: parsing stops at the first argument
  that is no flag or at \<^verbatim>\<open>--\<close>; an unknown name, \<^verbatim>\<open>-help\<close> included, a malformed
  flag or a missing value is an error.\<close>

fun parse_flags :: "(string \<times> (string \<Rightarrow> 'o \<Rightarrow> 'o)) list \<Rightarrow> string list \<Rightarrow> 'o \<Rightarrow> 'o option" where
  "parse_flags fs [] opts = Some opts"
| "parse_flags fs (a # args) opts =
     (if length a < 2 \<or> hd a \<noteq> CHR ''-'' \<or> a = ''--'' then Some opts
      else let name = (if a ! 1 = CHR ''-'' then drop 2 a else drop 1 a); flag = takeWhile (\<lambda>c. c \<noteq> CHR ''='') name in
        if name = [] \<or> hd name = CHR ''-'' \<or> hd name = CHR ''='' then None
        else case map_of fs flag of None \<Rightarrow> None
        | Some put \<Rightarrow>
            if flag \<noteq> name then parse_flags fs args (put (drop (Suc (length flag)) name) opts)
            else (case args of [] \<Rightarrow> None | v # rest \<Rightarrow> parse_flags fs rest (put v opts)))"

end
