(* ===== verification/AgentConfig.thy ===== *)
theory AgentConfig
  imports NodeConfig GoPath
begin

text \<open>
  \<^verbatim>\<open>cmd/mini-sb-agent/xboard_config.go\<close>: the agent's sing-box configuration from the
  panel's node configuration, with the command that writes it. The self-signed certificate comes
  from the argument \<open>pem\<close>, which gives the two PEM texts for a server name, and the argument
  \<open>disk\<close> says which directories and files cannot be written.
\<close>

section \<open>Options and modes\<close>

record gen_options =
  go_panel_url :: string
  go_panel_token :: string
  go_panel_node_id :: string
  go_panel_node_type :: string
  go_node_mode :: string
  go_vless_node_id :: string
  go_hy2_node_id :: string
  go_out :: string
  go_node_type_out :: string
  go_cert :: string
  go_key :: string

definition normalize_node_mode :: "string \<Rightarrow> string" where
  "normalize_node_mode v = (let s = to_lower (trim_space v) in
     if s \<in> set [''vless'', ''vless-reality'', ''reality''] then ''vless''
     else if s \<in> set [''hy2'', ''hysteria'', ''hysteria2''] then ''hy2''
     else if s \<in> set [''both'', ''dual'', ''all''] then ''both''
     else s)"

definition default_listen :: "string \<Rightarrow> string" where
  "default_listen listen = (if listen = [] then ''::'' else listen)"

datatype gen_error = MissingNodeId string | FetchError fetch_error | MissingPort | MissingKey
  | BadVersion int | BadProtocol string | BadMode | CertError | EmptyCertPath | DirError string | WriteError string

section \<open>Inbounds\<close>

definition handshake_port :: "string \<Rightarrow> int" where
  "handshake_port s = (if s \<noteq> [] then (case atoi s of Some p \<Rightarrow> if 0 < p then p else 443 | None \<Rightarrow> 443) else 443)"

definition vless_inbound :: "node_config \<Rightarrow> string \<Rightarrow> gen_error + json" where
  "vless_inbound cfg listen = (let t = nc_tls_settings cfg in
     if nc_server_port cfg \<le> 0 then Inl MissingPort
     else if ts_private_key t = [] then Inl MissingKey
     else let name = first_non_empty [ts_server_name t, ''www.microsoft.com''];
         short_ids = (if ts_short_id t \<noteq> [] then [ts_short_id t] else []);
         handshake = jmap [(''server'', JStr name), (''server_port'', enc_int (handshake_port (ts_server_port t)))];
         reality = jmap [(''enabled'', JBool True), (''handshake'', handshake),
           (''private_key'', JStr (ts_private_key t)), (''short_id'', JArr (map JStr short_ids))]
       in Inr (jmap [(''type'', JStr ''vless''), (''tag'', JStr ''vless-in''), (''listen'', JStr listen),
         (''listen_port'', enc_int (nc_server_port cfg)), (''users'', JArr []),
         (''tls'', jmap [(''enabled'', JBool True), (''server_name'', JStr name), (''reality'', reality)])]))"

definition cert_paths :: "gen_options \<Rightarrow> string \<times> string" where
  "cert_paths opts = (let d = dir (go_out opts) in
     (if go_cert opts = [] then join_path d ''cert.pem'' else go_cert opts,
      if go_key opts = [] then join_path d ''key.pem'' else go_key opts))"

type_synonym pem_source = "string \<Rightarrow> (string \<times> string) option"

definition write_or :: "disk \<Rightarrow> string \<Rightarrow> string \<Rightarrow> fs \<Rightarrow> fs \<times> gen_error option" where
  "write_or disk path data files = (case write_file disk path data files of
     (files', ok) \<Rightarrow> (files', if ok then None else Some (WriteError path)))"

definition ensure_self_signed_cert :: "disk \<Rightarrow> pem_source \<Rightarrow> string \<Rightarrow> string \<Rightarrow> string \<Rightarrow> fs \<Rightarrow> fs \<times> gen_error option" where
  "ensure_self_signed_cert disk pem cert key name files =
     (if cert = [] \<or> key = [] then (files, Some EmptyCertPath)
      else if files cert \<noteq> None \<and> files key \<noteq> None then (files, None)
      else if dk_mkdir_fails disk (dir cert) then (files, Some (DirError (dir cert)))
      else if dk_mkdir_fails disk (dir key) then (files, Some (DirError (dir key)))
      else case pem name of None \<Rightarrow> (files, Some CertError)
      | Some (c, k) \<Rightarrow> (case write_or disk cert c files of
          (files1, Some e) \<Rightarrow> (files1, Some e)
        | (files1, None) \<Rightarrow> write_or disk key k files1))"

definition put_positive :: "string \<Rightarrow> int \<Rightarrow> (string, json) gomap \<Rightarrow> (string, json) gomap" where
  "put_positive k i m = (if 0 < i then mput k (enc_int i) m else m)"

definition hy2_inbound :: "disk \<Rightarrow> pem_source \<Rightarrow> gen_options \<Rightarrow> node_config \<Rightarrow> string \<Rightarrow> fs \<Rightarrow> fs \<times> (gen_error + json)" where
  "hy2_inbound disk pem opts cfg listen files =
     (if nc_server_port cfg \<le> 0 then (files, Inl MissingPort)
      else let (cert, key) = cert_paths opts;
          name = first_non_empty [nc_server_name cfg, ts_server_name (nc_tls_settings cfg), ''bing.com'']
        in (case ensure_self_signed_cert disk pem cert key name files of
          (files', Some e) \<Rightarrow> (files', Inl e)
        | (files', None) \<Rightarrow>
            (let m = [(''type'', JStr ''hysteria2''), (''tag'', JStr ''hy2-in''), (''listen'', JStr listen),
                 (''listen_port'', enc_int (nc_server_port cfg)), (''users'', JArr []),
                 (''tls'', jmap [(''enabled'', JBool True), (''server_name'', JStr name),
                   (''certificate_path'', JStr cert), (''key_path'', JStr key)])];
               m = put_positive ''up_mbps'' (nc_up_mbps cfg) m;
               m = put_positive ''down_mbps'' (nc_down_mbps cfg) m;
               m = (if nc_obfs cfg \<noteq> [] \<and> nc_obfs_password cfg \<noteq> []
                 then mput ''obfs'' (jmap [(''type'', JStr (nc_obfs cfg)), (''password'', JStr (nc_obfs_password cfg))]) m else m)
             in (files', Inr (jmap m)))))"

definition inbound_from_node_config :: "disk \<Rightarrow> pem_source \<Rightarrow> gen_options \<Rightarrow> node_config \<Rightarrow> string \<Rightarrow> fs \<Rightarrow> fs \<times> (gen_error + json)" where
  "inbound_from_node_config disk pem opts cfg listen files = (let proto = to_lower (nc_protocol cfg) in
     if proto = ''vless'' then (files, vless_inbound cfg listen)
     else if proto = ''hysteria'' \<or> proto = ''hysteria2'' then
       (if nc_version cfg \<noteq> 0 \<and> nc_version cfg \<noteq> 2 then (files, Inl (BadVersion (nc_version cfg)))
        else hy2_inbound disk pem opts cfg listen files)
     else (files, Inl (BadProtocol (nc_protocol cfg))))"

section \<open>The whole configuration\<close>

definition sing_box_config :: "json list \<Rightarrow> json" where
  "sing_box_config inbounds = jmap
     [(''log'', jmap [(''level'', JStr ''warn''), (''timestamp'', JBool True)]),
      (''inbounds'', JArr inbounds),
      (''outbounds'', JArr [jmap [(''type'', JStr ''direct''), (''tag'', JStr ''direct'')],
         jmap [(''type'', JStr ''block''), (''tag'', JStr ''block'')],
         jmap [(''type'', JStr ''dns''), (''tag'', JStr ''dns-out'')]]),
      (''route'', jmap [(''final'', JStr ''direct'')])]"

definition fetched_inbound ::
  "disk \<Rightarrow> pem_source \<Rightarrow> gen_options \<Rightarrow> fetch_error + node_config \<Rightarrow> fs \<Rightarrow> fs \<times> (gen_error + json)" where
  "fetched_inbound disk pem opts r files = (case r of Inl e \<Rightarrow> (files, Inl (FetchError e))
     | Inr cfg \<Rightarrow> inbound_from_node_config disk pem opts cfg (default_listen (nc_listen_ip cfg)) files)"

definition generation_mode :: "gen_options \<Rightarrow> string" where
  "generation_mode opts = (let m = normalize_node_mode (go_node_mode opts);
     m = (if m = [] \<or> m = ''auto'' then normalize_node_mode (go_panel_node_type opts) else m)
     in if m = [] \<or> m = ''auto'' then ''vless'' else m)"

definition opts_client :: "gen_options \<Rightarrow> string \<Rightarrow> string \<Rightarrow> client" where
  "opts_client opts node_id node_type = new_client (go_panel_url opts) (go_panel_token opts) node_id node_type"

definition generate_inbounds :: "'w transport \<Rightarrow> disk \<Rightarrow> pem_source \<Rightarrow> gen_options \<Rightarrow> 'w \<Rightarrow> fs \<Rightarrow>
    'w \<times> fs \<times> (gen_error + json list)" where
  "generate_inbounds tr disk pem opts w files =
     (let mode = generation_mode opts; one = map_sum id (\<lambda>j. [j]) in
      if mode = ''vless'' then
        (let node = first_non_empty [go_vless_node_id opts, go_panel_node_id opts] in
         if node = [] then (w, files, Inl (MissingNodeId mode))
         else case fetch_node_config tr (opts_client opts node ''vless'') w of (w1, r) \<Rightarrow>
           (case fetched_inbound disk pem opts r files of (files1, i) \<Rightarrow> (w1, files1, one i)))
      else if mode = ''hy2'' then
        (let node = first_non_empty [go_hy2_node_id opts, go_panel_node_id opts] in
         if node = [] then (w, files, Inl (MissingNodeId mode))
         else case fetch_node_config tr (opts_client opts node ''hysteria'') w of (w1, r) \<Rightarrow>
           (case fetched_inbound disk pem opts r files of (files1, i) \<Rightarrow> (w1, files1, one i)))
      else if mode = ''both'' then
        (let vless = first_non_empty [go_vless_node_id opts, go_panel_node_id opts]; hy2 = go_hy2_node_id opts in
         if vless = [] \<or> hy2 = [] then (w, files, Inl (MissingNodeId mode))
         else case fetch_node_config tr (opts_client opts vless ''vless'') w of
           (w1, Inl e) \<Rightarrow> (w1, files, Inl (FetchError e))
         | (w1, Inr vc) \<Rightarrow> (case fetch_node_config tr (opts_client opts hy2 ''hysteria'') w1 of
             (w2, Inl e) \<Rightarrow> (w2, files, Inl (FetchError e))
           | (w2, Inr hc) \<Rightarrow> (case inbound_from_node_config disk pem opts vc (default_listen (nc_listen_ip vc)) files of
               (files1, Inl e) \<Rightarrow> (w2, files1, Inl e)
             | (files1, Inr i) \<Rightarrow> (case inbound_from_node_config disk pem opts hc (default_listen (nc_listen_ip hc)) files1 of
                 (files2, Inl e) \<Rightarrow> (w2, files2, Inl e)
               | (files2, Inr j) \<Rightarrow> (w2, files2, Inr [i, j])))))
      else (w, files, Inl BadMode))"

definition build_sing_box_config_from_node :: "disk \<Rightarrow> pem_source \<Rightarrow> node_config \<Rightarrow> gen_options \<Rightarrow> fs \<Rightarrow> fs \<times> (gen_error + string)" where
  "build_sing_box_config_from_node disk pem cfg opts files =
     (case inbound_from_node_config disk pem opts cfg (default_listen (nc_listen_ip cfg)) files of
        (files', Inl e) \<Rightarrow> (files', Inl e)
      | (files', Inr inbound) \<Rightarrow> (files', Inr (marshal_indent (sing_box_config [inbound]))))"

text \<open>The two output files, each after its directory has been made; \<open>write_under\<close> is a
  \<^verbatim>\<open>MkdirAll\<close> and a \<^verbatim>\<open>WriteFile\<close>.\<close>

definition write_under :: "disk \<Rightarrow> string \<Rightarrow> string \<Rightarrow> fs \<Rightarrow> fs \<times> gen_error option" where
  "write_under disk path data files = (if dk_mkdir_fails disk (dir path) then (files, Some (DirError (dir path)))
     else write_or disk path data files)"

definition generate_xboard_config :: "'w transport \<Rightarrow> disk \<Rightarrow> pem_source \<Rightarrow> gen_options \<Rightarrow> 'w \<Rightarrow> fs \<Rightarrow>
    'w \<times> fs \<times> (gen_error + string)" where
  "generate_xboard_config tr disk pem opts w files = (case generate_inbounds tr disk pem opts w files of
     (w', files1, Inl e) \<Rightarrow> (w', files1, Inl e)
   | (w', files1, Inr inbounds) \<Rightarrow>
       (case write_under disk (go_out opts) (marshal_indent (sing_box_config inbounds)) files1 of
          (files2, Some e) \<Rightarrow> (w', files2, Inl e)
        | (files2, None) \<Rightarrow>
            if go_node_type_out opts = [] then (w', files2, Inr (generation_mode opts))
            else (case write_under disk (go_node_type_out opts) (generation_mode opts @ [CHR 0x0A]) files2 of
                (files3, Some e) \<Rightarrow> (w', files3, Inl e)
              | (files3, None) \<Rightarrow> (w', files3, Inr (generation_mode opts)))))"

section \<open>The command\<close>

definition gen_flags :: "(string \<times> (string \<Rightarrow> gen_options \<Rightarrow> gen_options)) list" where
  "gen_flags = [(''panel-url'', \<lambda>v. go_panel_url_update (\<lambda>_. v)), (''panel-token'', \<lambda>v. go_panel_token_update (\<lambda>_. v)),
     (''panel-node-id'', \<lambda>v. go_panel_node_id_update (\<lambda>_. v)), (''panel-node-type'', \<lambda>v. go_panel_node_type_update (\<lambda>_. v)),
     (''node-mode'', \<lambda>v. go_node_mode_update (\<lambda>_. v)), (''vless-node-id'', \<lambda>v. go_vless_node_id_update (\<lambda>_. v)),
     (''hy2-node-id'', \<lambda>v. go_hy2_node_id_update (\<lambda>_. v)), (''out'', \<lambda>v. go_out_update (\<lambda>_. v)),
     (''node-type-out'', \<lambda>v. go_node_type_out_update (\<lambda>_. v)), (''cert'', \<lambda>v. go_cert_update (\<lambda>_. v)),
     (''key'', \<lambda>v. go_key_update (\<lambda>_. v))]"

definition default_options :: gen_options where
  "default_options = \<lparr>go_panel_url = [], go_panel_token = [], go_panel_node_id = [], go_panel_node_type = [],
     go_node_mode = ''vless'', go_vless_node_id = [], go_hy2_node_id = [], go_out = ''config.generated.json'',
     go_node_type_out = [], go_cert = [], go_key = []\<rparr>"

definition settle_mode :: "gen_options \<Rightarrow> gen_options" where
  "settle_mode opts = (let m = (if go_node_mode opts = [] \<and> go_panel_node_type opts \<noteq> []
       then normalize_node_mode (go_panel_node_type opts) else go_node_mode opts)
     in opts\<lparr>go_node_mode := (if m = [] then ''vless'' else m)\<rparr>)"

text \<open>The exit code, with what the network and the file system have become; the messages on standard
  output and error are left out.\<close>

definition run_xboard_generate_config :: "'w transport \<Rightarrow> disk \<Rightarrow> pem_source \<Rightarrow> string list \<Rightarrow> 'w \<Rightarrow> fs \<Rightarrow>
    'w \<times> fs \<times> nat" where
  "run_xboard_generate_config tr disk pem args w files = (case parse_flags gen_flags args default_options of
     None \<Rightarrow> (w, files, 2)
   | Some opts \<Rightarrow>
       if go_panel_url opts = [] \<or> go_panel_token opts = [] \<or> go_out opts = [] then (w, files, 2)
       else (case generate_xboard_config tr disk pem (settle_mode opts) w files of
           (w', files', Inl e) \<Rightarrow> (w', files', 1)
         | (w', files', Inr mode) \<Rightarrow> (w', files', 0)))"

end
