(* ===== verification/ConfigEndToEnd.thy ===== *)
theory ConfigEndToEnd
  imports AgentConfig
begin

text \<open>
  The node configuration from the server's store to the agent's inbound: the object that
  \<^verbatim>\<open>NodeConfigResponse\<close> builds, in the order Marshal writes it, decoded by
  \<^verbatim>\<open>decodeNodeConfig\<close> and turned into an inbound.
\<close>

section \<open>The VLESS response\<close>

definition vless_ts_sorted :: "tls_cfg \<Rightarrow> (string \<times> json) list" where
  "vless_ts_sorted t = opt ''allow_insecure'' (tls_allow_insecure t) (JBool True)
     @ opt ''private_key'' (tls_private_key t \<noteq> []) (JStr (tls_private_key t))
     @ opt ''public_key'' (tls_public_key t \<noteq> []) (JStr (tls_public_key t))
     @ opt ''server_name'' (tls_server_name t \<noteq> []) (JStr (tls_server_name t))
     @ opt ''server_port'' (0 < tls_server_port t) (JStr (itoa (tls_server_port t)))
     @ opt ''short_id'' (tls_short_id t \<noteq> []) (JStr (tls_short_id t)) @ []"

lemma mput_opt: "k \<notin> set (keys m) \<Longrightarrow> (if b then mput k v m else m) = m @ opt k b v"
  by (simp add: opt_def mput_new)

lemma vless_ts_members:
  "vless_tls_settings t = opt ''server_name'' (tls_server_name t \<noteq> []) (JStr (tls_server_name t))
     @ opt ''server_port'' (0 < tls_server_port t) (JStr (itoa (tls_server_port t)))
     @ opt ''public_key'' (tls_public_key t \<noteq> []) (JStr (tls_public_key t))
     @ opt ''private_key'' (tls_private_key t \<noteq> []) (JStr (tls_private_key t))
     @ opt ''short_id'' (tls_short_id t \<noteq> []) (JStr (tls_short_id t))
     @ opt ''allow_insecure'' (tls_allow_insecure t) (JBool True)"
  by (cases "tls_server_name t = []"; cases "0 < tls_server_port t"; cases "tls_public_key t = []";
      cases "tls_private_key t = []"; cases "tls_short_id t = []"; cases "tls_allow_insecure t";
      simp add: put_nonempty_def opt_def vless_tls_settings_def)

lemma vless_ts_order: "sorted_entries (vless_tls_settings t) = vless_ts_sorted t"
proof (rule sorted_entries_unique)
  let ?full = "[''allow_insecure'', ''private_key'', ''public_key'', ''server_name'', ''server_port'', ''short_id'']"
  have "subseq (keys (vless_ts_sorted t)) ?full"
    unfolding vless_ts_sorted_def map_append by (intro subseq_opt) simp
  moreover have "sorted ?full" "distinct ?full" by code_simp+
  ultimately show "sorted (keys (vless_ts_sorted t))" "distinct (keys (vless_ts_sorted t))"
    using subseq_sorted by blast+
  show "set (vless_ts_sorted t) = set (vless_tls_settings t)"
    unfolding vless_ts_sorted_def vless_ts_members by auto
  show "distinct (keys (vless_tls_settings t))"
    unfolding vless_ts_members by (auto simp: opt_def)
qed

lemma dec_vless_ts:
  "dec_struct tls_settings_fields (jmap (vless_tls_settings t)) zero_tls_settings =
     (\<lparr>ts_server_name = tls_server_name t,
       ts_server_port = (if 0 < tls_server_port t then itoa (tls_server_port t) else []),
       ts_public_key = tls_public_key t, ts_private_key = tls_private_key t, ts_short_id = tls_short_id t,
       ts_allow_insecure = tls_allow_insecure t, ts_ech = zero_ech\<rparr>, False)"
  by (simp add: jmap_def vless_ts_order vless_ts_sorted_def dec_members_append dec_opt tls_settings_fields_def
      field_of_def zero_tls_settings_def dec_string_int_def)

definition sync_of :: "node_entry \<Rightarrow> int" where
  "sync_of e = (if rt_sync_interval (ne_runtime e) \<le> 0 then 60 else rt_sync_interval (ne_runtime e))"

definition base_json :: "node_entry \<Rightarrow> json" where
  "base_json e = jmap [(''push_interval'', enc_int (sync_of e)), (''pull_interval'', enc_int (sync_of e))]"

definition vless_sorted :: "node_entry \<Rightarrow> (string \<times> json) list" where
  "vless_sorted e = opt ''base_config'' True (base_json e)
     @ opt ''decryption'' (proto_decryption (ne_protocol e) \<noteq> []) (JStr (proto_decryption (ne_protocol e)))
     @ opt ''flow'' (proto_flow (ne_protocol e) \<noteq> []) (JStr (proto_flow (ne_protocol e)))
     @ opt ''listen_ip'' True (JStr (srv_listen (ne_server e)))
     @ opt ''network'' True (JStr (first_non_empty [proto_network (ne_protocol e), ''tcp'']))
     @ opt ''protocol'' True (JStr ''vless'')
     @ opt ''server_port'' True (enc_int (srv_port (ne_server e)))
     @ opt ''tls'' True (enc_int (if tls_enabled (ne_tls e) then 2 else 0))
     @ opt ''tls_settings'' (vless_tls_settings (ne_tls e) \<noteq> []) (jmap (vless_tls_settings (ne_tls e))) @ []"

lemma vless_members:
  assumes "normalize_node_type (ne_type e) = ''vless''" and "0 < srv_port (ne_server e)"
  shows "config_members e = [(''protocol'', JStr ''vless''), (''listen_ip'', JStr (srv_listen (ne_server e))),
       (''server_port'', enc_int (srv_port (ne_server e))),
       (''network'', JStr (first_non_empty [proto_network (ne_protocol e), ''tcp'']))]
     @ opt ''flow'' (proto_flow (ne_protocol e) \<noteq> []) (JStr (proto_flow (ne_protocol e)))
     @ opt ''decryption'' (proto_decryption (ne_protocol e) \<noteq> []) (JStr (proto_decryption (ne_protocol e)))
     @ [(''tls'', enc_int (if tls_enabled (ne_tls e) then 2 else 0))]
     @ opt ''tls_settings'' (vless_tls_settings (ne_tls e) \<noteq> []) (jmap (vless_tls_settings (ne_tls e)))
     @ [(''base_config'', base_json e)]"
  using assms
  by (cases "proto_flow (ne_protocol e) = []"; cases "proto_decryption (ne_protocol e) = []";
      cases "vless_tls_settings (ne_tls e) = []";
      simp add: config_members_def Let_def put_nonempty_def put_settings_def opt_def base_json_def sync_of_def
        default_sync_interval_def)

lemma vless_order:
  assumes "normalize_node_type (ne_type e) = ''vless''" and "0 < srv_port (ne_server e)"
  shows "sorted_entries (config_members e) = vless_sorted e"
proof (rule sorted_entries_unique)
  let ?full = "[''base_config'', ''decryption'', ''flow'', ''listen_ip'', ''network'', ''protocol'', ''server_port'',
    ''tls'', ''tls_settings'']"
  have "subseq (keys (vless_sorted e)) ?full"
    unfolding vless_sorted_def map_append by (intro subseq_opt) simp
  moreover have "sorted ?full" "distinct ?full" by code_simp+
  ultimately show "sorted (keys (vless_sorted e))" "distinct (keys (vless_sorted e))"
    using subseq_sorted by blast+
  show "set (vless_sorted e) = set (config_members e)"
    unfolding vless_sorted_def vless_members [OF assms] by (auto simp: opt_def)
  show "distinct (keys (config_members e))"
    unfolding vless_members [OF assms] by (auto simp: opt_def)
qed

definition vless_config :: "node_entry \<Rightarrow> node_config" where
  "vless_config e = zero_node_config\<lparr>nc_protocol := ''vless'', nc_listen_ip := srv_listen (ne_server e),
     nc_server_port := srv_port (ne_server e),
     nc_network := (if proto_network (ne_protocol e) \<noteq> [] then proto_network (ne_protocol e) else ''tcp''),
     nc_tls := (if tls_enabled (ne_tls e) then 2 else 0), nc_flow := proto_flow (ne_protocol e),
     nc_decryption := (if proto_decryption (ne_protocol e) \<noteq> [] then Some (proto_decryption (ne_protocol e)) else None),
     nc_tls_settings := \<lparr>ts_server_name = tls_server_name (ne_tls e),
       ts_server_port = (if 0 < tls_server_port (ne_tls e) then itoa (tls_server_port (ne_tls e)) else []),
       ts_public_key = tls_public_key (ne_tls e), ts_private_key = tls_private_key (ne_tls e),
       ts_short_id = tls_short_id (ne_tls e), ts_allow_insecure = tls_allow_insecure (ne_tls e), ts_ech = zero_ech\<rparr>,
     nc_base_config := \<lparr>bc_push_interval = sync_of e, bc_pull_interval = sync_of e\<rparr>\<rparr>"

lemma good_sync: "good_entry e \<Longrightarrow> in_int64 (sync_of e)"
  by (auto simp: sync_of_def good_entry_def good_runtime_def in_int64_def min_int64_def max_int64_def)

lemma base_sorted: "sorted_entries [(''push_interval'', p), (''pull_interval'', q)] = [(''pull_interval'', q), (''push_interval'', p)]"
proof -
  have "''pull_interval'' \<le> ''push_interval'' \<and> \<not> ''push_interval'' \<le> ''pull_interval''" by code_simp
  then show ?thesis by (simp add: sorted_entries_def)
qed

lemma dec_base: "in_int64 (sync_of e) \<Longrightarrow>
  dec_struct base_config_fields (base_json e) v = (\<lparr>bc_push_interval = sync_of e, bc_pull_interval = sync_of e\<rparr>, False)"
  by (cases v) (simp add: base_json_def jmap_def base_sorted base_config_fields_def field_of_def)

lemma small_int64 [simp]: "in_int64 2"
  by (simp add: in_int64_def min_int64_def max_int64_def)

lemma empty_vless_ts: "vless_tls_settings t = [] \<Longrightarrow>
   tls_server_name t = [] \<and> tls_server_port t \<le> 0 \<and> tls_public_key t = [] \<and> tls_private_key t = []
   \<and> tls_short_id t = [] \<and> \<not> tls_allow_insecure t"
  unfolding vless_ts_members by (auto simp: opt_def split: if_splits)

lemma dec_vless_config:
  assumes "normalize_node_type (ne_type e) = ''vless''" and "valid_entry e" and "good_entry e"
  shows "dec_node_config (node_config_response e) zero_node_config = (vless_config e, False)"
proof -
  have p: "0 < srv_port (ne_server e)" and p2: "in_int64 (srv_port (ne_server e))"
    using assms(2,3) by (auto simp: valid_entry_def good_entry_def good_server_def)
  show ?thesis
    using p2 good_sync [OF assms(3)] empty_vless_ts [of "ne_tls e"]
    by (cases "vless_tls_settings (ne_tls e) = []")
      (simp_all add: node_config_response_def jmap_def [of "config_members e"] vless_order [OF assms(1) p] vless_sorted_def dec_node_config_def
        node_config_fields_def dec_members_append dec_opt field_of_def dec_base dec_vless_ts [unfolded zero_tls_settings_def]
        vless_config_def zero_node_config_def dec_string_ptr_def zero_tls_settings_def)
qed

section \<open>The Hysteria2 response\<close>

definition hy2_settings :: "tls_cfg \<Rightarrow> (string \<times> json) list" where
  "hy2_settings t = opt ''server_name'' (tls_server_name t \<noteq> []) (JStr (tls_server_name t))
     @ opt ''allow_insecure'' (tls_allow_insecure t) (JBool True)"

lemma dec_hy2_settings:
  "dec_struct tls_settings_fields (jmap (hy2_settings t)) zero_tls_settings =
     (zero_tls_settings\<lparr>ts_server_name := tls_server_name t, ts_allow_insecure := tls_allow_insecure t\<rparr>, False)"
proof -
  have "sorted_entries (hy2_settings t) = opt ''allow_insecure'' (tls_allow_insecure t) (JBool True)
      @ opt ''server_name'' (tls_server_name t \<noteq> []) (JStr (tls_server_name t)) @ []" (is "_ = ?ys")
  proof (rule sorted_entries_unique)
    have "subseq (keys ?ys) [''allow_insecure'', ''server_name'']"
      unfolding map_append by (intro subseq_opt) simp
    moreover have "sorted [''allow_insecure'', ''server_name'']" "distinct [''allow_insecure'', ''server_name'']" by code_simp+
    ultimately show "sorted (keys ?ys)" "distinct (keys ?ys)" using subseq_sorted by blast+
  qed (auto simp: hy2_settings_def opt_def)
  then show ?thesis
    by (simp add: jmap_def dec_members_append dec_opt tls_settings_fields_def field_of_def zero_tls_settings_def)
qed

definition hy2_sorted :: "node_entry \<Rightarrow> (string \<times> json) list" where
  "hy2_sorted e = opt ''base_config'' True (base_json e)
     @ opt ''listen_ip'' True (JStr (srv_listen (ne_server e)))
     @ opt ''protocol'' True (JStr ''hysteria'')
     @ opt ''server_name'' (tls_server_name (ne_tls e) \<noteq> []) (JStr (tls_server_name (ne_tls e)))
     @ opt ''server_port'' True (enc_int (srv_port (ne_server e)))
     @ opt ''tls_settings'' (hy2_settings (ne_tls e) \<noteq> []) (jmap (hy2_settings (ne_tls e)))
     @ opt ''version'' True (enc_int 2) @ []"

lemma hy2_members:
  assumes "normalize_node_type (ne_type e) = ''hy2''" and "0 < srv_port (ne_server e)"
  shows "config_members e = [(''protocol'', JStr ''hysteria''), (''version'', enc_int 2),
       (''server_port'', enc_int (srv_port (ne_server e))), (''listen_ip'', JStr (srv_listen (ne_server e)))]
     @ opt ''server_name'' (tls_server_name (ne_tls e) \<noteq> []) (JStr (tls_server_name (ne_tls e)))
     @ opt ''tls_settings'' (hy2_settings (ne_tls e) \<noteq> []) (jmap (hy2_settings (ne_tls e)))
     @ [(''base_config'', base_json e)]"
  using assms
  by (cases "tls_server_name (ne_tls e) = []"; cases "tls_allow_insecure (ne_tls e)";
      simp add: config_members_def Let_def put_nonempty_def put_settings_def opt_def base_json_def sync_of_def
        default_sync_interval_def hy2_settings_def)

lemma hy2_order:
  assumes "normalize_node_type (ne_type e) = ''hy2''" and "0 < srv_port (ne_server e)"
  shows "sorted_entries (config_members e) = hy2_sorted e"
proof (rule sorted_entries_unique)
  let ?full = "[''base_config'', ''listen_ip'', ''protocol'', ''server_name'', ''server_port'', ''tls_settings'', ''version'']"
  have "subseq (keys (hy2_sorted e)) ?full"
    unfolding hy2_sorted_def map_append by (intro subseq_opt) simp
  moreover have "sorted ?full" "distinct ?full" by code_simp+
  ultimately show "sorted (keys (hy2_sorted e))" "distinct (keys (hy2_sorted e))"
    using subseq_sorted by blast+
  show "set (hy2_sorted e) = set (config_members e)"
    unfolding hy2_sorted_def hy2_members [OF assms] by (auto simp: opt_def)
  show "distinct (keys (config_members e))"
    unfolding hy2_members [OF assms] by (auto simp: opt_def)
qed

definition hy2_config :: "node_entry \<Rightarrow> node_config" where
  "hy2_config e = zero_node_config\<lparr>nc_protocol := ''hysteria'', nc_listen_ip := srv_listen (ne_server e),
     nc_server_port := srv_port (ne_server e), nc_version := 2, nc_server_name := tls_server_name (ne_tls e),
     nc_tls_settings := zero_tls_settings\<lparr>ts_server_name := tls_server_name (ne_tls e),
       ts_allow_insecure := tls_allow_insecure (ne_tls e)\<rparr>,
     nc_base_config := \<lparr>bc_push_interval = sync_of e, bc_pull_interval = sync_of e\<rparr>\<rparr>"

lemma dec_hy2_config:
  assumes "normalize_node_type (ne_type e) = ''hy2''" and "valid_entry e" and "good_entry e"
  shows "dec_node_config (node_config_response e) zero_node_config = (hy2_config e, False)"
proof -
  have p: "0 < srv_port (ne_server e)" and p2: "in_int64 (srv_port (ne_server e))"
    using assms(2,3) by (auto simp: valid_entry_def good_entry_def good_server_def)
  have "hy2_settings (ne_tls e) = [] \<Longrightarrow> tls_server_name (ne_tls e) = [] \<and> \<not> tls_allow_insecure (ne_tls e)"
    by (auto simp: hy2_settings_def opt_def split: if_splits)
  then show ?thesis
    using p2 good_sync [OF assms(3)]
    by (cases "hy2_settings (ne_tls e) = []")
      (simp_all add: node_config_response_def jmap_def [of "config_members e"] hy2_order [OF assms(1) p] hy2_sorted_def
        dec_node_config_def node_config_fields_def dec_members_append dec_opt field_of_def dec_base
        dec_hy2_settings [unfolded zero_tls_settings_def] hy2_config_def zero_node_config_def zero_tls_settings_def)
qed

section \<open>Through the server\<close>

lemma wf_opt: "list_all (\<lambda>(k, v). wf_json v) (opt k b v) \<longleftrightarrow> (b \<longrightarrow> wf_json v)"
  by (simp add: opt_def)

lemma wf_jmap: "list_all (\<lambda>(k, v). wf_json v) m \<Longrightarrow> wf_json (jmap m)"
  by (simp add: jmap_def sorted_entries_def list_all_iff)

lemma wf_base: "in_int64 (sync_of e) \<Longrightarrow> wf_json (base_json e)"
  unfolding base_json_def by (intro wf_jmap) simp

lemma wf_vless_response:
  assumes "normalize_node_type (ne_type e) = ''vless''" and "valid_entry e" and "good_entry e"
  shows "wf_json (node_config_response e)"
proof -
  have p: "0 < srv_port (ne_server e)" and p2: "in_int64 (srv_port (ne_server e))"
    using assms(2,3) by (auto simp: valid_entry_def good_entry_def good_server_def)
  have "wf_json (jmap (vless_tls_settings (ne_tls e)))"
    by (intro wf_jmap) (simp add: vless_ts_members wf_opt)
  then show ?thesis unfolding node_config_response_def using p2 wf_base [OF good_sync [OF assms(3)]]
    by (intro wf_jmap) (simp add: vless_members [OF assms(1) p] wf_opt)
qed

lemma wf_hy2_response:
  assumes "normalize_node_type (ne_type e) = ''hy2''" and "valid_entry e" and "good_entry e"
  shows "wf_json (node_config_response e)"
proof -
  have p: "0 < srv_port (ne_server e)" and p2: "in_int64 (srv_port (ne_server e))"
    using assms(2,3) by (auto simp: valid_entry_def good_entry_def good_server_def)
  have "wf_json (jmap (hy2_settings (ne_tls e)))"
    by (intro wf_jmap) (simp add: hy2_settings_def wf_opt)
  then show ?thesis unfolding node_config_response_def using p2 wf_base [OF good_sync [OF assms(3)]]
    by (intro wf_jmap) (simp add: hy2_members [OF assms(1) p] wf_opt)
qed

abbreviation credentials_for :: "client \<Rightarrow> store \<Rightarrow> node_entry \<Rightarrow> bool" where
  "credentials_for c s e \<equiv> authenticate s \<lparr>rq_method = [], rq_query = query_of c, rq_body = BodyTooLarge\<rparr> = Inr e"

lemma fetch_from_server:
  assumes "credentials_for c s e" and "cl_base c \<noteq> []" and "wf_json (node_config_response e)"
  shows "fetch_node_config (server_transport (cl_base c) fl mtime) c (s, fs)
    = ((s, fs), decode_node_config (node_config_response e))"
proof -
  obtain url q where ep: "endpoint c ''/api/v1/server/UniProxy/config'' = Some (url, q)"
    using assms(2) by (simp add: endpoint_def)
  let ?r = "server_request \<lparr>hr_method = ''GET'', hr_url = url, hr_query = q, hr_body = []\<rparr>"
  have "authenticate s ?r = Inr e"
    using assms(1) authenticate_query [of ?r "\<lparr>rq_method = [], rq_query = query_of c, rq_body = BodyTooLarge\<rparr>" s]
      endpoint_query [OF ep] by simp
  then have "handle_config s ?r = write_json 200 (node_config_response e)"
    by (simp add: handle_config_def server_request_def)
  then show ?thesis using ep endpoint_url [OF ep] decode_prefix_printed [OF assms(3)]
    by (simp add: fetch_node_config_def http_get_def server_transport_def routes_def reply_def write_json_def success_def)
qed

fun json_at :: "string list \<Rightarrow> json \<Rightarrow> json option" where
  "json_at [] j = Some j"
| "json_at (k # ks) (JObj ms) = (case map_of ms k of None \<Rightarrow> None | Some j \<Rightarrow> json_at ks j)"
| "json_at (k # ks) _ = None"

lemma json_at_jmap [simp]: "wf_map m \<Longrightarrow> json_at (k # ks) (jmap m) = (case mget m k of None \<Rightarrow> None | Some j \<Rightarrow> json_at ks j)"
  by (simp add: jmap_def mget_sorted_entries)

lemma decode_vless:
  assumes "normalize_node_type (ne_type e) = ''vless''" and "valid_entry e" and "good_entry e"
  shows "decode_node_config (node_config_response e) = Inr (vless_config e)"
  by (simp add: decode_node_config_def dec_vless_config [OF assms] has_node_config_def) (simp add: vless_config_def)

lemma decode_hy2:
  assumes "normalize_node_type (ne_type e) = ''hy2''" and "valid_entry e" and "good_entry e"
  shows "decode_node_config (node_config_response e) = Inr (hy2_config e)"
  by (simp add: decode_node_config_def dec_hy2_config [OF assms] has_node_config_def) (simp add: hy2_config_def)

lemma lower_protocols: "to_lower ''vless'' = ''vless''" "to_lower ''hysteria'' = ''hysteria''"
  by (simp_all add: to_lower_def lower_char_def)

text \<open>C20. A VLESS node reaches the agent intact: an agent with valid credentials fetches the node's
  configuration, and the inbound it generates listens on the node's port and address and carries
  the node's private key, short id, server name and handshake port.\<close>

theorem vless_node_served:
  assumes "normalize_node_type (ne_type e) = ''vless''" and "valid_entry e" and "good_entry e"
    and "tls_private_key (ne_tls e) \<noteq> []" and "credentials_for c s e" and "cl_base c \<noteq> []"
    and "fetch_node_config (server_transport (cl_base c) fl mtime) c (s, fs) = (w, r)"
  shows "w = (s, fs) \<and> (\<exists>i. fetched_inbound disk pem opts r files = (files, Inr i)
    \<and> json_at [''type''] i = Some (JStr ''vless'') \<and> json_at [''tag''] i = Some (JStr ''vless-in'')
    \<and> json_at [''listen''] i = Some (JStr (default_listen (srv_listen (ne_server e))))
    \<and> json_at [''listen_port''] i = Some (enc_int (srv_port (ne_server e)))
    \<and> json_at [''tls'', ''reality'', ''private_key''] i = Some (JStr (tls_private_key (ne_tls e)))
    \<and> json_at [''tls'', ''reality'', ''short_id''] i
        = Some (JArr (if tls_short_id (ne_tls e) = [] then [] else [JStr (tls_short_id (ne_tls e))]))
    \<and> json_at [''tls'', ''server_name''] i
        = Some (JStr (if tls_server_name (ne_tls e) = [] then ''www.microsoft.com'' else tls_server_name (ne_tls e)))
    \<and> json_at [''tls'', ''reality'', ''handshake'', ''server_port''] i
        = Some (enc_int (if 0 < tls_server_port (ne_tls e) then tls_server_port (ne_tls e) else 443)))"
proof -
  have f: "w = (s, fs)" "r = Inr (vless_config e)"
    using fetch_from_server [OF assms(5,6) wf_vless_response [OF assms(1-3)]] decode_vless [OF assms(1-3)] assms(7) by simp_all
  have "\<not> srv_port (ne_server e) \<le> 0" using assms(2) by (simp add: valid_entry_def)
  moreover have "handshake_port (if 0 < tls_server_port (ne_tls e) then itoa (tls_server_port (ne_tls e)) else [])
      = (if 0 < tls_server_port (ne_tls e) then tls_server_port (ne_tls e) else 443)"
    using assms(3) by (auto simp: handshake_port_def atoi_itoa good_entry_def good_tls_def)
      (metis itoa_hd list.discI)
  ultimately show ?thesis using f assms(4)
    by (simp add: fetched_inbound_def inbound_from_node_config_def lower_protocols vless_config_def vless_inbound_def Let_def)
qed

lemma cert_paths_nonempty: "fst (cert_paths opts) \<noteq> []" "snd (cert_paths opts) \<noteq> []"
  by (simp_all add: cert_paths_def Let_def)

lemma cert_ensured:
  assumes "pem name = Some (c, k)" and "cert \<noteq> []" and "key \<noteq> []"
  shows "ensure_self_signed_cert sound_disk pem cert key name files
    = (if files cert \<noteq> None \<and> files key \<noteq> None then files else files(cert \<mapsto> c, key \<mapsto> k), None)"
  using assms by (auto simp: ensure_self_signed_cert_def sound_disk_def write_or_def write_file_def)

text \<open>C21. A Hysteria2 node reaches the agent intact, when a certificate for its server name can be made and the
  disk takes it: an agent with valid credentials fetches the node's configuration, and the inbound it generates
  listens on the node's address and port, is secured under the node's server name with the certificate and the
  key at the configured paths, admits nobody yet and has no further settings. Both files are there afterwards: those
  that were, if both were, and otherwise the new pair.\<close>

theorem hy2_node_served:
  assumes "normalize_node_type (ne_type e) = ''hy2''" and "valid_entry e" and "good_entry e"
    and "credentials_for c s e" and "cl_base c \<noteq> []"
    and "fetch_node_config (server_transport (cl_base c) fl mtime) c (s, fs) = (w, r)"
    and "name = (if tls_server_name (ne_tls e) = [] then ''bing.com'' else tls_server_name (ne_tls e))"
    and "pem name = Some (pem_cert, pem_key)" and "cert_paths opts = (cert, key)"
  shows "w = (s, fs) \<and> (\<exists>i. fetched_inbound sound_disk pem opts r files
      = (if files cert \<noteq> None \<and> files key \<noteq> None then files else files(cert \<mapsto> pem_cert, key \<mapsto> pem_key), Inr i)
    \<and> (\<forall>k. json_at [k] i \<noteq> None \<longleftrightarrow> k \<in> {''type'', ''tag'', ''listen'', ''listen_port'', ''users'', ''tls''})
    \<and> json_at [''type''] i = Some (JStr ''hysteria2'') \<and> json_at [''tag''] i = Some (JStr ''hy2-in'')
    \<and> json_at [''listen''] i = Some (JStr (default_listen (srv_listen (ne_server e))))
    \<and> json_at [''listen_port''] i = Some (enc_int (srv_port (ne_server e)))
    \<and> json_at [''users''] i = Some (JArr [])
    \<and> json_at [''tls'', ''enabled''] i = Some (JBool True)
    \<and> json_at [''tls'', ''server_name''] i = Some (JStr name)
    \<and> json_at [''tls'', ''certificate_path''] i = Some (JStr cert)
    \<and> json_at [''tls'', ''key_path''] i = Some (JStr key))"
proof -
  have f: "w = (s, fs)" "r = Inr (hy2_config e)"
    using fetch_from_server [OF assms(4,5) wf_hy2_response [OF assms(1-3)]] decode_hy2 [OF assms(1-3)] assms(6) by simp_all
  have ne: "cert \<noteq> []" "key \<noteq> []" using cert_paths_nonempty [of opts] assms(9) by simp_all
  have e: "ensure_self_signed_cert sound_disk pem cert key name files
      = (if files cert \<noteq> None \<and> files key \<noteq> None then files else files(cert \<mapsto> pem_cert, key \<mapsto> pem_key), None)"
    by (rule cert_ensured) (use assms(8) ne in simp_all)
  have p: "\<not> srv_port (ne_server e) \<le> 0" using assms(2) by (simp add: valid_entry_def)
  have n: "first_non_empty [tls_server_name (ne_tls e), tls_server_name (ne_tls e), ''bing.com''] = name"
    by (simp add: assms(7))
  show ?thesis unfolding f
    using p e n
    by (simp add: fetched_inbound_def inbound_from_node_config_def lower_protocols hy2_config_def zero_node_config_def
        zero_tls_settings_def hy2_inbound_def Let_def put_positive_def assms(9) del: first_non_empty.simps)
qed

text \<open>C35. A node of type \<^verbatim>\<open>both\<close> is valid for the server and admits every requested type, but
  the configuration it serves names no protocol and no port, so every agent that fetches it fails.\<close>

theorem both_node_unusable:
  assumes "normalize_node_type (ne_type e) = ''both''" and "good_entry e"
    and "credentials_for c s e" and "cl_base c \<noteq> []"
  shows "fetch_node_config (server_transport (cl_base c) fl mtime) c (s, fs) = ((s, fs), Inl MissingConfig)"
proof -
  have r: "node_config_response e = JObj [(''base_config'', base_json e)]"
    using assms(1) by (simp add: node_config_response_def config_members_def Let_def base_json_def sync_of_def
        default_sync_interval_def jmap_def sorted_entries_def)
  have i: "in_int64 (sync_of e)" by (rule good_sync [OF assms(2)])
  have "find_field [(''data'', field_of dec_node_config id (\<lambda>x _. x))] ''base_config'' = None"
    by (simp add: find_field_def to_lower_def lower_char_def)
  then have "decode_node_config (node_config_response e) = Inl MissingConfig"
    using i by (simp add: r decode_node_config_def decode_wrapped_def dec_node_config_def node_config_fields_def
        field_of_def dec_base has_node_config_def zero_node_config_def)
  moreover have "wf_json (node_config_response e)" using wf_base [OF i] r by simp
  ultimately show ?thesis using fetch_from_server [OF assms(3,4)] by simp
qed

section \<open>Concrete nodes\<close>

definition node_of_type :: "string \<Rightarrow> node_entry" where
  "node_of_type t = hy2_entry\<lparr>ne_type := t, ne_tls := zero_tls\<lparr>tls_private_key := ''k'', tls_server_port := 8443\<rparr>\<rparr>"

definition store_of_type :: "string \<Rightarrow> store" where
  "store_of_type t = hy2_store\<lparr>st_nodes := [node_of_type t]\<rparr>"

definition client_of_type :: "string \<Rightarrow> client" where
  "client_of_type t = new_client ''http://p/'' ''t'' ''3'' t"

lemma client_of_type_base: "cl_base (client_of_type t) = ''http://p''"
  by (simp add: client_of_type_def new_client_def trim_right_slash_def)

lemma normalize_constants: "normalize_node_type ''vless'' = ''vless''" "normalize_node_type ''hy2'' = ''hy2''"
    "normalize_node_type ''both'' = ''both''"
  by (simp_all add: normalize_node_type_def to_lower_constants)

lemma node_of_type_facts:
  "known_type t \<Longrightarrow> valid_entry (node_of_type t)" "good_entry (node_of_type t)"
  "credentials_for (client_of_type t) (store_of_type t) (node_of_type t)"
proof -
  show "known_type t \<Longrightarrow> valid_entry (node_of_type t)"
    by (simp add: node_of_type_def hy2_entry_def zero_entry_def valid_entry_def)
  show "good_entry (node_of_type t)"
    by (simp add: node_of_type_def hy2_entry_def zero_entry_def good_entry_def good_server_def good_tls_def
        good_runtime_def zero_tls_def zero_runtime_def in_int64_def min_int64_def max_int64_def)
  have "distinct (map ne_id (st_nodes (store_of_type t)))" by (simp add: store_of_type_def)
  then show "credentials_for (client_of_type t) (store_of_type t) (node_of_type t)"
    by (simp add: authenticate_admits admits_def store_of_type_def node_of_type_def hy2_entry_def zero_entry_def
        hy2_store_def query_of_def client_of_type_def new_client_def atoi_eval)
qed

definition no_options :: gen_options where
  "no_options = \<lparr>go_panel_url = [], go_panel_token = [], go_panel_node_id = [], go_panel_node_type = [], go_node_mode = [],
     go_vless_node_id = [], go_hy2_node_id = [], go_out = ''out.json'', go_node_type_out = [], go_cert = [], go_key = []\<rparr>"

theorem vless_node_served_witness:
  "\<exists>w r i. fetch_node_config (server_transport ''http://p'' no_faults 0) (client_of_type ''vless'') (store_of_type ''vless'', \<lambda>_. None) = (w, r)
     \<and> fetched_inbound sound_disk (\<lambda>_. None) no_options r (\<lambda>_. None) = (\<lambda>_. None, Inr i) \<and> json_at [''listen_port''] i = Some (enc_int 443)"
proof -
  have k: "known_type ''vless''" by (simp add: known_type_def normalize_constants)
  have n: "normalize_node_type (ne_type (node_of_type ''vless'')) = ''vless''"
    "tls_private_key (ne_tls (node_of_type ''vless'')) \<noteq> []" "srv_port (ne_server (node_of_type ''vless'')) = 443"
    by (simp_all add: node_of_type_def normalize_constants hy2_entry_def)
  obtain w r where f: "fetch_node_config (server_transport (cl_base (client_of_type ''vless'')) no_faults 0)
      (client_of_type ''vless'') (store_of_type ''vless'', \<lambda>_. None) = (w, r)" by fastforce
  have "cl_base (client_of_type ''vless'') \<noteq> []" by (simp add: client_of_type_base)
  from vless_node_served [OF n(1) node_of_type_facts(1) [OF k] node_of_type_facts(2) n(2) node_of_type_facts(3) this f,
      of sound_disk "\<lambda>_. None" no_options "\<lambda>_. None"] f n(3)
  show ?thesis by (auto simp: client_of_type_base)
qed

theorem hy2_node_served_witness:
  "\<exists>w r i files'. fetch_node_config (server_transport ''http://p'' no_faults 0) (client_of_type ''hy2'') (store_of_type ''hy2'', \<lambda>_. None) = (w, r)
     \<and> fetched_inbound sound_disk (\<lambda>n. Some (''cert'', ''key'')) no_options r (\<lambda>_. None) = (files', Inr i)
     \<and> json_at [''listen_port''] i = Some (enc_int 443)"
proof -
  have k: "known_type ''hy2''" by (simp add: known_type_def normalize_constants)
  have n: "normalize_node_type (ne_type (node_of_type ''hy2'')) = ''hy2''" "srv_port (ne_server (node_of_type ''hy2'')) = 443"
    by (simp_all add: node_of_type_def normalize_constants hy2_entry_def)
  obtain w r where f: "fetch_node_config (server_transport (cl_base (client_of_type ''hy2'')) no_faults 0)
      (client_of_type ''hy2'') (store_of_type ''hy2'', \<lambda>_. None) = (w, r)" by fastforce
  have b: "cl_base (client_of_type ''hy2'') \<noteq> []" by (simp add: client_of_type_base)
  obtain cert key where "cert_paths no_options = (cert, key)" by fastforce
  from hy2_node_served [where pem = "\<lambda>n. Some (''cert'', ''key'')" and files = "\<lambda>_. None",
      OF n(1) node_of_type_facts(1) [OF k] node_of_type_facts(2,3) b f refl refl this] f n(2)
  show ?thesis by (auto simp: client_of_type_base)
qed

theorem both_node_unusable_witness:
  "fetch_node_config (server_transport ''http://p'' no_faults 0) (client_of_type ''both'') (store_of_type ''both'', \<lambda>_. None)
     = ((store_of_type ''both'', \<lambda>_. None), Inl MissingConfig) \<and> validate_node_entry (node_of_type ''both'') = None"
proof -
  have k: "known_type ''both''" by (simp add: known_type_def normalize_constants)
  have n: "normalize_node_type (ne_type (node_of_type ''both'')) = ''both''"
    by (simp add: node_of_type_def normalize_constants)
  have b: "cl_base (client_of_type ''both'') \<noteq> []" by (simp add: client_of_type_base)
  show ?thesis using both_node_unusable [OF n node_of_type_facts(2,3) b] node_of_type_facts(1) [OF k]
    by (simp add: client_of_type_base validate_node_entry_iff)
qed

end
