(* ===== verification/Generate.thy ===== *)
theory Generate
  imports ConfigEndToEnd
begin

text \<open>
  What the command \<^verbatim>\<open>xboard-generate-config\<close> promises: its exit code says whether the
  configuration has been written, the arguments are checked before anything is touched, and a
  failure leaves the old configuration alone.
\<close>

section \<open>Files an inbound may touch\<close>

abbreviation spares :: "fs \<Rightarrow> fs \<Rightarrow> gen_options \<Rightarrow> bool" where
  "spares files files' opts \<equiv> \<forall>p. p \<noteq> fst (cert_paths opts) \<longrightarrow> p \<noteq> snd (cert_paths opts) \<longrightarrow> files' p = files p"

lemma write_or_other: "write_or disk path data files = (files', r) \<Longrightarrow> p \<noteq> path \<Longrightarrow> files' p = files p"
  by (auto simp: write_or_def split: prod.splits dest: write_file_other)

lemma cert_spares: "ensure_self_signed_cert disk pem cert key name files = (files', r) \<Longrightarrow> p \<noteq> cert \<Longrightarrow> p \<noteq> key \<Longrightarrow> files' p = files p"
  by (auto simp: ensure_self_signed_cert_def split: if_splits option.splits prod.splits)
    (metis write_or_other)+

lemma hy2_inbound_spares: "hy2_inbound disk pem opts cfg l files = (files', r) \<Longrightarrow> spares files files' opts"
  by (auto simp: hy2_inbound_def Let_def split: if_splits option.splits prod.splits dest: cert_spares)

lemma inbound_spares: "inbound_from_node_config disk pem opts cfg l files = (files', r) \<Longrightarrow> spares files files' opts"
  by (auto simp: inbound_from_node_config_def Let_def split: if_splits dest: hy2_inbound_spares)

lemma fetched_spares: "fetched_inbound disk pem opts r0 files = (files', r) \<Longrightarrow> spares files files' opts"
  by (auto simp: fetched_inbound_def split: sum.splits dest: inbound_spares)

text \<open>An inbound that can be generated carries one of the two tags and no user yet.\<close>

definition fresh_inbound :: "json \<Rightarrow> bool" where
  "fresh_inbound i \<longleftrightarrow> (json_at [''tag''] i = Some (JStr ''vless-in'') \<or> json_at [''tag''] i = Some (JStr ''hy2-in''))
     \<and> json_at [''users''] i = Some (JArr [])"

lemma vless_inbound_fresh: "vless_inbound cfg l = Inr i \<Longrightarrow> fresh_inbound i"
  by (auto simp: vless_inbound_def Let_def fresh_inbound_def split: if_splits)

lemma hy2_inbound_fresh: "hy2_inbound disk pem opts cfg l files = (files', Inr i) \<Longrightarrow> fresh_inbound i"
  by (auto simp: hy2_inbound_def Let_def fresh_inbound_def put_positive_def split: if_splits option.splits prod.splits)

lemma inbound_fresh: "inbound_from_node_config disk pem opts cfg l files = (files', Inr i) \<Longrightarrow> fresh_inbound i"
  by (auto simp: inbound_from_node_config_def Let_def split: if_splits dest: hy2_inbound_fresh vless_inbound_fresh)

lemma fetched_fresh: "fetched_inbound disk pem opts r0 files = (files', Inr i) \<Longrightarrow> fresh_inbound i"
  by (auto simp: fetched_inbound_def split: sum.splits dest: inbound_fresh)

section \<open>The inbounds of a mode\<close>

definition mode_inbounds :: "string \<Rightarrow> json list \<Rightarrow> bool" where
  "mode_inbounds mode ins \<longleftrightarrow> mode \<in> {''vless'', ''hy2'', ''both''} \<and> list_all fresh_inbound ins
     \<and> length ins = (if mode = ''both'' then 2 else 1)"

lemma map_sum_Inr: "map_sum id f x = Inr y \<longleftrightarrow> (\<exists>z. x = Inr z \<and> y = f z)"
  by (cases x) auto

lemma generate_inbounds_spares:
  "generate_inbounds tr disk pem opts w files = (w', files', r) \<Longrightarrow> spares files files' opts"
  by (auto simp: generate_inbounds_def Let_def split: if_splits prod.splits sum.splits
      dest: fetched_spares) (metis inbound_spares)+

lemma generate_inbounds_mode:
  "generate_inbounds tr disk pem opts w files = (w', files', Inr ins) \<Longrightarrow> mode_inbounds (generation_mode opts) ins"
  by (auto simp: generate_inbounds_def Let_def mode_inbounds_def map_sum_Inr split: if_splits prod.splits sum.splits
      dest: fetched_fresh inbound_fresh)

section \<open>The command\<close>

definition command_options :: "string list \<Rightarrow> gen_options option" where
  "command_options args = (case parse_flags gen_flags args default_options of None \<Rightarrow> None
     | Some opts \<Rightarrow> if go_panel_url opts = [] \<or> go_panel_token opts = [] \<or> go_out opts = [] then None
         else Some (settle_mode opts))"

abbreviation written_config :: "gen_options \<Rightarrow> fs \<Rightarrow> bool" where
  "written_config opts files \<equiv> \<exists>ins. mode_inbounds (generation_mode opts) ins
     \<and> files (go_out opts) = Some (marshal_indent (sing_box_config ins))"

abbreviation output_paths :: "gen_options \<Rightarrow> string set" where
  "output_paths opts \<equiv> {go_out opts, go_node_type_out opts, fst (cert_paths opts), snd (cert_paths opts)}"

lemma write_under_other: "write_under disk path data files = (files', r) \<Longrightarrow> p \<noteq> path \<Longrightarrow> files' p = files p"
  by (auto simp: write_under_def split: if_splits dest: write_or_other)

lemma write_under_ok: "write_under disk path data files = (files', None) \<Longrightarrow> files' = files(path \<mapsto> data)"
  by (auto simp: write_under_def write_or_def split: if_splits prod.splits dest: write_file_ok)

lemma write_under_failed: "write_under disk path data files = (files', Some e) \<Longrightarrow>
    files' path = files path \<or> (\<exists>n. dk_write disk path = WriteFails n)"
  by (auto simp: write_under_def write_or_def split: if_splits prod.splits dest!: write_file_failed)

lemma generate_config_spares:
  "generate_xboard_config tr disk pem opts w files = (w', files', r) \<Longrightarrow> p \<notin> output_paths opts \<Longrightarrow> files' p = files p"
  by (auto simp: generate_xboard_config_def split: prod.splits sum.splits option.splits if_splits
      dest!: generate_inbounds_spares write_under_other [where p = p])

lemma generate_config_ok:
  assumes "generate_xboard_config tr disk pem opts w files = (w', files', Inr mode)" and "go_node_type_out opts \<noteq> go_out opts"
  shows "mode = generation_mode opts \<and> written_config opts files'
    \<and> (go_node_type_out opts \<noteq> [] \<longrightarrow> files' (go_node_type_out opts) = Some (mode @ [CHR 0x0A]))"
  using assms
  by (auto simp: generate_xboard_config_def split: prod.splits sum.splits option.splits if_splits
      dest!: generate_inbounds_mode write_under_ok)

lemma generate_config_failed:
  assumes "generate_xboard_config tr disk pem opts w files = (w', files', Inl e)" and "go_node_type_out opts \<noteq> go_out opts"
    and "go_out opts \<notin> {fst (cert_paths opts), snd (cert_paths opts)}"
  shows "files' (go_out opts) = files (go_out opts) \<or> written_config opts files' \<or> (\<exists>n. dk_write disk (go_out opts) = WriteFails n)"
proof -
  obtain w1 files1 r1 where g: "generate_inbounds tr disk pem opts w files = (w1, files1, r1)" by (metis prod_cases3)
  have keep: "files1 (go_out opts) = files (go_out opts)" using generate_inbounds_spares [OF g] assms(3) by simp
  show ?thesis
  proof (cases r1)
    case (Inl e1)
    then show ?thesis using assms(1) g keep by (simp add: generate_xboard_config_def)
  next
    case (Inr ins)
    obtain files2 r2 where u: "write_under disk (go_out opts) (marshal_indent (sing_box_config ins)) files1 = (files2, r2)"
      by fastforce
    show ?thesis
    proof (cases r2)
      case (Some e2)
      then show ?thesis using assms(1) g Inr u keep write_under_failed [of disk "go_out opts" _ files1 files2 e2]
        by (simp add: generate_xboard_config_def) metis
    next
      case None
      then have f2: "files2 = files1(go_out opts \<mapsto> marshal_indent (sing_box_config ins))" using u write_under_ok by metis
      have "files' (go_out opts) = files2 (go_out opts)"
        using assms(1,2) g Inr u None write_under_other [of disk "go_node_type_out opts" _ files2 _ _ "go_out opts"]
        by (auto simp: generate_xboard_config_def split: if_splits prod.splits option.splits)
      then show ?thesis using f2 generate_inbounds_mode [of tr disk pem opts w files w1 files1 "ins"] g Inr by auto
    qed
  qed
qed

text \<open>C25. The exit code of the command is right. With bad arguments it is 2 and neither the network nor
  a file has been touched. With 0 the configuration for the chosen mode is in the output file, one
  fresh inbound for a single protocol and two for both, and the mode is in the mode file. With 1 the
  old configuration is still there, unless its own write was torn or only the mode file failed after
  it. No other file than the outputs and the certificate pair is ever touched.\<close>

theorem generate_command_outcome:
  assumes "run_xboard_generate_config tr disk pem args w files = (w', files', code)"
  shows "case command_options args of None \<Rightarrow> code = 2 \<and> w' = w \<and> files' = files
    | Some opts \<Rightarrow> (\<forall>p. p \<notin> output_paths opts \<longrightarrow> files' p = files p) \<and> (code = 0 \<or> code = 1)
      \<and> (go_node_type_out opts \<noteq> go_out opts \<and> go_out opts \<notin> {fst (cert_paths opts), snd (cert_paths opts)} \<longrightarrow>
          (code = 0 \<longrightarrow> written_config opts files' \<and> (go_node_type_out opts \<noteq> [] \<longrightarrow>
             files' (go_node_type_out opts) = Some (generation_mode opts @ [CHR 0x0A])))
        \<and> (code = 1 \<longrightarrow> files' (go_out opts) = files (go_out opts) \<or> written_config opts files'
             \<or> (\<exists>n. dk_write disk (go_out opts) = WriteFails n)))"
proof (cases "command_options args")
  case None
  then show ?thesis using assms
    by (auto simp: command_options_def run_xboard_generate_config_def split: option.splits if_splits)
next
  case (Some opts)
  then obtain r where g: "generate_xboard_config tr disk pem opts w files = (w', files', r)"
    and c: "code = (case r of Inl _ \<Rightarrow> 1 | Inr _ \<Rightarrow> 0)"
    using assms by (auto simp: command_options_def run_xboard_generate_config_def split: option.splits if_splits prod.splits sum.splits)
  have s: "\<forall>p. p \<notin> output_paths opts \<longrightarrow> files' p = files p" using generate_config_spares [OF g] by blast
  show ?thesis
  proof (cases r)
    case (Inl e)
    then show ?thesis using Some s c g generate_config_failed [of tr disk pem opts w files w' files' e] by auto
  next
    case (Inr mode)
    then show ?thesis using Some s c g generate_config_ok [of tr disk pem opts w files w' files' mode] by auto
  qed
qed

definition demo_args :: "string list" where
  "demo_args = [''--panel-url=http://p'', ''-panel-token'', ''t'', ''--vless-node-id'', ''3'', ''--out'', ''/etc/c.json'']"

definition demo_transport :: "unit transport" where
  "demo_transport rq w = (w, HttpResponse 200 (marshal (JObj [(''protocol'', JStr ''vless''), (''server_port'', JNum ''443''),
     (''tls_settings'', JObj [(''private_key'', JStr ''k'')])])))"

theorem generate_command_outcome_witness:
  "\<exists>files'. run_xboard_generate_config demo_transport sound_disk (\<lambda>_. None) demo_args () (\<lambda>_. None) = ((), files', 0)
     \<and> files' ''/etc/c.json'' \<noteq> None"
proof -
  obtain opts where o: "command_options demo_args = Some opts" "go_out opts = ''/etc/c.json''" "go_node_type_out opts = []"
      "cert_paths opts = (''/etc/cert.pem'', ''/etc/key.pem'')"
  proof (rule that)
    show "command_options demo_args = Some (the (command_options demo_args))" by code_simp
    show "go_out (the (command_options demo_args)) = ''/etc/c.json''" by code_simp
    show "go_node_type_out (the (command_options demo_args)) = []" by code_simp
    show "cert_paths (the (command_options demo_args)) = (''/etc/cert.pem'', ''/etc/key.pem'')" by code_simp
  qed
  obtain w' files' code where r: "run_xboard_generate_config demo_transport sound_disk (\<lambda>_. None) demo_args () (\<lambda>_. None)
      = (w', files', code)" by (metis prod_cases3)
  have "snd (snd (run_xboard_generate_config demo_transport sound_disk (\<lambda>_. None) demo_args () (\<lambda>_. None))) = 0"
    by code_simp
  then have "code = 0" using r by simp
  with generate_command_outcome [OF r] o r show ?thesis by auto
qed

end
