(* ===== verification/AgentOptions.thy ===== *)
theory AgentOptions
  imports Persist
begin

text \<open>
  How the agent loads its sing-box configuration (\<^verbatim>\<open>loadOptions\<close> and
  \<^verbatim>\<open>applyHY2Tuning\<close> of \<^verbatim>\<open>cmd/mini-sb-agent/main.go\<close>). The parser of
  the options belongs to sing-box and is the argument \<open>parse\<close>; of its result only the fields that
  the agent touches are modelled, what they leave out has the type \<open>'x\<close>.
\<close>

section \<open>Options\<close>

record 'x hy2_options =
  ho_up_mbps :: int
  ho_down_mbps :: int
  ho_ignore_client_bandwidth :: bool
  ho_brutal_debug :: bool
  ho_rest :: 'x

text \<open>An inbound's options are a pointer to the Hysteria2 options, which may be nil, or something else.\<close>

datatype 'x inbound_options = Hy2Options "'x hy2_options option" | OtherOptions 'x

record 'x box_inbound =
  bi_type :: string
  bi_options :: "'x inbound_options"

record 'x log_options =
  lo_level :: string
  lo_timestamp :: bool
  lo_rest :: 'x

record 'x options =
  op_log :: "'x log_options option"
  op_inbounds :: "'x box_inbound list"
  op_rest :: 'x

record hy2_tuning =
  ht_enabled :: bool
  ht_up_mbps :: int
  ht_down_mbps :: int
  ht_ignore_client_bandwidth :: bool
  ht_brutal_debug :: bool

definition no_tuning :: hy2_tuning where
  "no_tuning = \<lparr>ht_enabled = False, ht_up_mbps = 0, ht_down_mbps = 0, ht_ignore_client_bandwidth = False, ht_brutal_debug = False\<rparr>"

section \<open>Operations\<close>

definition tune_hy2 :: "hy2_tuning \<Rightarrow> 'x hy2_options \<Rightarrow> 'x hy2_options" where
  "tune_hy2 t h =
     (let h = (if 0 < ht_up_mbps t then h\<lparr>ho_up_mbps := ht_up_mbps t\<rparr> else h);
          h = (if 0 < ht_down_mbps t then h\<lparr>ho_down_mbps := ht_down_mbps t\<rparr> else h);
          h = (if ht_ignore_client_bandwidth t then h\<lparr>ho_ignore_client_bandwidth := True\<rparr> else h)
      in if ht_brutal_debug t then h\<lparr>ho_brutal_debug := True\<rparr> else h)"

definition tune_inbound :: "hy2_tuning \<Rightarrow> 'x box_inbound \<Rightarrow> 'x box_inbound" where
  "tune_inbound t i = (if bi_type i \<noteq> ''hysteria2'' then i
     else case bi_options i of Hy2Options (Some h) \<Rightarrow> i\<lparr>bi_options := Hy2Options (Some (tune_hy2 t h))\<rparr> | _ \<Rightarrow> i)"

definition apply_hy2_tuning :: "hy2_tuning \<Rightarrow> 'x options \<Rightarrow> 'x options" where
  "apply_hy2_tuning t opts = (if \<not> ht_enabled t then opts
     else opts\<lparr>op_inbounds := map (tune_inbound t) (op_inbounds opts)\<rparr>)"

text \<open>\<open>zero_log\<close> is the zero value of sing-box's log options.\<close>

definition default_log :: "'x log_options \<Rightarrow> 'x options \<Rightarrow> 'x options" where
  "default_log zero_log opts = (case op_log opts of
     None \<Rightarrow> opts\<lparr>op_log := Some (zero_log\<lparr>lo_level := ''warn'', lo_timestamp := True\<rparr>)\<rparr>
   | Some l \<Rightarrow> if lo_level l = [] then opts\<lparr>op_log := Some (l\<lparr>lo_level := ''warn''\<rparr>)\<rparr> else opts)"

definition load_options_with_hy2_tuning ::
  "(string \<Rightarrow> 'x options option) \<Rightarrow> 'x log_options \<Rightarrow> fs \<Rightarrow> string \<Rightarrow> hy2_tuning \<Rightarrow> 'x options option" where
  "load_options_with_hy2_tuning parse zero_log files path t = (case files path of None \<Rightarrow> None
     | Some data \<Rightarrow> map_option (\<lambda>opts. apply_hy2_tuning t (default_log zero_log opts)) (parse data))"

definition load_options :: "(string \<Rightarrow> 'x options option) \<Rightarrow> 'x log_options \<Rightarrow> fs \<Rightarrow> string \<Rightarrow> 'x options option" where
  "load_options parse zero_log files path = load_options_with_hy2_tuning parse zero_log files path no_tuning"

text \<open>The tuning that \<^verbatim>\<open>main\<close> makes of its four flags.\<close>

definition tuning_of_flags :: "int \<Rightarrow> int \<Rightarrow> bool \<Rightarrow> bool \<Rightarrow> hy2_tuning" where
  "tuning_of_flags up down ignore brutal =
     \<lparr>ht_enabled = (0 < up \<or> 0 < down \<or> ignore \<or> brutal), ht_up_mbps = up, ht_down_mbps = down,
      ht_ignore_client_bandwidth = ignore, ht_brutal_debug = brutal\<rparr>"

section \<open>What the flags do\<close>

lemma tune_hy2_fields:
  "ho_up_mbps (tune_hy2 t h) = (if 0 < ht_up_mbps t then ht_up_mbps t else ho_up_mbps h)"
  "ho_down_mbps (tune_hy2 t h) = (if 0 < ht_down_mbps t then ht_down_mbps t else ho_down_mbps h)"
  "ho_ignore_client_bandwidth (tune_hy2 t h) = (ho_ignore_client_bandwidth h \<or> ht_ignore_client_bandwidth t)"
  "ho_brutal_debug (tune_hy2 t h) = (ho_brutal_debug h \<or> ht_brutal_debug t)"
  "ho_rest (tune_hy2 t h) = ho_rest h"
  by (simp_all add: tune_hy2_def Let_def)

lemma tune_hy2_disabled: "\<not> ht_enabled t \<Longrightarrow> t = tuning_of_flags up down ignore brutal \<Longrightarrow> tune_hy2 t h = h"
  by (simp add: tune_hy2_def tuning_of_flags_def)

text \<open>The switch that \<^verbatim>\<open>main\<close> computes changes nothing: without a flag the tuning is the identity.\<close>

lemma apply_flags: "op_inbounds (apply_hy2_tuning (tuning_of_flags up down ignore brutal) opts)
    = map (tune_inbound (tuning_of_flags up down ignore brutal)) (op_inbounds opts)"
proof (cases "ht_enabled (tuning_of_flags up down ignore brutal)")
  case False
  then have "tune_inbound (tuning_of_flags up down ignore brutal) i = i" for i :: "'a box_inbound"
    by (cases i) (auto simp: tune_inbound_def tune_hy2_disabled [OF False refl] split: inbound_options.split option.split)
  then show ?thesis using False by (simp add: apply_hy2_tuning_def map_idI)
qed (simp add: apply_hy2_tuning_def)

text \<open>Loading with the flags of the command line: the log level is set, nothing but the four
  fields of Hysteria2 inbounds differs from the file, a positive bandwidth flag overrides the file's
  value and a switch can only be turned on.\<close>

theorem tuned_options:
  assumes "load_options_with_hy2_tuning parse zero_log files path (tuning_of_flags up down ignore brutal) = Some opts"
  obtains data file_opts where "files path = Some data" and "parse data = Some file_opts"
    and "op_rest opts = op_rest file_opts" and "\<exists>l. op_log opts = Some l \<and> lo_level l \<noteq> []"
    and "list_all2 (\<lambda>i i'. bi_type i' = bi_type i \<and> (case (bi_options i, bi_options i') of
        (Hy2Options (Some h), Hy2Options (Some h')) \<Rightarrow> if bi_type i \<noteq> ''hysteria2'' then h' = h else
          h' = \<lparr>ho_up_mbps = (if 0 < up then up else ho_up_mbps h), ho_down_mbps = (if 0 < down then down else ho_down_mbps h),
            ho_ignore_client_bandwidth = (ho_ignore_client_bandwidth h \<or> ignore), ho_brutal_debug = (ho_brutal_debug h \<or> brutal),
            ho_rest = ho_rest h\<rparr>
      | (o1, o2) \<Rightarrow> o2 = o1)) (op_inbounds file_opts) (op_inbounds opts)"
proof -
  let ?t = "tuning_of_flags up down ignore brutal"
  obtain data file_opts where d: "files path = Some data" "parse data = Some file_opts"
    and o: "opts = apply_hy2_tuning ?t (default_log zero_log file_opts)"
    using assms by (auto simp: load_options_with_hy2_tuning_def split: option.splits)
  have l: "op_rest opts = op_rest file_opts" "\<exists>l. op_log opts = Some l \<and> lo_level l \<noteq> []"
    by (auto simp: o apply_hy2_tuning_def default_log_def split: option.split)
  have i: "op_inbounds opts = map (tune_inbound ?t) (op_inbounds file_opts)"
    unfolding o apply_flags by (simp add: default_log_def split: option.split)
  have h: "tune_hy2 ?t h = \<lparr>ho_up_mbps = (if 0 < up then up else ho_up_mbps h), ho_down_mbps = (if 0 < down then down else ho_down_mbps h),
      ho_ignore_client_bandwidth = (ho_ignore_client_bandwidth h \<or> ignore), ho_brutal_debug = (ho_brutal_debug h \<or> brutal),
      ho_rest = ho_rest h\<rparr>" for h :: "'a hy2_options"
    by (simp add: tune_hy2_fields tuning_of_flags_def)
  show thesis
    by (rule that [OF d l])
      (auto simp: i list_all2_conv_all_nth tune_inbound_def h split: inbound_options.split option.split)
qed

end
