(* ===== verification/RuntimeDebug.thy ===== *)
theory RuntimeDebug
  imports GoPath
begin

text \<open>
  The runtime diagnostics of the agent (\<^verbatim>\<open>cmd/mini-sb-agent/runtime_debug.go\<close>): what it
  reads from \<^verbatim>\<open>/proc\<close> and the cgroup files, and the CSV file it appends to. The files are
  the argument \<open>files\<close>; what the Go runtime reports about itself is the argument \<open>rt\<close>.
\<close>

section \<open>Numbers and fields\<close>

definition fields_of :: "string \<Rightarrow> string list" where
  "fields_of s = filter (\<lambda>w. w \<noteq> []) (split_where is_space s)"

type_synonym uint64 = "64 word"

definition max_uint64 :: nat where "max_uint64 = 18446744073709551615"

text \<open>\<^verbatim>\<open>strconv.ParseUint(s, 10, 64)\<close> reads from the left: the first offending byte, or the first
  digit that no longer fits, decides which error it is.\<close>

datatype uint_result = UOk nat | USyntax | URange

fun parse_digits :: "nat \<Rightarrow> string \<Rightarrow> uint_result" where
  "parse_digits n [] = UOk n"
| "parse_digits n (c # cs) = (if \<not> is_digit c then USyntax
     else if max_uint64 < 10 * n + digit_val c then URange
     else parse_digits (10 * n + digit_val c) cs)"

definition parse_uint :: "string \<Rightarrow> uint_result" where
  "parse_uint s = (if s = [] then USyntax else parse_digits 0 s)"

text \<open>\<^verbatim>\<open>atou\<close> and \<^verbatim>\<open>atoi\<close> ignore the error and keep the value that comes
  with it, which on overflow is the largest number.\<close>

definition atou :: "string \<Rightarrow> uint64" where
  "atou s = (case parse_uint s of UOk n \<Rightarrow> of_nat n | USyntax \<Rightarrow> 0 | URange \<Rightarrow> of_nat max_uint64)"

definition atoi_or :: "string \<Rightarrow> int" where
  "atoi_or s = (let (neg, body) =
       (case s of [] \<Rightarrow> (False, []) | c # cs \<Rightarrow>
          if c = CHR ''-'' then (True, cs) else if c = CHR ''+'' then (False, cs) else (False, s));
       clamp = (\<lambda>n. if neg then max min_int64 (- int n) else min max_int64 (int n))
     in (case parse_uint body of UOk n \<Rightarrow> clamp n | USyntax \<Rightarrow> 0 | URange \<Rightarrow> clamp max_uint64))"

definition csv_safe :: "string \<Rightarrow> string" where
  "csv_safe s = map (\<lambda>c. if c = CHR '','' then CHR ''_'' else c) s"

definition lines_of :: "string \<Rightarrow> string list" where
  "lines_of = split_on CHR 0x0A"

section \<open>The sample\<close>

record sample =
  sm_pid :: int
  sm_utime_ticks :: uint64
  sm_stime_ticks :: uint64
  sm_start_time_ticks :: uint64
  sm_threads :: int
  sm_vm_rss :: uint64
  sm_vm_hwm :: uint64
  sm_vm_data :: uint64
  sm_cgroup_memory :: uint64
  sm_cgroup_oom :: uint64
  sm_cgroup_oom_kill :: uint64
  sm_cgroup_pids :: uint64
  sm_cgroup_pids_max :: string
  sm_mem_available :: uint64
  sm_goroutines :: int
  sm_heap_alloc :: uint64
  sm_heap_sys :: uint64
  sm_heap_idle :: uint64
  sm_heap_released :: uint64
  sm_stack_inuse :: uint64
  sm_other_sys :: uint64
  sm_num_gc :: "32 word"
  sm_pause_total :: uint64
  sm_last_gc_pause :: uint64

definition zero_sample :: sample where
  "zero_sample = \<lparr>sm_pid = 0, sm_utime_ticks = 0, sm_stime_ticks = 0, sm_start_time_ticks = 0, sm_threads = 0,
     sm_vm_rss = 0, sm_vm_hwm = 0, sm_vm_data = 0, sm_cgroup_memory = 0, sm_cgroup_oom = 0, sm_cgroup_oom_kill = 0,
     sm_cgroup_pids = 0, sm_cgroup_pids_max = [], sm_mem_available = 0, sm_goroutines = 0, sm_heap_alloc = 0,
     sm_heap_sys = 0, sm_heap_idle = 0, sm_heap_released = 0, sm_stack_inuse = 0, sm_other_sys = 0, sm_num_gc = 0,
     sm_pause_total = 0, sm_last_gc_pause = 0\<rparr>"

text \<open>The runtime's own numbers; \<open>rt_pauses\<close> is the circular buffer of the last 256 pauses.\<close>

record runtime_stats =
  rt_pid :: int
  rt_goroutines :: int
  rt_heap_alloc :: uint64
  rt_heap_sys :: uint64
  rt_heap_idle :: uint64
  rt_heap_released :: uint64
  rt_stack_inuse :: uint64
  rt_other_sys :: uint64
  rt_num_gc :: "32 word"
  rt_pause_total :: uint64
  rt_pauses :: "nat \<Rightarrow> uint64"

definition status_line :: "string \<Rightarrow> sample \<Rightarrow> sample" where
  "status_line line s = (case fields_of line of
     k # v # _ \<Rightarrow> if k = ''Threads:'' then s\<lparr>sm_threads := atoi_or v\<rparr>
       else if k = ''VmRSS:'' then s\<lparr>sm_vm_rss := atou v\<rparr>
       else if k = ''VmHWM:'' then s\<lparr>sm_vm_hwm := atou v\<rparr>
       else if k = ''VmData:'' then s\<lparr>sm_vm_data := atou v\<rparr>
       else s
   | _ \<Rightarrow> s)"

definition fill_proc_status :: "fs \<Rightarrow> sample \<Rightarrow> sample" where
  "fill_proc_status files s = (case files ''/proc/self/status'' of None \<Rightarrow> s
     | Some data \<Rightarrow> fold status_line (lines_of data) s)"

text \<open>What follows the last closing parenthesis and one more byte, if anything does.\<close>

definition after_comm :: "string \<Rightarrow> string option" where
  "after_comm text = (let tail = rev (takeWhile (\<lambda>c. c \<noteq> CHR '')'') (rev text)) in
     if CHR '')'' \<notin> set text \<or> length tail < 2 then None else Some (drop 1 tail))"

definition fill_proc_stat :: "fs \<Rightarrow> sample \<Rightarrow> sample" where
  "fill_proc_stat files s = (case files ''/proc/self/stat'' of None \<Rightarrow> s
     | Some text \<Rightarrow> (case after_comm text of None \<Rightarrow> s
         | Some rest \<Rightarrow> (let f = fields_of rest in if length f < 20 then s
             else s\<lparr>sm_utime_ticks := atou (f ! 11), sm_stime_ticks := atou (f ! 12), sm_start_time_ticks := atou (f ! 19)\<rparr>)))"

definition events_line :: "string \<Rightarrow> sample \<Rightarrow> sample" where
  "events_line line s = (case fields_of line of
     [k, v] \<Rightarrow> if k = ''oom'' then s\<lparr>sm_cgroup_oom := atou v\<rparr>
       else if k = ''oom_kill'' then s\<lparr>sm_cgroup_oom_kill := atou v\<rparr> else s
   | _ \<Rightarrow> s)"

definition fill_cgroup_memory_events :: "fs \<Rightarrow> sample \<Rightarrow> sample" where
  "fill_cgroup_memory_events files s = (case files ''/sys/fs/cgroup/memory.events'' of None \<Rightarrow> s
     | Some data \<Rightarrow> fold events_line (lines_of data) s)"

fun mem_available :: "string list \<Rightarrow> uint64" where
  "mem_available [] = 0"
| "mem_available (line # ls) = (case fields_of line of
     k # v # _ \<Rightarrow> if k = ''MemAvailable:'' then atou v else mem_available ls
   | _ \<Rightarrow> mem_available ls)"

definition read_mem_available :: "fs \<Rightarrow> uint64" where
  "read_mem_available files = (case files ''/proc/meminfo'' of None \<Rightarrow> 0 | Some data \<Rightarrow> mem_available (lines_of data))"

definition read_trim :: "fs \<Rightarrow> string \<Rightarrow> string" where
  "read_trim files path = (case files path of None \<Rightarrow> [] | Some data \<Rightarrow> trim_space data)"

fun read_uint_first :: "fs \<Rightarrow> string list \<Rightarrow> uint64" where
  "read_uint_first files [] = 0"
| "read_uint_first files (path # paths) = (let text = read_trim files path in
     if text = [] \<or> text = ''max'' then read_uint_first files paths
     else case parse_uint (hd (fields_of text)) of UOk n \<Rightarrow> of_nat n | _ \<Rightarrow> read_uint_first files paths)"

definition collect_sample :: "fs \<Rightarrow> runtime_stats \<Rightarrow> sample" where
  "collect_sample files rt =
     (let s = zero_sample\<lparr>sm_pid := rt_pid rt, sm_cgroup_pids_max := read_trim files ''/sys/fs/cgroup/pids.max''\<rparr>;
          s = fill_proc_stat files (fill_proc_status files s);
          s = s\<lparr>sm_cgroup_memory := read_uint_first files
            [''/sys/fs/cgroup/memory.current'', ''/sys/fs/cgroup/memory/memory.usage_in_bytes'']\<rparr>;
          s = fill_cgroup_memory_events files s;
          s = s\<lparr>sm_cgroup_pids := read_uint_first files [''/sys/fs/cgroup/pids.current''],
            sm_mem_available := read_mem_available files, sm_goroutines := rt_goroutines rt,
            sm_heap_alloc := rt_heap_alloc rt, sm_heap_sys := rt_heap_sys rt, sm_heap_idle := rt_heap_idle rt,
            sm_heap_released := rt_heap_released rt, sm_stack_inuse := rt_stack_inuse rt, sm_other_sys := rt_other_sys rt,
            sm_num_gc := rt_num_gc rt, sm_pause_total := rt_pause_total rt\<rparr>
      in if rt_num_gc rt > 0 then s\<lparr>sm_last_gc_pause := rt_pauses rt (unat ((rt_num_gc rt + 255) mod 256))\<rparr> else s)"

section \<open>The file\<close>

definition debug_header :: string where
  "debug_header = ''ts,pid,utime_ticks,stime_ticks,threads,vmrss_kb,vmhwm_kb,vmdata_kb,cgroup_memory,cgroup_oom,cgroup_oom_kill,cgroup_pids,cgroup_pids_max,mem_available_kb,goroutines,heap_alloc,heap_sys,heap_idle,heap_released,stack_inuse,other_sys,num_gc,pause_total_ns,last_gc_pause_ns''"

definition utoa :: "'a::len word \<Rightarrow> string" where
  "utoa w = nat_itoa (unat w)"

definition debug_cells :: "int \<Rightarrow> sample \<Rightarrow> string list" where
  "debug_cells now s = [itoa now, itoa (sm_pid s), utoa (sm_utime_ticks s), utoa (sm_stime_ticks s), itoa (sm_threads s),
     utoa (sm_vm_rss s), utoa (sm_vm_hwm s), utoa (sm_vm_data s), utoa (sm_cgroup_memory s), utoa (sm_cgroup_oom s),
     utoa (sm_cgroup_oom_kill s), utoa (sm_cgroup_pids s), csv_safe (sm_cgroup_pids_max s), utoa (sm_mem_available s),
     itoa (sm_goroutines s), utoa (sm_heap_alloc s), utoa (sm_heap_sys s), utoa (sm_heap_idle s), utoa (sm_heap_released s),
     utoa (sm_stack_inuse s), utoa (sm_other_sys s), utoa (sm_num_gc s), utoa (sm_pause_total s), utoa (sm_last_gc_pause s)]"

definition debug_row :: "int \<Rightarrow> sample \<Rightarrow> string" where
  "debug_row now s = join '','' (debug_cells now s) @ [CHR 0x0A]"

text \<open>An append that fails after some bytes is ignored by the logger, so an append is what it wrote.\<close>

definition append_some :: "string \<Rightarrow> string \<times> nat option \<Rightarrow> fs \<Rightarrow> fs" where
  "append_some path = (\<lambda>(data, torn) files. case files path of None \<Rightarrow> files
     | Some old \<Rightarrow> files(path \<mapsto> old @ (case torn of None \<Rightarrow> data | Some n \<Rightarrow> take n data)))"

definition debug_period :: "int \<Rightarrow> int" where
  "debug_period every = (if every \<le> 0 then 1000000000 else every)"

text \<open>Opening the file and writing the header when it is empty; the Boolean says whether it could be
  opened. Without a path nothing is started.\<close>

definition open_debug_log :: "string \<Rightarrow> bool \<Rightarrow> nat option \<Rightarrow> fs \<Rightarrow> fs \<times> bool" where
  "open_debug_log path open_fails torn files = (if open_fails then (files, False)
     else let files1 = (case files path of None \<Rightarrow> files(path \<mapsto> []) | Some _ \<Rightarrow> files) in
       (if files1 path = Some [] then append_some path (debug_header @ [CHR 0x0A], torn) files1 else files1, True))"

text \<open>The logging goroutine over the samples it takes until its context is cancelled: the time, what
  the runtime says then, what the files are then, and how much of the row gets written.\<close>

fun log_samples :: "string \<Rightarrow> (int \<times> runtime_stats \<times> (fs \<Rightarrow> fs) \<times> nat option) list \<Rightarrow> fs \<Rightarrow> fs" where
  "log_samples path [] files = files"
| "log_samples path ((now, rt, change, torn) # ticks) files =
     (let files = change files
      in log_samples path ticks (append_some path (debug_row now (collect_sample files rt), torn) files))"

definition start_runtime_debug_logger :: "string \<Rightarrow> bool \<Rightarrow> nat option \<Rightarrow> (int \<times> runtime_stats \<times> (fs \<Rightarrow> fs) \<times> nat option) list \<Rightarrow>
    fs \<Rightarrow> fs \<times> bool" where
  "start_runtime_debug_logger path open_fails torn ticks files = (if path = [] then (files, True)
     else case open_debug_log path open_fails torn files of
       (files1, False) \<Rightarrow> (files1, False)
     | (files1, True) \<Rightarrow> (log_samples path ticks files1, True))"

section \<open>What is read\<close>

lemma split_where_Cons: "\<exists>w ws. split_where P s = w # ws"
  by (cases "split_where P s") auto

lemma fields_of_sep: "is_space b \<Longrightarrow> list_all (\<lambda>c. \<not> is_space c) w \<Longrightarrow>
    fields_of (w @ b # s) = (if w = [] then fields_of s else w # fields_of s)"
  by (simp add: fields_of_def split_where_append)

lemma fields_of_word: "list_all (\<lambda>c. \<not> is_space c) w \<Longrightarrow> w \<noteq> [] \<Longrightarrow> fields_of w = [w]"
  by (simp add: fields_of_def split_where_none)

definition is_word :: "string \<Rightarrow> bool" where
  "is_word w \<longleftrightarrow> w \<noteq> [] \<and> list_all (\<lambda>c. \<not> is_space c) w"

lemma fields_of_join: "list_all is_word ws \<Longrightarrow> is_space b \<Longrightarrow> fields_of (join [b] ws) = ws"
proof (induction "[b]" ws rule: join.induct)
  case 1
  then show ?case by (simp add: fields_of_def)
next
  case (2 x)
  then show ?case by (simp add: fields_of_word is_word_def)
next
  case (3 x y ys)
  then show ?case by (simp add: fields_of_sep is_word_def)
qed

lemma after_comm_last:
  assumes "CHR '')'' \<notin> set rest" and "rest \<noteq> []"
  shows "after_comm (pre @ '') '' @ rest) = Some rest"
proof -
  have "takeWhile (\<lambda>c. c \<noteq> CHR '')'') ((rev rest @ '' '') @ CHR '')'' # rev pre) = rev rest @ '' ''"
    using assms(1) by (subst takeWhile_append2) auto
  then have "takeWhile (\<lambda>c. c \<noteq> CHR '')'') (rev (pre @ '') '' @ rest)) = rev rest @ '' ''" by simp
  then show ?thesis using assms(2) unfolding after_comm_def Let_def by (auto simp: Suc_le_eq)
qed

lemma fields_of_snoc: "is_space b \<Longrightarrow> fields_of (s @ [b]) = fields_of s"
proof -
  assume b: "is_space b"
  have "split_where is_space (s @ [b]) = split_where is_space s @ [[]]"
    using b by (induction s) (auto split: list.split)
  then show ?thesis by (simp add: fields_of_def)
qed

lemma parse_digits_ok: "list_all is_digit s \<Longrightarrow> foldl (\<lambda>a c. 10 * a + digit_val c) n s \<le> max_uint64 \<Longrightarrow>
    parse_digits n s = UOk (foldl (\<lambda>a c. 10 * a + digit_val c) n s)"
proof (induction s arbitrary: n)
  case (Cons c s)
  then have "10 * n + digit_val c \<le> max_uint64" using digits_val_ge [of "10 * n + digit_val c" s] by simp
  with Cons show ?case by simp
qed simp

lemma atou_nat_itoa: "n \<le> max_uint64 \<Longrightarrow> atou (nat_itoa n) = of_nat n"
  using digits_nat_itoa [of n] parse_digits_ok [of "nat_itoa n" 0]
  by (simp add: atou_def parse_uint_def digits_val_def)

text \<open>C39. The CPU times come from the right places of \<^verbatim>\<open>/proc/self/stat\<close>: whatever the name
  of the command is, spaces and parentheses included, the sample's ticks are the 14th, 15th and 22nd
  fields of the line.\<close>

theorem proc_stat_parsed:
  assumes "files ''/proc/self/stat'' = Some (pid @ '' ('' @ comm @ '') '' @ join '' '' ws @ [CHR 0x0A])"
    and "list_all is_word ws" and "list_all (\<lambda>w. CHR '')'' \<notin> set w) ws" and "20 \<le> length ws"
    and "ws ! 11 = nat_itoa utime" and "ws ! 12 = nat_itoa stime" and "ws ! 19 = nat_itoa start"
    and "utime \<le> max_uint64" and "stime \<le> max_uint64" and "start \<le> max_uint64"
  shows "fill_proc_stat files s = s\<lparr>sm_utime_ticks := of_nat utime, sm_stime_ticks := of_nat stime,
    sm_start_time_ticks := of_nat start\<rparr>"
proof -
  have j: "CHR '')'' \<notin> set (join '' '' ws)" using assms(3)
    by (induction "'' ''" ws rule: join.induct) auto
  have "after_comm ((pid @ '' ('' @ comm) @ '') '' @ join '' '' ws @ [CHR 0x0A]) = Some (join '' '' ws @ [CHR 0x0A])"
    by (rule after_comm_last) (use j in simp_all)
  moreover have "fields_of (join '' '' ws @ [CHR 0x0A]) = ws"
    using fields_of_join [OF assms(2), of "CHR '' ''"] by (simp add: fields_of_snoc is_space_def)
  ultimately show ?thesis using assms(1,4-10) by (simp add: fill_proc_stat_def Let_def atou_nat_itoa)
qed

section \<open>What is logged\<close>

lemma split_on_join: "list_all (\<lambda>w. b \<notin> set w) ws \<Longrightarrow> ws \<noteq> [] \<Longrightarrow> split_on b (join [b] ws) = ws"
proof (induction "[b]" ws rule: join.induct)
  case (2 x)
  then show ?case by (auto simp: split_on_def list_all_iff intro!: split_where_none)
next
  case (3 x y ys)
  then have "list_all (\<lambda>c. c \<noteq> b) x" by (auto simp: list_all_iff)
  then have "split_where (\<lambda>c. c = b) (x @ b # join [b] (y # ys)) = x # split_where (\<lambda>c. c = b) (join [b] (y # ys))"
    by (intro split_where_append) simp_all
  with 3 show ?case by (simp add: split_on_def)
qed simp

lemma nat_itoa_chars: "\<not> is_digit b \<Longrightarrow> b \<notin> set (nat_itoa n)"
  using digits_nat_itoa [of n] by (auto simp: list_all_iff)

lemma number_cells: "\<not> is_digit b \<Longrightarrow> b \<noteq> CHR ''-'' \<Longrightarrow> b \<notin> set (itoa i)" "\<not> is_digit b \<Longrightarrow> b \<notin> set (utoa w)"
  by (auto simp: itoa_def utoa_def nat_itoa_chars)

lemma separators [simp]: "\<not> is_digit CHR '',''" "\<not> is_digit CHR 0x0A"
  by (simp_all add: is_digit_def)

lemma debug_columns: "split_on CHR '','' (join '','' (debug_cells now s)) = debug_cells now s"
  by (rule split_on_join) (auto simp: debug_cells_def number_cells csv_safe_def)

lemma join_chars: "c \<in> set (join sp ws) \<Longrightarrow> c \<in> set sp \<or> (\<exists>w \<in> set ws. c \<in> set w)"
  by (induction sp ws rule: join.induct) auto

lemma debug_row_line:
  assumes "CHR 0x0A \<notin> set (sm_cgroup_pids_max s)"
  shows "CHR 0x0A \<notin> set (join '','' (debug_cells now s))"
proof
  assume "CHR 0x0A \<in> set (join '','' (debug_cells now s))"
  from join_chars [OF this] assms show False by (auto simp: debug_cells_def number_cells csv_safe_def)
qed

definition clean_tick :: "string \<Rightarrow> int \<times> runtime_stats \<times> (fs \<Rightarrow> fs) \<times> nat option \<Rightarrow> bool" where
  "clean_tick path = (\<lambda>(now, rt, change, torn). torn = None \<and>
     (\<forall>files. change files path = files path \<and> CHR 0x0A \<notin> set (read_trim (change files) ''/sys/fs/cgroup/pids.max'')))"

lemma pids_max_kept: "sm_cgroup_pids_max (fold status_line ls s) = sm_cgroup_pids_max s"
    "sm_cgroup_pids_max (fold events_line ls s) = sm_cgroup_pids_max s"
proof -
  have "sm_cgroup_pids_max (status_line l s) = sm_cgroup_pids_max s" "sm_cgroup_pids_max (events_line l s) = sm_cgroup_pids_max s" for l s
    by (simp_all add: status_line_def events_line_def split: list.split)
  then show "sm_cgroup_pids_max (fold status_line ls s) = sm_cgroup_pids_max s"
    "sm_cgroup_pids_max (fold events_line ls s) = sm_cgroup_pids_max s"
    by (induction ls arbitrary: s) simp_all
qed

lemma pids_max_sample: "sm_cgroup_pids_max (collect_sample files rt) = read_trim files ''/sys/fs/cgroup/pids.max''"
  by (auto simp: collect_sample_def Let_def fill_cgroup_memory_events_def fill_proc_stat_def fill_proc_status_def pids_max_kept
      split: option.split)

lemma log_samples_rows:
  "list_all (clean_tick path) ticks \<Longrightarrow> files path = Some c \<Longrightarrow>
    \<exists>rows. log_samples path ticks files path = Some (c @ concat (map (\<lambda>r. r @ [CHR 0x0A]) rows)) \<and> length rows = length ticks
      \<and> list_all (\<lambda>r. CHR 0x0A \<notin> set r \<and> length (split_on CHR '','' r) = 24) rows"
proof (induction ticks arbitrary: files c)
  case Nil
  then show ?case by (intro exI [of _ "[]"]) simp
next
  case (Cons x ticks)
  obtain now rt change torn where x: "x = (now, rt, change, torn)" by (cases x)
  let ?s = "collect_sample (change files) rt" and ?row = "join '','' (debug_cells now (collect_sample (change files) rt))"
  have t: "torn = None" "change files path = Some c" "CHR 0x0A \<notin> set (sm_cgroup_pids_max ?s)"
    using Cons.prems by (auto simp: x clean_tick_def pids_max_sample)
  let ?files = "append_some path (debug_row now ?s, torn) (change files)"
  have "?files path = Some (c @ ?row @ [CHR 0x0A])" using t by (simp add: append_some_def debug_row_def)
  from Cons.IH [of ?files "c @ ?row @ [CHR 0x0A]", OF _ this] Cons.prems(1) obtain rows where
    r: "log_samples path ticks ?files path = Some ((c @ ?row @ [CHR 0x0A]) @ concat (map (\<lambda>r. r @ [CHR 0x0A]) rows))"
      "length rows = length ticks" "list_all (\<lambda>r. CHR 0x0A \<notin> set r \<and> length (split_on CHR '','' r) = 24) rows" by auto
  have "length (split_on CHR '','' ?row) = 24" unfolding debug_columns by (simp add: debug_cells_def)
  then show ?case using r debug_row_line [OF t(3)] by (intro exI [of _ "?row # rows"]) (simp add: x Let_def)
qed

lemma lines_of_rows: "list_all (\<lambda>r. CHR 0x0A \<notin> set r) rows \<Longrightarrow> lines_of (concat (map (\<lambda>r. r @ [CHR 0x0A]) rows)) = rows @ [[]]"
proof (induction rows)
  case (Cons r rows)
  have "list_all (\<lambda>c. c \<noteq> CHR 0x0A) r" using Cons.prems by (auto simp: list_all_iff)
  then show ?case using Cons split_where_append [of "\<lambda>c. c = CHR 0x0A" r "CHR 0x0A"] by (simp add: lines_of_def split_on_def)
qed (simp add: lines_of_def split_on_def)

lemma header_facts: "CHR 0x0A \<notin> set debug_header" "length (split_on CHR '','' debug_header) = 24"
  by code_simp+

text \<open>The diagnostics file is a table: into a new file the logger writes the header and then one
  line for every sample, and every line has the header's 24 columns, whatever the files of the kernel
  hold, as long as the writes are complete and the limit of processes is one line.\<close>

theorem debug_log_table:
  assumes "start_runtime_debug_logger path False None ticks files = (files', True)" and "path \<noteq> []"
    and "files path = None" and "list_all (clean_tick path) ticks"
  shows "\<exists>rows content. files' path = Some content \<and> lines_of content = debug_header # rows @ [[]] \<and> length rows = length ticks
    \<and> list_all (\<lambda>r. length (split_on CHR '','' r) = length (split_on CHR '','' debug_header)) rows"
proof -
  let ?f = "files(path \<mapsto> debug_header @ [CHR 0x0A])"
  have "files' = log_samples path ticks ?f"
    using assms(1-3) by (simp add: start_runtime_debug_logger_def open_debug_log_def append_some_def Let_def)
  moreover obtain rows where r: "log_samples path ticks ?f path = Some ((debug_header @ [CHR 0x0A]) @ concat (map (\<lambda>r. r @ [CHR 0x0A]) rows))"
    "length rows = length ticks" "list_all (\<lambda>r. CHR 0x0A \<notin> set r \<and> length (split_on CHR '','' r) = 24) rows"
    using log_samples_rows [OF assms(4), of ?f] by auto
  moreover have "lines_of (concat (map (\<lambda>r. r @ [CHR 0x0A]) (debug_header # rows))) = (debug_header # rows) @ [[]]"
    by (rule lines_of_rows) (use header_facts(1) r(3) in \<open>auto simp: list_all_iff\<close>)
  ultimately show ?thesis using header_facts(2)
    by (intro exI [of _ rows] exI [of _ "(debug_header @ [CHR 0x0A]) @ concat (map (\<lambda>r. r @ [CHR 0x0A]) rows)"])
      (simp add: list_all_iff)
qed

section \<open>Concrete files\<close>

definition odd_stat :: "string list" where
  "odd_stat = ''S'' # replicate 10 ''0'' @ [''17'', ''4''] @ replicate 6 ''0'' @ [''900'']"

theorem proc_stat_parsed_witness:
  "sm_utime_ticks (fill_proc_stat ((\<lambda>_. None)(''/proc/self/stat'' \<mapsto> ''1'' @ '' ('' @ ''a) b ('' @ '') '' @ join '' '' odd_stat @ [CHR 0x0A]))
     zero_sample) = 17"
proof -
  have w: "list_all is_word odd_stat" "list_all (\<lambda>w. CHR '')'' \<notin> set w) odd_stat" "20 \<le> length odd_stat"
    "odd_stat ! 11 = nat_itoa 17" "odd_stat ! 12 = nat_itoa 4" "odd_stat ! 19 = nat_itoa 900" by code_simp+
  show ?thesis
    by (subst proc_stat_parsed [where pid = "''1''" and comm = "''a) b (''", OF _ w]) (simp_all add: max_uint64_def)
qed

definition quiet_runtime :: runtime_stats where
  "quiet_runtime = \<lparr>rt_pid = 1, rt_goroutines = 3, rt_heap_alloc = 0, rt_heap_sys = 0, rt_heap_idle = 0, rt_heap_released = 0,
     rt_stack_inuse = 0, rt_other_sys = 0, rt_num_gc = 0, rt_pause_total = 0, rt_pauses = (\<lambda>_. 0)\<rparr>"

definition limit_file :: "fs \<Rightarrow> fs" where
  "limit_file files = files(''/sys/fs/cgroup/pids.max'' \<mapsto> ''1,2'')"

theorem debug_log_table_witness:
  "\<exists>rows content. fst (start_runtime_debug_logger ''d'' False None [(5, quiet_runtime, limit_file, None)] (\<lambda>_. None)) ''d'' = Some content
    \<and> lines_of content = debug_header # rows @ [[]] \<and> length rows = 1"
proof -
  have c: "list_all (clean_tick ''d'') [(5, quiet_runtime, limit_file, None)]"
    by (simp add: clean_tick_def limit_file_def read_trim_def trim_space_def is_space_def)
  obtain files' where s: "start_runtime_debug_logger ''d'' False None [(5, quiet_runtime, limit_file, None)] (\<lambda>_. None) = (files', True)"
    by (simp add: start_runtime_debug_logger_def open_debug_log_def Let_def)
  from debug_log_table [OF s _ _ c] s show ?thesis by auto
qed

end
