(* ===== verification/GoFlags.thy ===== *)
theory GoFlags
  imports GoPath Float64
begin

text \<open>
  The command line as Go's \<^verbatim>\<open>flag\<close> package reads it, for the two \<^verbatim>\<open>main\<close>
  functions: strings, switches, integers (\<^verbatim>\<open>strconv.ParseInt\<close> with base 0, so that
  \<^verbatim>\<open>0x1f\<close>, \<^verbatim>\<open>017\<close> and \<^verbatim>\<open>1_000\<close> are numbers) and durations
  (\<^verbatim>\<open>time.ParseDuration\<close>). A printed value is read back exactly.
\<close>

section \<open>Integers in any base\<close>

definition letter_digit :: "char \<Rightarrow> nat option" where
  "letter_digit c = (let n = (of_char c :: nat) in if is_digit c then Some (digit_val c)
     else if 97 \<le> n \<and> n \<le> 122 then Some (n - 87) else if 65 \<le> n \<and> n \<le> 90 then Some (n - 55) else None)"

definition base_letter :: "char \<Rightarrow> nat option" where
  "base_letter c = (if c = CHR ''b'' \<or> c = CHR ''B'' then Some 2 else if c = CHR ''o'' \<or> c = CHR ''O'' then Some 8
     else if c = CHR ''x'' \<or> c = CHR ''X'' then Some 16 else None)"

text \<open>The base and the digits after the prefix, which needs a digit behind it to count.\<close>

definition base_prefix :: "string \<Rightarrow> nat \<times> string" where
  "base_prefix s = (case s of [] \<Rightarrow> (10, s)
     | c # cs \<Rightarrow> if c \<noteq> CHR ''0'' then (10, s)
       else (case cs of b # r # rs \<Rightarrow> (case base_letter b of Some n \<Rightarrow> (n, r # rs) | None \<Rightarrow> (8, cs)) | _ \<Rightarrow> (8, cs)))"

fun base_digits :: "nat \<Rightarrow> nat \<Rightarrow> string \<Rightarrow> nat option" where
  "base_digits base n [] = Some n"
| "base_digits base n (c # cs) = (if c = CHR ''_'' then base_digits base n cs
     else case letter_digit c of None \<Rightarrow> None
     | Some d \<Rightarrow> if base \<le> d then None
         else (let n' = n * base + d in if 2 ^ 64 \<le> n' then None else base_digits base n' cs))"

datatype seen = SeenStart | SeenDigit | SeenUnderscore | SeenOther

fun underscore_scan :: "bool \<Rightarrow> seen \<Rightarrow> string \<Rightarrow> bool" where
  "underscore_scan hex sn [] \<longleftrightarrow> sn \<noteq> SeenUnderscore"
| "underscore_scan hex sn (c # cs) \<longleftrightarrow>
     (if is_digit c \<or> hex \<and> (case letter_digit c of Some d \<Rightarrow> d < 16 | None \<Rightarrow> False) then underscore_scan hex SeenDigit cs
      else if c = CHR ''_'' then sn = SeenDigit \<and> underscore_scan hex SeenUnderscore cs
      else sn \<noteq> SeenUnderscore \<and> underscore_scan hex SeenOther cs)"

text \<open>Underscores separate digits; a base prefix counts as a digit.\<close>

definition underscore_ok :: "string \<Rightarrow> bool" where
  "underscore_ok s \<longleftrightarrow> (case s of
       z # b # cs \<Rightarrow> if z = CHR ''0'' \<and> base_letter b \<noteq> None then underscore_scan (base_letter b = Some 16) SeenDigit cs
         else underscore_scan False SeenStart s
     | _ \<Rightarrow> underscore_scan False SeenStart s)"

definition parse_uint0 :: "string \<Rightarrow> nat option" where
  "parse_uint0 s = (if s = [] then None else case base_prefix s of (base, body) \<Rightarrow>
     (case base_digits base 0 body of None \<Rightarrow> None
      | Some n \<Rightarrow> if CHR ''_'' \<in> set body \<and> \<not> underscore_ok s then None else Some n))"

definition split_sign :: "string \<Rightarrow> bool \<times> string" where
  "split_sign s = (case s of [] \<Rightarrow> (False, [])
     | c # cs \<Rightarrow> if c = CHR ''-'' then (True, cs) else if c = CHR ''+'' then (False, cs) else (False, s))"

definition parse_int0 :: "string \<Rightarrow> int option" where
  "parse_int0 s = (case split_sign s of (neg, body) \<Rightarrow> (case parse_uint0 body of None \<Rightarrow> None
     | Some n \<Rightarrow> if (if neg then 2 ^ 63 < n else 2 ^ 63 \<le> n) then None else Some (if neg then - int n else int n)))"

lemmas parse_int_defs = parse_int0_def split_sign_def parse_uint0_def base_prefix_def base_letter_def letter_digit_def
  underscore_ok_def is_digit_def digit_val_def

lemma parse_int0_examples:
  "parse_int0 ''0'' = Some 0" "parse_int0 ''-0x1F'' = Some (- 31)" "parse_int0 ''017'' = Some 15"
  "parse_int0 ''1_000'' = Some 1000" "parse_int0 ''1__0'' = None" "parse_int0 ''_1'' = None" "parse_int0 ''0x'' = None"
  "parse_int0 ''0_7'' = Some 7" "parse_int0 ''08'' = None" "parse_int0 ''9223372036854775808'' = None"
  "parse_int0 ''-9223372036854775808'' = Some (- 9223372036854775808)" "parse_int0 '''' = None"
  by (simp_all add: parse_int_defs)

section \<open>Switches\<close>

definition parse_bool :: "string \<Rightarrow> bool option" where
  "parse_bool s = (if s \<in> set [''1'', ''t'', ''T'', ''true'', ''TRUE'', ''True''] then Some True
     else if s \<in> set [''0'', ''f'', ''F'', ''false'', ''FALSE'', ''False''] then Some False else None)"

section \<open>Durations\<close>

fun leading_int :: "nat \<Rightarrow> string \<Rightarrow> (nat \<times> string) option" where
  "leading_int x [] = Some (x, [])"
| "leading_int x (c # cs) = (if \<not> is_digit c then Some (x, c # cs) else if 2 ^ 63 div 10 < x then None
     else let y = 10 * x + digit_val c in if 2 ^ 63 < y then None else leading_int y cs)"

text \<open>Digits that no longer fit are skipped. The scale is a power of ten up to \<open>10 ^ 19\<close>, which is
  exact as a float.\<close>

fun leading_fraction :: "nat \<Rightarrow> nat \<Rightarrow> bool \<Rightarrow> string \<Rightarrow> nat \<times> nat \<times> string" where
  "leading_fraction x scale over [] = (x, scale, [])"
| "leading_fraction x scale over (c # cs) = (if \<not> is_digit c then (x, scale, c # cs)
     else if over \<or> (2 ^ 63 - 1) div 10 < x then leading_fraction x scale True cs
     else let y = 10 * x + digit_val c in
       if 2 ^ 63 < y then leading_fraction x scale True cs else leading_fraction y (scale * 10) False cs)"

definition unit_map :: "(string \<times> nat) list" where
  "unit_map = [(''ns'', 1), (''us'', 1000), ([CHR 0xC2, CHR 0xB5, CHR ''s''], 1000), ([CHR 0xCE, CHR 0xBC, CHR ''s''], 1000),
     (''ms'', 1000000), (''s'', 1000000000), (''m'', 60000000000), (''h'', 3600000000000)]"

abbreviation unit_char :: "char \<Rightarrow> bool" where
  "unit_char c \<equiv> c \<noteq> CHR ''.'' \<and> \<not> is_digit c"

text \<open>The number before a unit: its integer part, its fraction as digits and scale, what follows, and
  whether there was any digit.\<close>

definition number_part :: "string \<Rightarrow> (nat \<times> nat \<times> nat \<times> string \<times> bool) option" where
  "number_part s = (case leading_int 0 s of None \<Rightarrow> None
     | Some (v, s1) \<Rightarrow> (case s1 of [] \<Rightarrow> Some (v, 0, 1, s1, s1 \<noteq> s)
         | c # r \<Rightarrow> if c \<noteq> CHR ''.'' then Some (v, 0, 1, s1, s1 \<noteq> s)
             else (case leading_fraction 0 1 False r of (f, scale, s2) \<Rightarrow> Some (v, f, scale, s2, s1 \<noteq> s \<or> s2 \<noteq> r))))"

text \<open>One number with its unit, in nanoseconds, and what follows it.\<close>

definition duration_element :: "string \<Rightarrow> (nat \<times> string) option" where
  "duration_element s = (if s = [] \<or> unit_char (hd s) then None
     else case number_part s of None \<Rightarrow> None
     | Some (v, f, scale, s2, digits) \<Rightarrow>
         (let u = takeWhile unit_char s2 in
           if \<not> digits \<or> u = [] then None
           else case map_of unit_map u of None \<Rightarrow> None
           | Some unit \<Rightarrow> if 2 ^ 63 div unit < v then None
               else (let w = v * unit + (if 0 < f then nat \<lfloor>fl (fl (of_nat f) * fl (of_nat unit / of_nat scale))\<rfloor> else 0)
                 in if 2 ^ 63 < w then None else Some (w, drop (length u) s2))))"

lemma leading_int_length: "leading_int x s = Some (v, r) \<Longrightarrow> length r \<le> length s"
  by (induction x s rule: leading_int.induct) (force simp: Let_def split: if_splits)+

lemma leading_fraction_length: "leading_fraction x sc ov s = (f, sc', r) \<Longrightarrow> length r \<le> length s"
  by (induction x sc ov s rule: leading_fraction.induct) (force simp: Let_def split: if_splits)+

lemma number_part_length: "number_part s = Some (v, f, sc, r, b) \<Longrightarrow> length r \<le> length s"
  by (auto simp: number_part_def dest!: leading_int_length leading_fraction_length split: option.splits prod.splits list.splits if_splits)

lemma duration_element_length:
  assumes "duration_element s = Some (w, r)"
  shows "length r < length s"
proof -
  obtain v f sc s2 b where "number_part s = Some (v, f, sc, s2, b)" "takeWhile unit_char s2 \<noteq> []"
      "r = drop (length (takeWhile unit_char s2)) s2"
    using assms by (auto simp: duration_element_def Let_def split: if_splits option.splits)
  then show ?thesis using number_part_length [of s v f sc s2 b] by (cases s2) auto
qed

function duration_loop :: "nat \<Rightarrow> string \<Rightarrow> nat option" where
  "duration_loop d s = (if s = [] then Some d else case duration_element s of None \<Rightarrow> None
     | Some (v, r) \<Rightarrow> if 2 ^ 63 < d + v then None else duration_loop (d + v) r)"
  by pat_completeness auto

termination
  by (relation "measure (\<lambda>(d, s). length s)") (auto dest: duration_element_length)

declare duration_loop.simps [simp del]

text \<open>In nanoseconds.\<close>

definition parse_duration :: "string \<Rightarrow> int option" where
  "parse_duration s = (case split_sign s of (neg, body) \<Rightarrow>
     if body = ''0'' then Some 0 else if body = [] then None
     else (case duration_loop 0 body of None \<Rightarrow> None
       | Some d \<Rightarrow> if neg then Some (- int d) else if 2 ^ 63 - 1 < d then None else Some (int d)))"

section \<open>Flag sets\<close>

datatype 'o flag = StringFlag "string \<Rightarrow> 'o \<Rightarrow> 'o" | is_BoolFlag: BoolFlag "bool \<Rightarrow> 'o \<Rightarrow> 'o" | IntFlag "int \<Rightarrow> 'o \<Rightarrow> 'o"
  | DurationFlag "int \<Rightarrow> 'o \<Rightarrow> 'o"

fun set_flag :: "'o flag \<Rightarrow> string \<Rightarrow> 'o \<Rightarrow> 'o option" where
  "set_flag (StringFlag put) v opts = Some (put v opts)"
| "set_flag (BoolFlag put) v opts = map_option (\<lambda>b. put b opts) (parse_bool v)"
| "set_flag (IntFlag put) v opts = map_option (\<lambda>n. put n opts) (parse_int0 v)"
| "set_flag (DurationFlag put) v opts = map_option (\<lambda>n. put n opts) (parse_duration v)"

text \<open>How \<^verbatim>\<open>flag.Parse\<close> ends: with the options, or the process exits, with 0 for a wish
  for help and with 2 for an error.\<close>

datatype 'o parsed = Parsed 'o | FlagExit nat

fun parse_command_line :: "(string \<times> 'o flag) list \<Rightarrow> string list \<Rightarrow> 'o \<Rightarrow> 'o parsed" where
  "parse_command_line fs [] opts = Parsed opts"
| "parse_command_line fs (a # args) opts =
     (if length a < 2 \<or> hd a \<noteq> CHR ''-'' \<or> a = ''--'' then Parsed opts
      else let name = (if a ! 1 = CHR ''-'' then drop 2 a else drop 1 a); flag = takeWhile (\<lambda>c. c \<noteq> CHR ''='') name in
        if name = [] \<or> hd name = CHR ''-'' \<or> hd name = CHR ''='' then FlagExit 2
        else case map_of fs flag of None \<Rightarrow> if flag = ''help'' \<or> flag = ''h'' then FlagExit 0 else FlagExit 2
        | Some f \<Rightarrow>
            if flag \<noteq> name then (case set_flag f (drop (Suc (length flag)) name) opts of
              None \<Rightarrow> FlagExit 2 | Some opts' \<Rightarrow> parse_command_line fs args opts')
            else if is_BoolFlag f then (case set_flag f ''true'' opts of
              None \<Rightarrow> FlagExit 2 | Some opts' \<Rightarrow> parse_command_line fs args opts')
            else (case args of [] \<Rightarrow> FlagExit 2
              | v # rest \<Rightarrow> (case set_flag f v opts of None \<Rightarrow> FlagExit 2 | Some opts' \<Rightarrow> parse_command_line fs rest opts')))"

lemma parse_exit_code: "parse_command_line fs args opts = FlagExit n \<Longrightarrow> n = 0 \<or> n = 2"
  by (induction fs args opts rule: parse_command_line.induct)
    (auto simp: Let_def split: if_splits option.splits list.splits)

text \<open>A flag set with texts only, as the configuration generator's, is read the same way; it gives an error
  where this one ends the process.\<close>

lemma text_flags_read:
  "parse_flags fs args opts = (case parse_command_line (map (map_prod id StringFlag) fs) args opts of
     Parsed opts' \<Rightarrow> Some opts' | FlagExit n \<Rightarrow> None)"
proof (induction fs args opts rule: parse_flags.induct)
  case (2 fs a args opts)
  have m: "map_of (map (map_prod id StringFlag) fs) k = map_option StringFlag (map_of fs k)" for k
    by (induction fs) auto
  show ?case
  proof (cases "length a < 2 \<or> hd a \<noteq> CHR ''-'' \<or> a = ''--''")
    case True
    then show ?thesis by (simp only: parse_flags.simps parse_command_line.simps if_True parsed.case)
  next
    case go: False
    let ?name = "if a ! 1 = CHR ''-'' then drop 2 a else drop 1 a"
    let ?flag = "takeWhile (\<lambda>c. c \<noteq> CHR ''='') ?name"
    note step = parse_flags.simps(2) parse_command_line.simps(2) go if_False Let_def m
    show ?thesis
    proof (cases "?name = [] \<or> hd ?name = CHR ''-'' \<or> hd ?name = CHR ''=''")
      case True
      then show ?thesis by (simp only: step if_True parsed.case)
    next
      case ok: False
      note IH = 2 [OF go refl refl ok]
      show ?thesis
      proof (cases "map_of fs ?flag")
        case None
        then show ?thesis by (simp only: step ok option.case option.map split: if_split) simp
      next
        case (Some put)
        show ?thesis
        proof (cases "?flag = ?name")
          case True
          then show ?thesis using IH(2) [OF Some]
            by (cases args) (simp_all only: step ok Some Some [unfolded True] option.case option.map True simp_thms if_False if_True list.case
                parsed.case set_flag.simps flag.disc)
        next
          case False
          then show ?thesis using IH(1) [OF Some]
            by (simp only: step ok Some option.case option.map False simp_thms if_False if_True set_flag.simps)
        qed
      qed
    qed
  qed
qed simp

section \<open>What is printed is read back\<close>

abbreviation val_from :: "nat \<Rightarrow> string \<Rightarrow> nat" where
  "val_from n s \<equiv> foldl (\<lambda>a c. 10 * a + digit_val c) n s"

lemma digits_of_itoa: "val_from 0 (nat_itoa n) = n" "list_all is_digit (nat_itoa n)" "nat_itoa n \<noteq> []"
  using digits_nat_itoa [of n] by (simp_all add: digits_val_def)

lemma base_digits_decimal:
  "list_all is_digit s \<Longrightarrow> val_from n s < 2 ^ 64 \<Longrightarrow> base_digits 10 n s = Some (val_from n s)"
proof (induction s arbitrary: n)
  case (Cons c s)
  have "c \<noteq> CHR ''_''" "digit_val c < 10" using Cons.prems(1) by (auto simp: is_digit_def digit_val_def)
  moreover have "n * 10 + digit_val c < 2 ^ 64" using Cons.prems(2) digits_val_ge [of "10 * n + digit_val c" s] by simp
  ultimately show ?case using Cons by (simp add: letter_digit_def Let_def mult.commute)
qed simp

lemma parse_uint0_itoa: "n < 2 ^ 64 \<Longrightarrow> parse_uint0 (nat_itoa n) = Some n"
proof -
  assume n: "n < 2 ^ 64"
  obtain c cs where c: "nat_itoa n = c # cs" using nat_itoa_hd by blast
  have "CHR ''_'' \<notin> set (nat_itoa n)" using digits_of_itoa(2) [of n] by (auto simp: list_all_iff is_digit_def)
  moreover have "nat_itoa n = ''0'' \<and> n = 0 \<or> base_prefix (nat_itoa n) = (10, nat_itoa n)"
    using nat_itoa_leading [of n] digits_of_itoa(1) [of n] c by (auto simp: base_prefix_def digit_val_def)
  ultimately show "parse_uint0 (nat_itoa n) = Some n"
    using digits_of_itoa [of n] base_digits_decimal [of "nat_itoa n" 0] n
    by (auto simp: parse_uint0_def) (simp add: base_prefix_def)
qed

lemma split_sign_itoa: "split_sign (itoa i @ s) = (i < 0, nat_itoa (nat \<bar>i\<bar>) @ s)"
proof -
  obtain c cs where c: "nat_itoa (nat i) = c # cs" "is_digit c" using nat_itoa_hd by blast
  then show ?thesis by (auto simp: split_sign_def itoa_def is_digit_def)
qed

lemma parse_int0_itoa: "in_int64 i \<Longrightarrow> parse_int0 (itoa i) = Some i"
proof -
  assume i: "in_int64 i"
  then have "nat \<bar>i\<bar> < 2 ^ 64" and r: "i < 0 \<Longrightarrow> nat \<bar>i\<bar> \<le> 2 ^ 63" "0 \<le> i \<Longrightarrow> nat \<bar>i\<bar> < 2 ^ 63"
    by (auto simp: in_int64_def min_int64_def max_int64_def nat_less_iff nat_le_iff)
  from parse_uint0_itoa [OF this(1)] show "parse_int0 (itoa i) = Some i"
    using split_sign_itoa [of i "[]"] r by (cases "i < 0") (auto simp: parse_int0_def)
qed

lemma leading_int_digits:
  "list_all is_digit ds \<Longrightarrow> rest = [] \<or> \<not> is_digit (hd rest) \<Longrightarrow> x \<le> 2 ^ 63 \<Longrightarrow>
    leading_int x (ds @ rest) = (if val_from x ds \<le> 2 ^ 63 then Some (val_from x ds, rest) else None)"
proof (induction ds arbitrary: x)
  case Nil
  then show ?case by (cases rest) simp_all
next
  case (Cons c ds)
  have ge: "10 * x + digit_val c \<le> val_from x (c # ds)" using digits_val_ge [of "10 * x + digit_val c" ds] by simp
  show ?case
  proof (cases "10 * x + digit_val c \<le> 2 ^ 63")
    case True
    then have "\<not> 2 ^ 63 div 10 < x" by simp
    then show ?thesis using Cons True by (simp add: Let_def)
  next
    case False
    then show ?thesis using Cons.prems ge by (auto simp: Let_def)
  qed
qed

lemma unit_map_chars: "map_of unit_map u = Some n \<Longrightarrow> u \<noteq> [] \<and> list_all unit_char u \<and> 0 < n"
  by (auto simp: unit_map_def is_digit_def split: if_splits)

lemma duration_element_unit:
  assumes "map_of unit_map u = Some n"
  shows "duration_element (nat_itoa k @ u) = (if k * n \<le> 2 ^ 63 then Some (k * n, []) else None)"
proof -
  note U = unit_map_chars [OF assms]
  have t: "takeWhile unit_char u = u" using U by (auto simp: takeWhile_eq_all_conv list_all_iff)
  obtain c cs where u: "u = c # cs" "unit_char c" using U by (cases u) auto
  obtain d ds where k: "nat_itoa k = d # ds" "is_digit d" using nat_itoa_hd by blast
  have l: "leading_int 0 (nat_itoa k @ u) = (if k \<le> 2 ^ 63 then Some (k, u) else None)"
    using leading_int_digits [of "nat_itoa k" u 0] digits_of_itoa [of k] u by simp
  have kn: "k * n \<le> 2 ^ 63 \<Longrightarrow> k \<le> 2 ^ 63 div n" "\<not> k * n \<le> 2 ^ 63 \<Longrightarrow> 2 ^ 63 div n < k"
    using less_eq_div_iff_mult_less_eq [of n k "2 ^ 63"] U by linarith+
  have h: "nat_itoa k @ u \<noteq> []" "\<not> unit_char (hd (nat_itoa k @ u))" using k by simp_all
  have e: "u \<noteq> nat_itoa k @ u" using k by simp
  show ?thesis
  proof (cases "k \<le> 2 ^ 63")
    case True
    then have np: "number_part (nat_itoa k @ u) = Some (k, 0, 1, u, True)"
      using l u(2) e unfolding number_part_def u(1) by simp
    show ?thesis unfolding duration_element_def np Let_def option.case prod.case t assms
      using h U kn by (cases "k * n \<le> 2 ^ 63") simp_all
  next
    case False
    then have "\<not> k * n \<le> 2 ^ 63" using U by (cases n) auto
    moreover have "number_part (nat_itoa k @ u) = None" using l False by (simp add: number_part_def)
    ultimately show ?thesis by (simp add: duration_element_def)
  qed
qed

lemma parse_duration_unit:
  assumes "map_of unit_map u = Some n"
  shows "parse_duration (itoa i @ u) = (if in_int64 (i * int n) then Some (i * int n) else None)"
proof -
  note U = unit_map_chars [OF assms]
  let ?k = "nat \<bar>i\<bar>"
  have ne: "nat_itoa ?k @ u \<noteq> []" "nat_itoa ?k @ u \<noteq> ''0''"
    using U digits_of_itoa(3) [of ?k] by (auto simp: append_eq_Cons_conv)
  obtain m where m: "m = ?k * n" by blast
  have l: "duration_loop 0 (nat_itoa ?k @ u) = (if m \<le> 2 ^ 63 then Some m else None)"
    using ne(1) by (simp add: m duration_loop.simps [of 0 "nat_itoa ?k @ u"] duration_element_unit [OF assms]
        duration_loop.simps [of _ "[]"] digits_of_itoa(3))
  have x: "i * int n = (if i < 0 then - int m else int m)" by (simp add: m)
  show ?thesis unfolding x using ne l
    by (cases "i < 0") (auto simp: parse_duration_def split_sign_itoa in_int64_def min_int64_def max_int64_def)
qed

end
