(* ===== verification/AgentMain.thy ===== *)
theory AgentMain
  imports Agent AgentOptions AgentConfig RuntimeDebug GoFlags
begin

text \<open>
  The process \<^verbatim>\<open>mini-sb-agent\<close> from its command line to its exit code:
  \<^verbatim>\<open>main\<close> of \<^verbatim>\<open>cmd/mini-sb-agent/main.go\<close> with its flags, the
  build variants and the registries of sing-box that it chooses. What sing-box does with the
  registries and the options (\<open>parse\<close>, \<open>new_box\<close>, whether it starts) is an argument.
\<close>

section \<open>Build variants and registries\<close>

definition user_rate_limit_build_enabled :: "string list \<Rightarrow> bool" where
  "user_rate_limit_build_enabled tags \<longleftrightarrow> ''nouserlimit'' \<notin> set tags"

definition tun_build_enabled :: "string list \<Rightarrow> bool" where
  "tun_build_enabled tags \<longleftrightarrow> ''tun'' \<in> set tags"

text \<open>A registry is the list of what has registered itself with it.\<close>

datatype registration = VlessInbound | Hysteria2Inbound | TunInbound | DirectOutbound | BlockOutbound | DNSOutbound
  | DNSOverUDP | DNSOverTCP | DNSOverTLS | DNSOverHTTPS | DNSLocal | DNSHosts

record registries =
  rg_inbounds :: "registration list"
  rg_outbounds :: "registration list"
  rg_endpoints :: "registration list"
  rg_dns :: "registration list"
  rg_services :: "registration list"

definition register_optional_inbounds :: "string list \<Rightarrow> registration list \<Rightarrow> registration list" where
  "register_optional_inbounds tags registry = (if tun_build_enabled tags then registry @ [TunInbound] else registry)"

definition minimal_context :: "string list \<Rightarrow> registries" where
  "minimal_context tags = \<lparr>rg_inbounds = register_optional_inbounds tags [VlessInbound, Hysteria2Inbound],
     rg_outbounds = [DirectOutbound, BlockOutbound, DNSOutbound], rg_endpoints = [],
     rg_dns = [DNSOverUDP, DNSOverTCP, DNSOverTLS, DNSOverHTTPS, DNSLocal, DNSHosts], rg_services = []\<rparr>"

section \<open>Flags\<close>

record main_flags = agent_flags +
  mf_config :: string
  mf_api :: string
  mf_hy2_up_mbps :: int
  mf_hy2_down_mbps :: int
  mf_hy2_ignore_client_bandwidth :: bool
  mf_hy2_brutal_debug :: bool
  mf_debug_runtime_log :: string
  mf_debug_runtime_every :: int

definition default_flags :: main_flags where
  "default_flags = \<lparr>af_users = [], af_panel_url = [], af_panel_token = [], af_panel_node_id = [], af_panel_node_type = ''vless'',
     af_panel_hy2_node_id = [], af_panel_hy2_node_type = ''hysteria'', af_panel_every = 60000000000, af_node_rate_mbps = 0,
     mf_config = ''config.json'', mf_api = ''unix:/tmp/mini-sb-agent.sock'', mf_hy2_up_mbps = 0, mf_hy2_down_mbps = 0,
     mf_hy2_ignore_client_bandwidth = False, mf_hy2_brutal_debug = False, mf_debug_runtime_log = [],
     mf_debug_runtime_every = 1000000000\<rparr>"

definition main_flag_set :: "(string \<times> main_flags flag) list" where
  "main_flag_set = [(''config'', StringFlag (\<lambda>v. mf_config_update (\<lambda>_. v))), (''api'', StringFlag (\<lambda>v. mf_api_update (\<lambda>_. v))),
     (''users'', StringFlag (\<lambda>v. af_users_update (\<lambda>_. v))), (''panel-url'', StringFlag (\<lambda>v. af_panel_url_update (\<lambda>_. v))),
     (''panel-token'', StringFlag (\<lambda>v. af_panel_token_update (\<lambda>_. v))),
     (''panel-node-id'', StringFlag (\<lambda>v. af_panel_node_id_update (\<lambda>_. v))),
     (''panel-node-type'', StringFlag (\<lambda>v. af_panel_node_type_update (\<lambda>_. v))),
     (''panel-hy2-node-id'', StringFlag (\<lambda>v. af_panel_hy2_node_id_update (\<lambda>_. v))),
     (''panel-hy2-node-type'', StringFlag (\<lambda>v. af_panel_hy2_node_type_update (\<lambda>_. v))),
     (''panel-every'', DurationFlag (\<lambda>v. af_panel_every_update (\<lambda>_. v))),
     (''node-rate-mbps'', IntFlag (\<lambda>v. af_node_rate_mbps_update (\<lambda>_. v))),
     (''hy2-up-mbps'', IntFlag (\<lambda>v. mf_hy2_up_mbps_update (\<lambda>_. v))),
     (''hy2-down-mbps'', IntFlag (\<lambda>v. mf_hy2_down_mbps_update (\<lambda>_. v))),
     (''hy2-ignore-client-bandwidth'', BoolFlag (\<lambda>v. mf_hy2_ignore_client_bandwidth_update (\<lambda>_. v))),
     (''hy2-brutal-debug'', BoolFlag (\<lambda>v. mf_hy2_brutal_debug_update (\<lambda>_. v))),
     (''debug-runtime-log'', StringFlag (\<lambda>v. mf_debug_runtime_log_update (\<lambda>_. v))),
     (''debug-runtime-every'', DurationFlag (\<lambda>v. mf_debug_runtime_every_update (\<lambda>_. v)))]"

text \<open>Every flag written out as an argument of its own.\<close>

definition flag_arg :: "string \<Rightarrow> string \<Rightarrow> string" where
  "flag_arg name v = ''-'' @ name @ ''='' @ v"

definition bool_text :: "bool \<Rightarrow> string" where
  "bool_text b = (if b then ''true'' else ''false'')"

definition write_flags :: "main_flags \<Rightarrow> string list" where
  "write_flags f = [flag_arg ''config'' (mf_config f), flag_arg ''api'' (mf_api f), flag_arg ''users'' (af_users f),
     flag_arg ''panel-url'' (af_panel_url f), flag_arg ''panel-token'' (af_panel_token f),
     flag_arg ''panel-node-id'' (af_panel_node_id f), flag_arg ''panel-node-type'' (af_panel_node_type f),
     flag_arg ''panel-hy2-node-id'' (af_panel_hy2_node_id f), flag_arg ''panel-hy2-node-type'' (af_panel_hy2_node_type f),
     flag_arg ''panel-every'' (itoa (af_panel_every f) @ ''ns''), flag_arg ''node-rate-mbps'' (itoa (af_node_rate_mbps f)),
     flag_arg ''hy2-up-mbps'' (itoa (mf_hy2_up_mbps f)), flag_arg ''hy2-down-mbps'' (itoa (mf_hy2_down_mbps f)),
     flag_arg ''hy2-ignore-client-bandwidth'' (bool_text (mf_hy2_ignore_client_bandwidth f)),
     flag_arg ''hy2-brutal-debug'' (bool_text (mf_hy2_brutal_debug f)), flag_arg ''debug-runtime-log'' (mf_debug_runtime_log f),
     flag_arg ''debug-runtime-every'' (itoa (mf_debug_runtime_every f) @ ''ns'')]"

lemma parse_flag_arg:
  assumes "map_of fs name = Some f" and "name \<noteq> []" and "hd name \<noteq> CHR ''-''" and "CHR ''='' \<notin> set name"
  shows "parse_command_line fs (flag_arg name v # args) opts
    = (case set_flag f v opts of None \<Rightarrow> FlagExit 2 | Some opts' \<Rightarrow> parse_command_line fs args opts')"
proof -
  obtain c cs where n: "name = c # cs" using assms(2) by (cases name) auto
  have "takeWhile (\<lambda>c. c \<noteq> CHR ''='') (name @ ''='' @ v) = name"
    using assms(4) by (subst takeWhile_append2) auto
  then show ?thesis using assms n by (auto simp: flag_arg_def Let_def)
qed

lemma bool_text_read: "parse_bool (bool_text b) = Some b"
  by (cases b) (simp_all add: bool_text_def parse_bool_def)

lemma duration_read: "in_int64 i \<Longrightarrow> parse_duration (itoa i @ ''ns'') = Some i"
  by (subst parse_duration_unit [of _ 1]) (simp_all add: unit_map_def)

text \<open>C40. Any settings can be given on the command line: written out flag by flag they are read back
  exactly, whatever characters the texts contain and whatever the defaults are.\<close>

theorem main_flags_roundtrip:
  assumes "list_all in_int64 [af_panel_every f, af_node_rate_mbps f, mf_hy2_up_mbps f, mf_hy2_down_mbps f, mf_debug_runtime_every f]"
  shows "parse_command_line main_flag_set (write_flags f) opts = Parsed f"
  using assms
  by (simp add: write_flags_def parse_flag_arg main_flag_set_def parse_int0_itoa bool_text_read duration_read del: parse_command_line.simps)
    simp

section \<open>The process\<close>

text \<open>What \<^verbatim>\<open>main\<close> meets: sing-box with its parser of options, its constructor and whether
  the box starts; whether the debug log opens and how much of its heading is written; whether the
  goroutine of the statistics endpoint gets to run before the box has started; and the clock, the network,
  the disk and the wake-ups of the synchroniser.\<close>

record ('w, 'x, 'i) process_env =
  pe_parse :: "registries \<Rightarrow> string \<Rightarrow> 'x options option"
  pe_zero_log :: "'x log_options"
  pe_new_box :: "registries \<Rightarrow> 'x options \<Rightarrow> 'i inbounds option"
  pe_box_starts :: bool
  pe_log_fails :: bool
  pe_log_torn :: "nat option"
  pe_stats_early :: bool
  pe_perm :: "(int \<times> user) list \<Rightarrow> (int \<times> user) list"
  pe_ops :: "'i box_ops"
  pe_now :: int
  pe_transport :: "'w transport"
  pe_disk :: disk
  pe_pem :: pem_source
  pe_first :: "'i agent \<Rightarrow> 'i agent"
  pe_wakes :: "'i agent wake list"

text \<open>Up to the box: the options are loaded with the tuning of the flags and the box is made of them,
  both in the registries of the build.\<close>

definition build_box :: "string list \<Rightarrow> ('w, 'x, 'i) process_env \<Rightarrow> main_flags \<Rightarrow> fs \<Rightarrow> 'i inbounds option" where
  "build_box tags e f files =
     (let tuning = tuning_of_flags (mf_hy2_up_mbps f) (mf_hy2_down_mbps f) (mf_hy2_ignore_client_bandwidth f) (mf_hy2_brutal_debug f)
      in case load_options_with_hy2_tuning (pe_parse e (minimal_context tags)) (pe_zero_log e) files (mf_config f) tuning of
           None \<Rightarrow> None | Some opts \<Rightarrow> pe_new_box e (minimal_context tags) opts)"

definition open_stats :: "main_flags \<Rightarrow> fs \<Rightarrow> fs" where
  "open_stats f files = (if mf_api f \<noteq> [] then clear_socket (mf_api f) files else files)"

text \<open>After the flags: the rows of the debug log are in \<open>start_runtime_debug_logger\<close>, here it is only opened.
  The result is the exit code and, when the agent ran until its context was done, its last state.\<close>

definition serve_agent :: "string list \<Rightarrow> ('w, 'x, 'i) process_env \<Rightarrow> main_flags \<Rightarrow> 'w \<times> fs \<Rightarrow>
    ('w \<times> fs) \<times> nat \<times> 'i agent option" where
  "serve_agent tags e f = (\<lambda>(w, files).
     case start_runtime_debug_logger (mf_debug_runtime_log f) (pe_log_fails e) (pe_log_torn e) [] files of
       (files1, False) \<Rightarrow> ((w, files1), 1, None)
     | (files1, True) \<Rightarrow> (case build_box tags e f files1 of
         None \<Rightarrow> ((w, files1), 1, None)
       | Some inb \<Rightarrow>
           (let files2 = (if pe_stats_early e then open_stats f files1 else files1)
            in if \<not> pe_box_starts e then ((w, files2), 1, None)
               else case agent_main (user_rate_limit_build_enabled tags) (pe_perm e) (pe_ops e) (pe_now e) (pe_transport e)
                   (agent_flags.truncate f) inb (pe_first e) (pe_wakes e) (w, files2) of
                 None \<Rightarrow> ((w, files2), 1, None)
               | Some ((w', files3), a) \<Rightarrow>
                   ((w', if pe_stats_early e then files3 else open_stats f files3), 0, Some a))))"

definition agent_process :: "string list \<Rightarrow> ('w, 'x, 'i) process_env \<Rightarrow> string list \<Rightarrow> 'w \<times> fs \<Rightarrow>
    ('w \<times> fs) \<times> nat \<times> 'i agent option" where
  "agent_process tags e args world =
     (if args \<noteq> [] \<and> hd args = ''xboard-generate-config'' then
        (case run_xboard_generate_config (pe_transport e) (pe_disk e) (pe_pem e) (tl args) (fst world) (snd world) of
           (w', files', code) \<Rightarrow> ((w', files'), code, None))
      else case parse_command_line main_flag_set args default_flags of
        FlagExit n \<Rightarrow> (world, n, None)
      | Parsed f \<Rightarrow> serve_agent tags e f world)"

section \<open>What a panel leaves alone\<close>

text \<open>A property of the panel's world that its two operations keep is kept by the synchroniser.\<close>

locale guarded_panel =
  fixes pan :: "'p panel_ops" and good :: "'p \<Rightarrow> bool"
  assumes fetch_good: "good p \<Longrightarrow> good (fst (fetch_users pan p))"
    and push_good: "good p \<Longrightarrow> good (fst (push_traffic pan d p))"
begin

lemma flush_good:
  assumes "panel sy = Some pan" and "good (fst st)"
  shows "good (fst (flush sy env st))"
proof (cases st)
  case (Pair p s)
  show ?thesis using push_good [of p] assms
    by (auto simp: flush_def Pair Let_def split: option.split prod.split bool.split) (metis fst_conv)+
qed

lemma sync_once_good:
  assumes "panel sy = Some pan" and "good (fst st)"
  shows "good (fst (sync_once sy env st))"
proof (cases st)
  case (Pair p s)
  have "good (fst (fetch_users pan p))" using fetch_good assms(2) Pair by simp
  then show ?thesis using flush_good [OF assms(1)] assms(1)
    by (simp add: sync_once_def Pair case_prod_beta Let_def)
qed

lemma run_loop_good:
  "panel sy = Some pan \<Longrightarrow> good (fst st) \<Longrightarrow> good (fst (fst (run_loop sy ws st)))"
proof (induction sy ws st rule: run_loop.induct)
  case (2 sy i f ws st)
  then show ?case using flush_good [of sy "(fst st, i (snd st))"] by simp
next
  case (3 sy i f ws st)
  then show ?case using sync_once_good [of sy "(fst st, i (snd st))"] by simp
qed simp

lemma run_good:
  assumes "panel sy = Some pan" and "good (fst st)"
  shows "good (fst (fst (run sy env ws st)))"
  unfolding run_def Let_def by (rule run_loop_good) (simp_all add: sync_once_good assms)

end

interpretation net: guarded_panel "on_network p" "\<lambda>world. snd world = files0" for p :: "'w panel_ops" and files0 :: fs
  by unfold_locales (auto simp: on_network_def split: prod.split)

interpretation loc: guarded_panel "on_files (local_panel path)" "\<lambda>world. world = world0" for path :: string and world0 :: "'w \<times> fs"
  by unfold_locales (auto simp: on_files_def local_panel_def split: prod.split)

interpretation two: guarded_panel "multi_panel [Some (on_network p), Some (on_network q)]" "\<lambda>world. snd world = files0"
  for p q :: "'w panel_ops" and files0 :: fs
  by unfold_locales
    (auto simp: multi_panel_def on_network_def split: prod.split option.split bool.split)

lemma choose_panel_cases:
  assumes "choose_panel tr f = Some pan"
  shows "(\<exists>p q. pan = multi_panel [Some (on_network p), Some (on_network q)]) \<and> af_panel_url f \<noteq> []
    \<or> (\<exists>p. pan = on_network p) \<and> af_panel_url f \<noteq> [] \<or> pan = on_files (local_panel (af_users f))"
  using assms unfolding choose_panel_def Let_def by (simp split: if_splits) blast+

lemma choose_panel_files:
  assumes "choose_panel tr f = Some pan" and "panel sy = Some pan"
  shows "snd (fst (fst (run sy env ws (world, a)))) = snd world"
  using choose_panel_cases [OF assms(1)]
proof (elim disjE exE conjE)
  fix p q assume "pan = multi_panel [Some (on_network p), Some (on_network q)]"
  then show ?thesis using two.run_good [of sy _ _ "(world, a)" "snd world"] assms(2) by simp
next
  fix p assume "pan = on_network p"
  then show ?thesis using net.run_good [of sy _ "(world, a)" "snd world"] assms(2) by simp
next
  assume "pan = on_files (local_panel (af_users f))"
  then show ?thesis using loc.run_good [of sy _ "(world, a)" world] assms(2) by simp
qed

lemma choose_panel_offline:
  assumes "choose_panel tr f = Some pan" and "af_panel_url f = []" and "panel sy = Some pan"
  shows "fst (fst (run sy env ws (world, a))) = world"
  using loc.run_good [of sy _ "(world, a)" world] choose_panel_cases [OF assms(1)] assms(2,3) by auto

lemma agent_main_world:
  fixes world :: "'w \<times> fs"
  assumes "agent_main enabled perm ops now tr f inb env ws world = Some (world', a)"
  shows "snd world' = snd world" and "af_panel_url f = [] \<Longrightarrow> world' = world"
proof -
  obtain a0 where c: "choose_panel tr f = None \<and> world' = world \<or> (\<exists>pan. choose_panel tr f = Some pan
      \<and> (world', a) = fst (run (agent_syncer enabled perm ops now (Some pan) (af_panel_every f)) env ws (world, a0)))"
    using assms by (simp add: agent_main_def split: option.splits) metis+
  have p: "panel (agent_syncer enabled perm ops now (Some pan) e) = Some pan" for pan :: "('w \<times> fs) panel_ops" and e
    by (simp add: agent_syncer_def)
  show "snd world' = snd world" using c choose_panel_files [OF _ p] by (metis fst_conv)
  show "world' = world" if "af_panel_url f = []" using c choose_panel_offline [OF _ that p] by (metis fst_conv)
qed

text \<open>Files are touched at two places only.\<close>

definition touched :: "main_flags \<Rightarrow> string \<Rightarrow> bool" where
  "touched f p \<longleftrightarrow> p = mf_debug_runtime_log f \<and> p \<noteq> [] \<or> stats_address (mf_api f) = UnixSocket p"

lemma open_log_touches:
  "start_runtime_debug_logger (mf_debug_runtime_log f) fails torn [] files = (files', ok) \<Longrightarrow> \<not> touched f p \<Longrightarrow> files' p = files p"
  by (auto simp: start_runtime_debug_logger_def open_debug_log_def append_some_def touched_def Let_def
      split: if_splits option.splits prod.splits)

lemma open_stats_touches: "\<not> touched f p \<Longrightarrow> open_stats f files p = files p"
  by (auto simp: open_stats_def clear_socket_def touched_def split: listen_address.split)

section \<open>How the process ends\<close>

lemma serve_agent_cases:
  assumes "serve_agent tags e f (w, files) = ((w', files'), code, fin)"
  obtains (dead) files1 ok where
      "start_runtime_debug_logger (mf_debug_runtime_log f) (pe_log_fails e) (pe_log_torn e) [] files = (files1, ok)"
      and "w' = w" and "code = 1" and "fin = None" and "files' = files1 \<or> files' = open_stats f files1"
  | (alive) files1 files2 files3 a inb where
      "start_runtime_debug_logger (mf_debug_runtime_log f) (pe_log_fails e) (pe_log_torn e) [] files = (files1, True)"
      and "files2 = files1 \<or> files2 = open_stats f files1"
      and "agent_main (user_rate_limit_build_enabled tags) (pe_perm e) (pe_ops e) (pe_now e) (pe_transport e)
        (agent_flags.truncate f) inb (pe_first e) (pe_wakes e) (w, files2) = Some ((w', files3), a)"
      and "files' = files3 \<or> files' = open_stats f files3" and "code = 0" and "fin = Some a"
proof -
  obtain files1 ok where l: "start_runtime_debug_logger (mf_debug_runtime_log f) (pe_log_fails e) (pe_log_torn e) [] files = (files1, ok)"
    by fastforce
  let ?files2 = "if pe_stats_early e then open_stats f files1 else files1"
  let ?main = "\<lambda>inb. agent_main (user_rate_limit_build_enabled tags) (pe_perm e) (pe_ops e) (pe_now e) (pe_transport e)
        (agent_flags.truncate f) inb (pe_first e) (pe_wakes e) (w, ?files2)"
  note d = dead [OF l]
  show thesis
  proof (cases "ok \<and> pe_box_starts e")
    case False
    then show thesis using assms l d
      by (auto simp: serve_agent_def Let_def split: bool.splits option.splits if_splits)
  next
    case True
    show thesis
    proof (cases "build_box tags e f files1")
      case None
      then show thesis using assms l True d by (simp add: serve_agent_def)
    next
      case (Some inb)
      show thesis
      proof (cases "?main inb")
        case None
        then show thesis using assms l True Some d by (simp add: serve_agent_def Let_def split: if_splits)
      next
        case m: (Some r)
        obtain w3 files3 a where r: "r = ((w3, files3), a)" by (metis prod.exhaust)
        have "w3 = w'" "code = 0" "fin = Some a" "files' = files3 \<or> files' = open_stats f files3"
          using assms l True Some m r by (simp_all add: serve_agent_def Let_def split: if_splits)
        moreover have "?files2 = files1 \<or> ?files2 = open_stats f files1" by simp
        ultimately show thesis using alive [of files1 ?files2 inb files3 a] l True m r by simp
      qed
    qed
  qed
qed

lemma serve_agent_touches:
  assumes "serve_agent tags e f (w, files) = ((w', files'), code, fin)"
  shows "code = (if fin = None then 1 else 0)" and "\<not> touched f p \<Longrightarrow> files' p = files p"
    and "fin = None \<or> af_panel_url f = [] \<Longrightarrow> w' = w"
proof -
  note t = open_log_touches open_stats_touches
  have u: "af_panel_url (agent_flags.truncate f) = af_panel_url f" by (simp add: agent_flags.truncate_def)
  from assms show "code = (if fin = None then 1 else 0)" by (rule serve_agent_cases) simp_all
  from assms show "files' p = files p" if "\<not> touched f p"
  proof (rule serve_agent_cases)
    fix files1 ok assume "start_runtime_debug_logger (mf_debug_runtime_log f) (pe_log_fails e) (pe_log_torn e) [] files = (files1, ok)"
      and "files' = files1 \<or> files' = open_stats f files1"
    then show ?thesis using t \<open>\<not> touched f p\<close> by metis
  next
    fix files1 files2 files3 a inb
    assume "start_runtime_debug_logger (mf_debug_runtime_log f) (pe_log_fails e) (pe_log_torn e) [] files = (files1, True)"
      and "files2 = files1 \<or> files2 = open_stats f files1" and "files' = files3 \<or> files' = open_stats f files3"
      and m: "agent_main (user_rate_limit_build_enabled tags) (pe_perm e) (pe_ops e) (pe_now e) (pe_transport e)
        (agent_flags.truncate f) inb (pe_first e) (pe_wakes e) (w, files2) = Some ((w', files3), a)"
    then show ?thesis using t \<open>\<not> touched f p\<close> agent_main_world(1) [OF m] by (metis snd_conv)
  qed
  from assms show "w' = w" if "fin = None \<or> af_panel_url f = []"
    by (rule serve_agent_cases) (use that u in \<open>auto dest!: agent_main_world(2)\<close>)
qed

lemma serve_agent_ok:
  assumes "serve_agent tags e f (w, files) = ((w', files'), code, Some a)" and "user_rate_limit_build_enabled tags"
    and "some_order (pe_perm e)" and "by_connections (pe_first e)"
    and "\<forall>x \<in> set (pe_wakes e). by_connections (idle x) \<and> by_connections (inflight x)"
  shows "agent_ok a"
  using assms(1) by (rule serve_agent_cases) (use assms(2) agent_main_ok [OF assms(3-5)] in auto)

text \<open>C24. How \<^verbatim>\<open>mini-sb-agent\<close> ends when it is not asked to generate a configuration.
  A command line that it cannot read, or a request for help, ends it with 2 or 0 before anything has
  happened. After that it ends with 1 exactly when it has not come to serve, and then
  nothing has been sent to the network; otherwise with 0. Whatever happens, no file is touched but the
  debug log and the socket of the statistics endpoint; without a panel address the network is never used;
  and in a build with user rate limits the state of the agent is consistent at the end.\<close>

theorem agent_process_outcome:
  assumes "agent_process tags e args (w, files) = ((w', files'), code, fin)" and "take 1 args \<noteq> [''xboard-generate-config'']"
    and "some_order (pe_perm e)" and "by_connections (pe_first e)"
    and "\<forall>x \<in> set (pe_wakes e). by_connections (idle x) \<and> by_connections (inflight x)"
  shows "case parse_command_line main_flag_set args default_flags of
      FlagExit n \<Rightarrow> (w', files', code, fin) = (w, files, n, None) \<and> (code = 0 \<or> code = 2)
    | Parsed f \<Rightarrow> code = (if fin = None then 1 else 0) \<and> (fin = None \<or> af_panel_url f = [] \<longrightarrow> w' = w)
        \<and> (\<forall>p. files' p \<noteq> files p \<longrightarrow> p = mf_debug_runtime_log f \<and> p \<noteq> [] \<or> stats_address (mf_api f) = UnixSocket p)
        \<and> (\<forall>a. fin = Some a \<and> ''nouserlimit'' \<notin> set tags \<longrightarrow> agent_ok a)"
proof (cases "parse_command_line main_flag_set args default_flags")
  case (FlagExit n)
  then show ?thesis using assms(1,2) parse_exit_code [OF FlagExit]
    by (auto simp: agent_process_def neq_Nil_conv split: if_splits)
next
  case (Parsed f)
  then have s: "serve_agent tags e f (w, files) = ((w', files'), code, fin)"
    using assms(1,2) by (auto simp: agent_process_def neq_Nil_conv split: if_splits)
  have "agent_ok a" if "fin = Some a" "''nouserlimit'' \<notin> set tags" for a
    using serve_agent_ok [OF s [unfolded that(1)] _ assms(3-5)] that(2) by (simp add: user_rate_limit_build_enabled_def)
  then show ?thesis using serve_agent_touches [OF s] by (auto simp: Parsed touched_def)
qed

section \<open>A concrete process\<close>

definition demo_process :: "(unit, unit, list_inbound) process_env" where
  "demo_process = \<lparr>pe_parse = (\<lambda>_ _. Some \<lparr>op_log = None, op_inbounds = [], op_rest = ()\<rparr>),
     pe_zero_log = \<lparr>lo_level = [], lo_timestamp = False, lo_rest = ()\<rparr>, pe_new_box = (\<lambda>_ _. Some []), pe_box_starts = True,
     pe_log_fails = False, pe_log_torn = None, pe_stats_early = False, pe_perm = id, pe_ops = list_ops, pe_now = 0,
     pe_transport = (\<lambda>q w. (w, HttpError)), pe_disk = sound_disk, pe_pem = (\<lambda>_. None), pe_first = (\<lambda>a. a),
     pe_wakes = [Tick (\<lambda>a. a) (\<lambda>a. a), CtxDone (\<lambda>a. a) (\<lambda>a. a)]\<rparr>"

definition demo_args :: "string list" where
  "demo_args = [''-users=u'', ''--node-rate-mbps'', ''10'', ''-hy2-brutal-debug'', ''-api='']"

definition demo_flags :: main_flags where
  "demo_flags = default_flags\<lparr>af_users := ''u'', af_node_rate_mbps := 10, mf_hy2_brutal_debug := True, mf_api := []\<rparr>"

lemma demo_args_read: "parse_command_line main_flag_set demo_args default_flags = Parsed demo_flags"
proof -
  have "itoa 10 = ''10''" by code_simp
  then have "parse_int0 ''10'' = Some 10"
    using parse_int0_itoa [of 10] by (simp add: in_int64_def min_int64_def max_int64_def)
  then show ?thesis
    by (simp add: demo_args_def demo_flags_def main_flag_set_def Let_def parse_bool_def)
qed

lemma agent_main_starts: "agent_start enabled perm ops now f (snd world) (new_agent now f inb) \<noteq> None \<Longrightarrow>
    \<exists>r. agent_main enabled perm ops now tr f inb env ws world = Some r"
  by (cases "choose_panel tr f") (auto simp: agent_main_def simp del: split_paired_Ex)

lemma demo_starts: "\<exists>a. agent_process [] demo_process demo_args (fst local_world, (snd local_world)(''config.json'' \<mapsto> []))
    = ((fst local_world, (snd local_world)(''config.json'' \<mapsto> [])), 0, Some a)"
proof -
  let ?files = "(snd local_world)(''config.json'' \<mapsto> [])"
  have t: "af_users (agent_flags.truncate demo_flags) = ''u''" "af_node_rate_mbps (agent_flags.truncate demo_flags) = 10"
    "af_panel_url (agent_flags.truncate demo_flags) = []"
    by (simp_all add: demo_flags_def default_flags_def agent_flags.truncate_def)
  have l: "af_users local_flags = ''u''" "af_node_rate_mbps local_flags = 10" by (simp_all add: local_flags_def)
  have "load_local_users ?files ''u'' = load_local_users (snd local_world) ''u''" by (simp add: load_local_users_def)
  then have "agent_start True id list_ops 0 (agent_flags.truncate demo_flags) ?files (new_agent 0 (agent_flags.truncate demo_flags) []) \<noteq> None"
    using local_start l by (simp add: agent_start_def new_agent_def t)
  then obtain r where r: "agent_main True id list_ops 0 (\<lambda>q w. (w, HttpError)) (agent_flags.truncate demo_flags) [] (\<lambda>a. a)
      [Tick (\<lambda>a. a) (\<lambda>a. a), CtxDone (\<lambda>a. a) (\<lambda>a. a)] (fst local_world, ?files) = Some r"
    using agent_main_starts by (metis snd_conv)
  obtain world a where ra: "r = (world, a)" by fastforce
  have w: "world = (fst local_world, ?files)" using agent_main_world(2) [OF r [unfolded ra] t(3)] .
  have f: "mf_debug_runtime_log demo_flags = []" "mf_api demo_flags = []" "mf_config demo_flags = ''config.json''"
    by (simp_all add: demo_flags_def default_flags_def)
  have "serve_agent [] demo_process demo_flags (fst local_world, ?files) = ((fst local_world, ?files), 0, Some a)"
    using r unfolding ra w
    by (simp add: serve_agent_def start_runtime_debug_logger_def f build_box_def load_options_with_hy2_tuning_def
        demo_process_def user_rate_limit_build_enabled_def open_stats_def Let_def)
  then show ?thesis by (simp add: agent_process_def demo_args_read) (simp add: demo_args_def)
qed

theorem agent_process_outcome_witness:
  "\<exists>a. agent_process [] demo_process demo_args (fst local_world, (snd local_world)(''config.json'' \<mapsto> []))
      = ((fst local_world, (snd local_world)(''config.json'' \<mapsto> [])), 0, Some a) \<and> agent_ok a"
proof -
  obtain a where a: "agent_process [] demo_process demo_args (fst local_world, (snd local_world)(''config.json'' \<mapsto> []))
    = ((fst local_world, (snd local_world)(''config.json'' \<mapsto> [])), 0, Some a)" using demo_starts by blast
  have h: "take 1 demo_args \<noteq> [''xboard-generate-config'']" "some_order (pe_perm demo_process)" "by_connections (pe_first demo_process)"
    "\<forall>x \<in> set (pe_wakes demo_process). by_connections (idle x) \<and> by_connections (inflight x)"
    by (simp_all add: demo_args_def demo_process_def some_order_id by_connections_id)
  from agent_process_outcome [OF a h] a show ?thesis by (auto simp: demo_args_read)
qed

definition odd_flags :: main_flags where
  "odd_flags = default_flags\<lparr>af_panel_token := ''-a=b'', af_panel_every := -5, mf_hy2_up_mbps := 200\<rparr>"

theorem main_flags_roundtrip_witness:
  "parse_command_line main_flag_set (write_flags odd_flags) demo_flags = Parsed odd_flags"
  by (rule main_flags_roundtrip) (simp add: odd_flags_def default_flags_def in_int64_def min_int64_def max_int64_def)

end
