(* ===== verification/Serve.thy ===== *)
theory Serve
  imports Api
begin

text \<open>
  The life of the \<^verbatim>\<open>tiny-xboard\<close> process (\<^verbatim>\<open>main.go\<close>): \<^verbatim>\<open>run\<close>
  builds the store and listens, \<^verbatim>\<open>serve\<close> answers requests beside the flusher until it
  is cancelled or the listener ends, and nobody waits for the flusher. A process is the store, the files and what its goroutines have
  begun: the ticker's flush goes through its steps beside the requests, beside the final flush and
  until the process stops, which may cut a write off. \<open>Flusher\<close> has the invariant of the same steps without the process around them.
\<close>

section \<open>The process\<close>

text \<open>The goroutine of \<^verbatim>\<open>runTrafficFlusher\<close>: between two flushes, after it has claimed the dirty flag, with its copy of the
  counters in hand (then it holds \<^verbatim>\<open>saveMu\<close>), after a failed write before it sets the flag again.\<close>

datatype ticker = TickIdle | TickClaimed | TickWriting string | TickFailed

record process =
  pr_store :: store
  pr_files :: fs
  pr_marks :: nat \<comment> \<open>calls of Accumulate between the change of the counters and the flag\<close>
  pr_tick :: ticker

definition start_process :: "store \<Rightarrow> fs \<Rightarrow> process" where
  "start_process s fs = \<lparr>pr_store = s, pr_files = fs, pr_marks = 0, pr_tick = TickIdle\<rparr>"

definition set_dirty :: "bool \<Rightarrow> process \<Rightarrow> process" where
  "set_dirty d p = p\<lparr>pr_store := (pr_store p)\<lparr>st_dirty := d\<rparr>\<rparr>"

definition traffic_bytes :: "int \<Rightarrow> store \<Rightarrow> string" where
  "traffic_bytes now s = marshal (enc_traffic_file (traffic_snapshot now (st_traffic s)))"

text \<open>The steps of the ticker's flush; a step that is not due changes nothing.\<close>

datatype tick = TickClaim | TickCopy int | TickWrite faults | TickRemark

fun on_tick :: "tick \<Rightarrow> process \<Rightarrow> process" where
  "on_tick TickClaim p = (if pr_tick p = TickIdle \<and> st_dirty (pr_store p)
     then (set_dirty False p)\<lparr>pr_tick := TickClaimed\<rparr> else p)"
| "on_tick (TickCopy now) p = (if pr_tick p = TickClaimed
     then p\<lparr>pr_tick := TickWriting (traffic_bytes now (pr_store p))\<rparr> else p)"
| "on_tick (TickWrite fl) p = (case pr_tick p of
     TickWriting data \<Rightarrow> (case atomic_write fl (traffic_path (pr_store p)) data (pr_files p) of
       (fs', ok) \<Rightarrow> p\<lparr>pr_files := fs', pr_tick := (if ok then TickIdle else TickFailed)\<rparr>)
   | _ \<Rightarrow> p)"
| "on_tick TickRemark p = (if pr_tick p = TickFailed then (set_dirty True p)\<lparr>pr_tick := TickIdle\<rparr> else p)"

section \<open>Requests\<close>

text \<open>The multiplexer: any other path is not found.\<close>

definition dispatch :: "bool \<Rightarrow> faults \<Rightarrow> int \<Rightarrow> string \<Rightarrow> request \<Rightarrow> store \<times> fs \<Rightarrow> (store \<times> fs) \<times> response option" where
  "dispatch busy fl mtime path r = (\<lambda>(s, fs). case routes path of
     None \<Rightarrow> ((s, fs), None)
   | Some UserRoute \<Rightarrow> (case handle_user fl mtime s fs r of (s', fs', resp) \<Rightarrow> ((s', fs'), Some resp))
   | Some ConfigRoute \<Rightarrow> ((s, fs), Some (handle_config s r))
   | Some PushRoute \<Rightarrow> (case handle_push busy fl mtime s fs r of (s', fs', resp) \<Rightarrow> ((s', fs'), Some resp)))"

text \<open>\<open>Request\<close> is a request that is answered without anything in between. A push that others interleave with is
  a sequence of \<open>PushCounters\<close> and \<open>PushMark\<close>, the two steps of each \<^verbatim>\<open>Accumulate\<close>.
  \<open>Edit\<close> is what somebody else does to the files of the state directory.\<close>

datatype server_event = Request bool faults int string request | PushCounters int int64 int64 | PushMark
  | Tick tick | Edit "fs \<Rightarrow> fs"

fun on_event :: "server_event \<Rightarrow> process \<Rightarrow> process" where
  "on_event (Request busy fl mtime path r) p = (case fst (dispatch busy fl mtime path r (pr_store p, pr_files p)) of
     (s, fs) \<Rightarrow> p\<lparr>pr_store := s, pr_files := fs\<rparr>)"
| "on_event (PushCounters uid up down) p = (case accumulate uid up down (pr_store p) of
     (s, ok) \<Rightarrow> if ok then p\<lparr>pr_store := s\<lparr>st_dirty := st_dirty (pr_store p)\<rparr>, pr_marks := Suc (pr_marks p)\<rparr> else p)"
| "on_event PushMark p = (case pr_marks p of 0 \<Rightarrow> p | Suc n \<Rightarrow> (set_dirty True p)\<lparr>pr_marks := n\<rparr>)"
| "on_event (Tick t) p = on_tick t p"
| "on_event (Edit f) p = p\<lparr>pr_files := f (pr_files p)\<rparr>"

section \<open>serve and run\<close>

datatype serve_error = ErrServerClosed | ServeFailed

text \<open>What \<^verbatim>\<open>serve\<close> returns as its own error.\<close>

definition bad_end :: "serve_error option \<Rightarrow> bool" where
  "bad_end err \<longleftrightarrow> err \<noteq> None \<and> err \<noteq> Some ErrServerClosed"

datatype run_result = RunOk | RunError | RunBlocked

text \<open>Where the end of the process cuts a write off that is under way: before the temporary file is opened, after so many bytes, after
  the old file is set aside, after the promotion, or after the old file is back.\<close>

datatype cut = CutBefore | CutWriting nat | CutBacked | CutPromoted | CutRestored

text \<open>\<open>sv_cancelled\<close> says whether the first \<^verbatim>\<open>select\<close> ends by the context, \<open>sv_sent\<close> is what
  the serving goroutine sends (it sends once), \<open>sv_drained\<close> whether \<^verbatim>\<open>Shutdown\<close> comes back within its five seconds. \<open>sv_between\<close>
  are the ticker's steps between the claim and the copy of the final flush, \<open>sv_wait\<close> the faults of a write of the
  ticker that it waits for, \<open>sv_after\<close> the steps after \<^verbatim>\<open>serve\<close> has returned.\<close>

record server_env =
  sv_start :: start_env
  sv_listens :: bool
  sv_events :: "server_event list"
  sv_cancelled :: bool
  sv_sent :: "serve_error option"
  sv_drained :: bool
  sv_between :: "tick list"
  sv_wait :: faults
  sv_faults :: faults
  sv_now :: int
  sv_after :: "tick list"
  sv_cut :: cut

text \<open>\<^verbatim>\<open>flushTrafficIfDirty\<close> at the end of \<^verbatim>\<open>serve\<close>, beside the ticker's.\<close>

definition final_flush :: "server_env \<Rightarrow> process \<Rightarrow> process" where
  "final_flush sv p =
     (if \<not> st_dirty (pr_store p) then p
      else let p1 = fold on_tick (sv_between sv) (set_dirty False p);
               p2 = on_tick (TickWrite (sv_wait sv)) p1
        in (case save_traffic (sv_faults sv) (sv_now sv) (pr_store p2) (pr_files p2) of
              (fs', ok) \<Rightarrow> (if ok then p2 else set_dirty True p2)\<lparr>pr_files := fs'\<rparr>))"

definition before_exit :: "server_env \<Rightarrow> process \<Rightarrow> process" where
  "before_exit sv = fold on_event (sv_events sv)"

text \<open>\<^verbatim>\<open>Shutdown\<close> returns without an error only when no handler is under way.\<close>

definition drained :: "server_env \<Rightarrow> process \<Rightarrow> bool" where
  "drained sv p \<longleftrightarrow> sv_drained sv \<and> pr_marks p = 0"

text \<open>What the two receives find in \<^verbatim>\<open>errCh\<close>: one value is ever sent; the first receive is
  left out when the context ends the \<^verbatim>\<open>select\<close>, and a receive from the empty channel waits for ever.\<close>

definition serve :: "server_env \<Rightarrow> process \<Rightarrow> process \<times> run_result" where
  "serve sv p0 =
     (let p = before_exit sv p0;
          (first, chan) = (if sv_cancelled sv then (None, [sv_sent sv]) else (Some (sv_sent sv), []))
      in if (case first of None \<Rightarrow> False | Some err \<Rightarrow> bad_end err) then (p, RunError)
      else if \<not> drained sv p then (p, RunError)
      else case chan of
          [] \<Rightarrow> (p, RunBlocked)
        | err # _ \<Rightarrow> if bad_end err then (p, RunError) else (final_flush sv p, RunOk))"

definition run_server :: "server_env \<Rightarrow> string \<Rightarrow> fs \<Rightarrow> (fs + process) \<times> run_result" where
  "run_server sv dir fs = (case new_store (sv_start sv) dir fs of
     (fs1, Inl _) \<Rightarrow> (Inl fs1, RunError)
   | (fs1, Inr s) \<Rightarrow> if \<not> sv_listens sv then (Inr (start_process s fs1), RunError)
       else (case serve sv (start_process s fs1) of
           (p, r) \<Rightarrow> (Inr (if r = RunBlocked then p else fold on_tick (sv_after sv) p), r)))"

section \<open>The end of the process\<close>

definition set_aside :: "string \<Rightarrow> fs \<Rightarrow> fs" where
  "set_aside path fs = (case fs path of None \<Rightarrow> fs | Some old \<Rightarrow> fs(bak_of path \<mapsto> old, path := None))"

fun interrupted :: "cut \<Rightarrow> string \<Rightarrow> string \<Rightarrow> fs \<Rightarrow> fs" where
  "interrupted CutBefore path data fs = fs"
| "interrupted (CutWriting n) path data fs = fs(tmp_of path \<mapsto> take n data)"
| "interrupted CutBacked path data fs = set_aside path (fs(tmp_of path \<mapsto> data))"
| "interrupted CutPromoted path data fs = (set_aside path (fs(tmp_of path \<mapsto> data)))(path \<mapsto> data, tmp_of path := None)"
| "interrupted CutRestored path data fs = restore_backup no_faults path (set_aside path (fs(tmp_of path \<mapsto> data)))"

text \<open>The files that a process leaves: a write of the ticker that is under way is cut off.\<close>

definition stopped :: "cut \<Rightarrow> process \<Rightarrow> fs" where
  "stopped c p = (case pr_tick p of
     TickWriting data \<Rightarrow> interrupted c (traffic_path (pr_store p)) data (pr_files p)
   | _ \<Rightarrow> pr_files p)"

text \<open>The exit code of the process; \<open>None\<close> when it never ends.\<close>

definition server_main :: "bool \<Rightarrow> server_env \<Rightarrow> string \<Rightarrow> fs \<Rightarrow> fs \<times> nat option" where
  "server_main show_version sv dir fs = (if show_version then (fs, Some 0) else
     case run_server sv dir fs of
       (Inl fs', r) \<Rightarrow> (fs', Some 1)
     | (Inr p, RunOk) \<Rightarrow> (stopped (sv_cut sv) p, Some 0)
     | (Inr p, RunError) \<Rightarrow> (stopped (sv_cut sv) p, Some 1)
     | (Inr p, RunBlocked) \<Rightarrow> (pr_files p, None))"

text \<open>A write that is cut off is in one of the states of the step relation, so that its crash safety applies.\<close>

lemma set_aside_reach: "aw_reach path data fs (Backed, set_aside path (fs(tmp_of path \<mapsto> data)))"
proof -
  have "aw_reach path data fs (Written, fs(tmp_of path \<mapsto> data))"
    by (rule aw_more [OF written_reach write_ok]) auto
  then have c: "aw_reach path data fs (Closed, fs(tmp_of path \<mapsto> data))" by (meson aw_more close_ok sync_ok)
  show ?thesis
  proof (cases "fs path")
    case None
    then show ?thesis using aw_more [OF c no_old] by (simp add: set_aside_def)
  next
    case (Some old)
    then show ?thesis using aw_more [OF c backup_ok [of _ _ old]] by (simp add: set_aside_def)
  qed
qed

lemma interrupted_reach: "\<exists>q. aw_reach path data fs (q, interrupted c path data fs)"
proof (cases c)
  case (CutWriting n)
  then show ?thesis using written_reach [of "take n data" data] by (auto simp: take_is_prefix)
next
  case CutPromoted
  have "set_aside path (fs(tmp_of path \<mapsto> data)) (tmp_of path) = Some data" by (auto simp: set_aside_def split: option.split)
  then have "aw_step path data (Backed, set_aside path (fs(tmp_of path \<mapsto> data))) (Promoted, interrupted c path data fs)"
    using CutPromoted by (simp add: promote_ok)
  from aw_more [OF set_aside_reach this] show ?thesis by blast
next
  case CutRestored
  have r: "aw_reach path data fs (Restoring, set_aside path (fs(tmp_of path \<mapsto> data)))"
    using set_aside_reach by (blast intro: aw_more promote_fail)
  then show ?thesis using r CutRestored
    by (auto simp: restore_backup_def no_faults_def split: option.split intro: aw_more restore_ok)
next
  case CutBefore
  then show ?thesis using aw_start [of path data fs] by auto
next
  case CutBacked
  then show ?thesis using set_aside_reach [of path data fs] by auto
qed

lemma stopped_crash_safe:
  assumes "pr_files p (traffic_path (pr_store p)) = Some old" and "pr_tick p = TickWriting data"
  defines "path \<equiv> traffic_path (pr_store p)"
  shows "stopped c p path = Some old \<or> stopped c p path = Some data
    \<or> stopped c p path = None \<and> stopped c p (bak_of path) = Some old"
  using interrupted_reach [of path data "pr_files p" c] crash_shape assms by (fastforce simp: stopped_def)

section \<open>Every state is a reachable store\<close>

lemma reach_push_one:
  assumes "store_reach (s, fs)"
  shows "store_reach (fst (push_one uid up down (s, n)), fs)"
proof -
  obtain s' b where a: "accumulate uid up down s = (s', b)" by fastforce
  then show ?thesis using reach_step [OF assms step_accumulate [OF a]] by (simp add: push_one_def)
qed

lemma reach_fold_push:
  assumes "\<And>x s n fs. store_reach (s, fs) \<Longrightarrow> store_reach (fst (f x (s, n)), fs)"
  shows "store_reach (s, fs) \<Longrightarrow> store_reach (fst (fold f xs (s, n)), fs)"
proof (induction xs arbitrary: s n)
  case (Cons x xs)
  obtain s' n' where e: "f x (s, n) = (s', n')" by fastforce
  have "store_reach (s', fs)" using assms [OF Cons.prems, of x n] e by simp
  from Cons.IH [OF this] e show ?case by simp
qed simp

lemma reach_apply_push:
  assumes "store_reach (s, fs)" and "apply_push s raw = (s', resp)"
  shows "store_reach (s', fs)"
proof -
  have e: "store_reach (fst (push_entries es (s, 0)), fs)" for es
    unfolding push_entries_def by (rule reach_fold_push [OF _ assms(1)]) (rule reach_push_one)
  have c: "store_reach (fst (push_compact raw (s, 0)), fs)" for raw
    unfolding push_compact_def
    by (rule reach_fold_push [OF _ assms(1)]) (auto split: prod.splits bool.splits option.splits intro: reach_push_one)
  show ?thesis using assms e c
    by (auto simp: apply_push_def split: option.splits prod.splits bool.splits) (metis fst_conv)+
qed

lemma reach_refresh: "store_reach (s, fs) \<Longrightarrow> refresh_users fl mtime s fs = (s', fs', e) \<Longrightarrow> store_reach (s', fs')"
  by (blast intro: reach_step step_refresh)

lemma reach_dispatch:
  assumes "store_reach x"
  shows "store_reach (fst (dispatch busy fl mtime path r x))"
proof -
  obtain s fs where x: "x = (s, fs)" by fastforce
  have u: "store_reach (s', fs')" if "handle_user fl mtime s fs r = (s', fs', resp)" for s' fs' resp
    using that assms reach_refresh by (auto simp: handle_user_def x split: if_splits sum.splits prod.splits)
  have p: "store_reach (s', fs')" if "handle_push busy fl mtime s fs r = (s', fs', resp)" for s' fs' resp
    using that assms
    by (auto simp: handle_push_def x split: if_splits sum.splits prod.splits push_body.splits bool.splits
        intro: reach_refresh reach_apply_push)
  show ?thesis using assms u p
    by (auto simp: dispatch_def x split: option.split route.split prod.split)
qed

lemma save_traffic_dirty: "save_traffic fl now (s\<lparr>st_dirty := d\<rparr>) fs = save_traffic fl now s fs"
  by (simp add: save_traffic_def traffic_path_def)

abbreviation process_reach :: "process \<Rightarrow> bool" where
  "process_reach p \<equiv> store_reach (pr_store p, pr_files p)"

lemma reach_files: "store_reach (s, fs) \<Longrightarrow> store_reach (s, fs')"
  by (blast intro: reach_step step_disk)

lemma reach_mark: "store_reach (s, fs) \<Longrightarrow> store_reach (s\<lparr>st_dirty := d\<rparr>, fs')"
proof -
  assume r: "store_reach (s, fs)"
  obtain fs1 ok where "save_traffic no_faults 0 s fs = (fs1, ok)" by fastforce
  from reach_files [OF reach_step [OF r step_save [OF this]]] show ?thesis .
qed

lemma reach_tick: "process_reach p \<Longrightarrow> process_reach (on_tick t p)"
  by (cases t) (auto simp: set_dirty_def reach_files reach_mark split: ticker.split prod.split)

lemma reach_ticks: "process_reach p \<Longrightarrow> process_reach (fold on_tick ts p)"
  by (induction ts arbitrary: p) (simp_all add: reach_tick)

lemma reach_event: "process_reach p \<Longrightarrow> process_reach (on_event e p)"
proof (cases e)
  case (Request busy fl mtime path r)
  moreover assume "process_reach p"
  ultimately show ?thesis using reach_dispatch [of "(pr_store p, pr_files p)" busy fl mtime path r]
    by (auto split: prod.split)
next
  case (PushCounters uid up down)
  moreover assume "process_reach p"
  ultimately show ?thesis by (auto split: prod.split intro: reach_mark reach_step step_accumulate)
qed (auto simp: set_dirty_def reach_files reach_mark reach_tick split: nat.split)

lemma reach_events: "process_reach p \<Longrightarrow> process_reach (fold on_event es p)"
  by (induction es arbitrary: p) (simp_all add: reach_event)

lemma reach_final_flush: "process_reach p \<Longrightarrow> process_reach (final_flush sv p)"
proof -
  assume "process_reach p"
  then have "process_reach (set_dirty False p)" by (simp add: set_dirty_def reach_mark)
  then have "process_reach (on_tick (TickWrite fl) (fold on_tick ts (set_dirty False p)))" for fl ts
    by (intro reach_tick reach_ticks)
  then show ?thesis using \<open>process_reach p\<close>
    by (auto simp: final_flush_def Let_def set_dirty_def simp del: on_tick.simps split: prod.split
      intro: reach_files reach_mark)
qed

section \<open>What a restart reads\<close>

definition reads_back :: "store \<Rightarrow> fs \<Rightarrow> bool" where
  "reads_back s fs \<longleftrightarrow> (\<forall>fl now. \<exists>s2. load_traffic fl now (empty_store (st_dir s)) fs = (s2, fs)
     \<and> mget (st_traffic s2) = mget (st_traffic s))"

definition sound_books :: "store \<Rightarrow> bool" where
  "sound_books s \<longleftrightarrow> clean_traffic (st_traffic s) \<and> list_all in_int64 (keys (st_traffic s))"

definition same_books :: "store \<Rightarrow> store \<Rightarrow> bool" where
  "same_books s s' \<longleftrightarrow> st_traffic s' = st_traffic s \<and> st_dir s' = st_dir s"

lemma same_books_intros [simp, intro]:
  "same_books s s" "same_books s (s'\<lparr>st_dirty := d\<rparr>) = same_books s s'" "same_books (s\<lparr>st_dirty := d\<rparr>) s' = same_books s s'"
  by (simp_all add: same_books_def)

lemma written_reads_back:
  assumes "sound_books s" and "traffic_doc_fits now s" and "same_books s s'"
    and "atomic_write fl (traffic_path s') (traffic_bytes now s) fs = (fs', True)"
  shows "reads_back s fs'"
proof -
  have "save_traffic fl now s fs = (fs', True)"
    using assms(3,4) by (simp add: save_traffic_def traffic_bytes_def same_books_def traffic_path_def)
  with assms(1,2) show ?thesis unfolding reads_back_def sound_books_def
    by (intro allI saved_traffic_restart) (simp_all add: empty_store_def)
qed

text \<open>The counters \<open>s\<close> are not forgotten: either they are in the file, or the flag is set, or the ticker has still to
  write them.\<close>

definition accounted :: "store \<Rightarrow> process \<Rightarrow> bool" where
  "accounted s p \<longleftrightarrow> same_books s (pr_store p)
     \<and> (pr_tick p = TickIdle \<longrightarrow> st_dirty (pr_store p) \<or> reads_back s (pr_files p))
     \<and> (\<forall>data. pr_tick p = TickWriting data \<longrightarrow> (\<exists>now. data = traffic_bytes now s \<and> traffic_doc_fits now s))"

fun copied_at :: "tick \<Rightarrow> int list" where
  "copied_at (TickCopy now) = [now]"
| "copied_at _ = []"

lemma tick_books [simp]: "same_books s (pr_store (on_tick t p)) = same_books s (pr_store p)"
  by (cases t) (auto simp: set_dirty_def same_books_def split: ticker.split prod.split)

lemma ticks_books [simp]: "same_books s (pr_store (fold on_tick ts p)) = same_books s (pr_store p)"
  by (induction ts arbitrary: p) simp_all

lemma bytes_books: "same_books s s' \<Longrightarrow> traffic_bytes now s' = traffic_bytes now s"
  by (simp add: same_books_def traffic_bytes_def)

lemma tick_accounted:
  assumes "accounted s p" and "sound_books s" and "\<forall>now \<in> set (copied_at t). traffic_doc_fits now s"
  shows "accounted s (on_tick t p)"
proof (cases t)
  case (TickWrite fl)
  then show ?thesis using assms
    by (auto simp: accounted_def split: ticker.splits prod.splits intro: written_reads_back)
qed (use assms in \<open>auto simp: accounted_def set_dirty_def bytes_books\<close>)

lemma ticks_accounted:
  "accounted s p \<Longrightarrow> sound_books s \<Longrightarrow> \<forall>now \<in> set (concat (map copied_at ts)). traffic_doc_fits now s
    \<Longrightarrow> accounted s (fold on_tick ts p)"
  by (induction ts arbitrary: p) (simp_all add: tick_accounted ball_Un)

lemma write_ends: "\<nexists>data. pr_tick (on_tick (TickWrite fl) p) = TickWriting data"
  by (auto split: ticker.split prod.split)

lemma final_flush_accounted:
  assumes "sound_books (pr_store p)" and "traffic_doc_fits (sv_now sv) (pr_store p)" and "st_dirty (pr_store p)"
  shows "accounted (pr_store p) (final_flush sv p)"
proof -
  let ?s = "pr_store p"
  define p2 where "p2 = on_tick (TickWrite (sv_wait sv)) (fold on_tick (sv_between sv) (set_dirty False p))"
  have b: "same_books ?s (pr_store p2)" by (simp add: p2_def set_dirty_def del: on_tick.simps)
  have n: "\<nexists>data. pr_tick p2 = TickWriting data" by (simp add: p2_def write_ends del: on_tick.simps)
  obtain fs' ok where w: "save_traffic (sv_faults sv) (sv_now sv) (pr_store p2) (pr_files p2) = (fs', ok)" by fastforce
  have "atomic_write (sv_faults sv) (traffic_path (pr_store p2)) (traffic_bytes (sv_now sv) ?s) (pr_files p2) = (fs', ok)"
    using w b by (simp add: save_traffic_def traffic_bytes_def same_books_def)
  then have "reads_back ?s fs'" if ok using written_reads_back [OF assms(1,2) b] that by simp
  moreover have "final_flush sv p = (if ok then p2 else set_dirty True p2)\<lparr>pr_files := fs'\<rparr>"
    using assms(3) w by (simp add: final_flush_def Let_def p2_def del: on_tick.simps)
  ultimately show ?thesis using b n by (auto simp: accounted_def set_dirty_def)
qed

lemma final_flush_books [simp]: "same_books s (pr_store (final_flush sv p)) = same_books s (pr_store p)"
  by (auto simp: final_flush_def Let_def set_dirty_def simp del: on_tick.simps split: prod.split)

text \<open>Without the ticker, the final flush is \<^verbatim>\<open>flushTrafficIfDirty\<close> as a function.\<close>

lemma final_flush_alone:
  assumes "sv_between sv = []" and "pr_tick p = TickIdle"
    and "flush_traffic_if_dirty (sv_faults sv) (sv_now sv) (pr_store p) (pr_files p) = (s, fs)"
  shows "final_flush sv p = p\<lparr>pr_store := s, pr_files := fs\<rparr>"
  using assms by (auto simp: final_flush_def flush_traffic_if_dirty_def Let_def set_dirty_def split: prod.splits if_splits)

section \<open>Shutdown\<close>

lemma idle_ticks: "\<not> st_dirty (pr_store p) \<Longrightarrow> pr_tick p = TickIdle \<Longrightarrow> fold on_tick ts p = p"
proof (induction ts)
  case (Cons t ts)
  then have "on_tick t p = p" by (cases t) simp_all
  with Cons show ?case by simp
qed simp

lemma serve_cases:
  fixes sv :: server_env
  defines "p0 \<equiv> \<lambda>p. before_exit sv p"
  shows "serve sv p = (if \<not> sv_cancelled sv \<and> bad_end (sv_sent sv) \<or> \<not> drained sv (p0 p) then (p0 p, RunError)
    else if \<not> sv_cancelled sv then (p0 p, RunBlocked)
    else if bad_end (sv_sent sv) then (p0 p, RunError) else (final_flush sv (p0 p), RunOk))"
  unfolding p0_def by (simp add: serve_def Let_def)


definition demo_server :: server_env where
  "demo_server = \<lparr>sv_start = demo_env, sv_listens = True, sv_events = [Tick TickClaim, Tick (TickCopy 5), Tick (TickWrite no_faults)],
     sv_cancelled = True, sv_sent = Some ErrServerClosed, sv_drained = True, sv_between = [], sv_wait = no_faults,
     sv_faults = no_faults, sv_now = 9, sv_after = [], sv_cut = CutBefore\<rparr>"


section \<open>The race at shutdown\<close>

lemma push_then_mark:
  assumes "accumulate uid up down (pr_store q) = (s', True)" and "pr_marks q = 0"
  shows "on_event PushMark (on_event (PushCounters uid up down) q) = q\<lparr>pr_store := s'\<rparr>"
  using assms by (auto simp: set_dirty_def accumulate_def Let_def split: if_splits)

lemma added_differs: "up \<noteq> 0 \<or> down \<noteq> 0 \<Longrightarrow> \<lparr>upload = upload t + up, download = download t + down\<rparr> \<noteq> t"
  by (cases t) auto

lemma accumulate_books:
  assumes "accumulate uid up down s = (s', True)" and "up \<noteq> 0 \<or> down \<noteq> 0"
  shows "st_dirty s' \<and> st_dir s' = st_dir s \<and> mget (st_traffic s') uid \<noteq> mget (st_traffic s) uid"
  using assms by (auto simp: accumulate_def Let_def gomap_simps added_differs split: if_splits option.splits)


definition racing_server :: server_env where
  "racing_server = demo_server\<lparr>sv_events := [PushCounters 1 3 4, PushMark]\<rparr>"

lemma demo_pushed:
  defines "s' \<equiv> traffic_store\<lparr>st_traffic := [(1, \<lparr>upload = 8, download = 11\<rparr>)], st_dirty := True\<rparr>"
  shows "accumulate 1 3 4 traffic_store = (s', True)" and "sound_books s'" and "traffic_doc_fits 9 s'"
  by (simp_all add: s'_def accumulate_def traffic_store_def demo_store_def empty_store_def sound_books_def clean_traffic_def
      in_int64_def min_int64_def max_int64_def traffic_snapshot_def enc_traffic_file_def enc_traffic_def sorted_entries_def
      known_version_def print_simps)


end
