(* ===== verification/ServerMain.thy ===== *)
theory ServerMain
  imports Serve GoFlags
begin

text \<open>
  The process \<^verbatim>\<open>tiny-xboard\<close> from its command line to its exit code: \<^verbatim>\<open>main\<close> of
  \<^verbatim>\<open>tiny-xboard/main.go\<close> with its three flags. What the machine does for a listen address
  (whether it can be bound, which requests arrive, how serving ends) is the argument \<open>sv\<close>.
\<close>

record server_flags =
  sf_dir :: string
  sf_listen :: string
  sf_version :: bool

definition server_defaults :: server_flags where
  "server_defaults = \<lparr>sf_dir = ''/etc/tiny-xboard'', sf_listen = ''127.0.0.1:8080'', sf_version = False\<rparr>"

definition server_flag_set :: "(string \<times> server_flags flag) list" where
  "server_flag_set = [(''dir'', StringFlag (\<lambda>v. sf_dir_update (\<lambda>_. v))), (''listen'', StringFlag (\<lambda>v. sf_listen_update (\<lambda>_. v))),
     (''version'', BoolFlag (\<lambda>v. sf_version_update (\<lambda>_. v)))]"

definition server_process :: "(string \<Rightarrow> server_env) \<Rightarrow> string list \<Rightarrow> fs \<Rightarrow> fs \<times> nat option" where
  "server_process sv args files = (case parse_command_line server_flag_set args server_defaults of
     FlagExit n \<Rightarrow> (files, Some n)
   | Parsed f \<Rightarrow> server_main (sf_version f) (sv (sf_listen f)) (sf_dir f) files)"

lemma server_main_exit:
  assumes "server_main show sv d files = (files', code)"
  shows "code = None \<or> code = Some 0 \<or> code = Some 1"
    and "sv_cancelled sv \<Longrightarrow> code \<noteq> None"
    and "code = None \<Longrightarrow> \<not> bad_end (sv_sent sv) \<and> sv_drained sv"
  using assms
  by (auto simp: server_main_def run_server_def serve_cases drained_def split: if_splits prod.splits sum.splits run_result.splits)

text \<open>A command line that cannot be read, a request for help and a request for the version leave the files alone
  and end at once; a process that is told to stop always ends.\<close>

theorem server_process_ends:
  assumes "server_process sv args files = (files', code)"
  shows "case parse_command_line server_flag_set args server_defaults of
      FlagExit n \<Rightarrow> files' = files \<and> code = Some n \<and> n \<in> {0, 2}
    | Parsed f \<Rightarrow> (if sf_version f then files' = files \<and> code = Some 0
        else (sv_cancelled (sv (sf_listen f)) \<longrightarrow> code = Some 0 \<or> code = Some 1))"
proof (cases "parse_command_line server_flag_set args server_defaults")
  case (FlagExit n)
  then show ?thesis using assms parse_exit_code [OF FlagExit] by (auto simp: server_process_def)
next
  case (Parsed f)
  then have m: "server_main (sf_version f) (sv (sf_listen f)) (sf_dir f) files = (files', code)"
    using assms by (simp add: server_process_def)
  then have "sf_version f \<Longrightarrow> files' = files \<and> code = Some 0" by (simp add: server_main_def)
  then show ?thesis using server_main_exit(1,2) [OF m] by (auto simp: Parsed)
qed

end
