(* ===== verification/Spec2Isabelle.thy ===== *)
theory Spec2Isabelle
  imports Delivery Routed Shaping Generate AgentMain ServerMain
begin

text \<open>
  A verification library for mini-sb-xboard-agent: two Go programs that share a proxy node.
  \<^verbatim>\<open>mini-sb-agent\<close> (\<^verbatim>\<open>cmd/mini-sb-agent\<close>, with the packages
  \<^verbatim>\<open>counter\<close> and \<^verbatim>\<open>panelapi\<close>) wraps sing-box: it counts and
  limits the traffic of every user, reports it to a panel and takes the list of users from it.
  \<^verbatim>\<open>tiny-xboard\<close> is such a panel: it keeps nodes, users and traffic in JSON files and
  serves them over HTTP.

  \<^bold>\<open>How the parts interact.\<close> A connection enters through the hook, which resolves its secret to a
  user id, takes the user's counter of the inbound and wraps the connection in the counter, the
  node's limiters and the user's limiters. The synchroniser wakes up every minute: it fetches the
  users and gives them to the user manager, which changes the inbounds, the secrets and the limiters,
  lets the hook forget absent users, and pushes the uncommitted traffic; what the panel has accepted
  is committed. The server checks the credentials of a request, reads its users file again when it has
  changed, books the pushed amounts and writes the books to disk when the flusher finds them changed.

  \<^bold>\<open>Theories and sources.\<close>
  \<^item> \<open>Prelude\<close>, \<open>GoString\<close>, \<open>GoPath\<close>, \<open>Float64\<close>, \<open>GoFlags\<close>: Go's machine integers, maps, strings, paths,
    floats and command lines with the texts of numbers and durations, as far as the sources use them. \<open>Json\<close>, \<open>JsonRoundtrip\<close> and \<open>Decode\<close>:
    \<^verbatim>\<open>encoding/json\<close>, its printer, its parser, its rules for storing into variables
    that already hold something, and the round trip of any well-formed value.
  \<^item> \<open>Traffic\<close> is \<^verbatim>\<open>counter/counter.go\<close>: \<open>tcounter\<close> with its heap of
    \<open>storage\<close>, one function per method. \<open>RateLimit\<close> is the token bucket of
    \<^verbatim>\<open>counter/ratelimit.go\<close>, \<open>RateConn\<close> the limited connections of the same file and
    \<open>Shaping\<close> what the bucket promises.
  \<^item> \<open>Sync\<close> is \<^verbatim>\<open>panelapi/sync.go\<close>, \<open>Client\<close> is \<^verbatim>\<open>client.go\<close>,
    \<^verbatim>\<open>multi.go\<close>, \<^verbatim>\<open>local.go\<close> and \<^verbatim>\<open>types.go\<close>,
    \<open>NodeConfig\<close> is \<^verbatim>\<open>node_config.go\<close>.
  \<^item> \<open>Hook\<close> and \<open>Routed\<close> are the hook of \<^verbatim>\<open>cmd/mini-sb-agent/main.go\<close> and the
    stack of wrappers it builds, \<open>UserManager\<close> is \<^verbatim>\<open>user_manager.go\<close>,
    \<open>AgentConfig\<close> is \<^verbatim>\<open>xboard_config.go\<close>, \<open>AgentOptions\<close> and \<open>Agent\<close> are the
    loading of the options and the wiring of \<^verbatim>\<open>main\<close>, \<open>RuntimeDebug\<close> is
    \<^verbatim>\<open>runtime_debug.go\<close>. \<open>AgentMain\<close> is \<^verbatim>\<open>main\<close> as a process
    (\<open>agent_process\<close>), with its flags, the registries and the build tags.
  \<^item> \<open>Schema\<close>, \<open>Nodes\<close>, \<open>Store\<close> are \<^verbatim>\<open>tiny-xboard/store.go\<close>: its documents, their
    validation and conversion, and the store. \<open>Persist\<close> is \<^verbatim>\<open>persist.go\<close>,
    \<open>Reality\<close> is \<^verbatim>\<open>reality.go\<close> with base64url and X25519, \<open>Api\<close> is
    \<^verbatim>\<open>auth.go\<close> and \<^verbatim>\<open>api.go\<close>, \<open>Flusher\<close>, \<open>Serve\<close> and
    \<open>ServerMain\<close> are \<^verbatim>\<open>main.go\<close>.

  Structs are records, pointers that are shared are addresses into an explicit heap (the storages of
  a counter, the limiters of a user manager), Go maps are association lists with distinct keys whose
  order stands for the iteration order of the run, errors are values, and every operation takes what
  it does not control as an argument: the clock, random bytes, modification times, the faults of each
  system call, what other goroutines do between two locked steps, the network (\<open>tr\<close>), the user
  operations of sing-box (\<open>ops\<close>) and its options parser (\<open>parse\<close>).

  \<^bold>\<open>Interfaces.\<close> \<open>codec\<close> (\<open>Decode\<close>) is what persistence needs of a document and is interpreted for the
  four state documents; \<open>traffic_source\<close> (\<open>Sync\<close>) is what the synchroniser needs of its callbacks and is
  interpreted for the hook and for the whole agent; \<open>metered\<close> (\<open>Metering\<close>) extends it by what a panel promises for one
  user's account and is interpreted for the agent's client and the server behind an unreliable network;
  \<open>guarded_panel\<close> (\<open>AgentMain\<close>) is a panel that keeps a part of the world, interpreted for the three kinds of panel
  that the agent chooses from; \<open>rounding\<close> (\<open>Float64\<close>) is what the limiter needs of
  floats and is interpreted for rounding to 53 bits.

  \<^bold>\<open>What the lemmas show.\<close>
  \<^item> Accounting: snapshot and commit neither lose nor double-count a byte, whatever arrives in
    between (\<open>Traffic\<close>, \<open>Hook\<close>); a push of the client raises the server's books by what the agent reported
    (\<open>Billing\<close>); over a whole flush, traffic is conserved from the agent's sockets to the server's
    books (\<open>Conservation\<close>, with the two cases where it is not). What is written is billed, and what is read too (\<open>Routed\<close>).
  \<^item> Users: the server's enabled users are what the agent fetches and their secrets resolve to their
    ids (\<open>Identity\<close>); the inbounds admit exactly them (\<open>Membership\<close>), the limiters follow their limits
    (\<open>UserLimits\<close>), connections get the right counter and limiters (\<open>Wiring\<close>), and all this
    together after a round of the synchroniser and over the agent's life (\<open>Agent\<close>). \<open>Round\<close> runs one whole
    round of the agent's synchroniser against the server's handlers: users and traffic at once.
  \<^item> Failures: over a network that loses requests and answers, for any number of rounds, every counted byte is
    booked or still pending, and exactly the requests with a lost answer are booked again (\<open>Delivery\<close>).
  \<^item> Limits: the bytes that pass are bounded by the burst plus rate times time, with explicit slack for
    rounding, and a wait ends and is as long as the rate demands (\<open>Shaping\<close>).
  \<^item> Storage: the atomic replacement of a file as a step relation with faults and crashes
    (\<open>Persist\<close>), the invariant of every reachable store (\<open>StoreProps\<close>), what a restart reads back (\<open>Durable\<close>,
    \<open>Restart\<close>), the interleaving of pushes with the ticker's and the final flush (\<open>Flusher\<close>) and the end of the process
    (\<open>Serve\<close>): the ticker's flush goes on step by step beside the requests, beside the shutdown and up to the exit, and when it
    holds the claim at the final flush, the last traffic is lost.
  \<^item> Configuration: what the server serves for a node is an inbound the agent accepts
    (\<open>ConfigEndToEnd\<close>), and the command's exit code tells whether it was written (\<open>Generate\<close>).
  \<^item> Processes: command lines are read back as they were written, and the exit codes of the two programs tell
    what has happened by then and what may have been touched (\<open>AgentMain\<close>, \<open>ServerMain\<close>).

  \<^bold>\<open>Bounds and fuel.\<close> The JSON parser runs on the fuel \<open>2 * length + 2\<close>, which \<open>JsonRoundtrip\<close> proves
  enough for every text that the encoder prints. Loops over data are structural or have a proved measure. The loop of a waiting
  goroutine is driven by the list of what the others do, one batch for each locked step and each sleep,
  and \<open>Shaping\<close> proves that it returns. Counters are 64-bit words and wrap as in Go.

  \<^bold>\<open>Assumptions.\<close> Floats are finite and far from overflow; whether the compiler fuses multiply and add is an
  argument (\<open>fused\<close>). Clocks do not run during an atomic operation. In \<open>Serve\<close> a request that is not a push, and the
  replacement of one file, are single events unless the end of the process cuts the latter off (no other goroutine touches its paths), and nobody edits the
  state directory during the final flush. Strings are valid UTF-8; the
  non-ASCII letter and space tables of Go's \<^verbatim>\<open>unicode\<close>, the escapes of U+2028 and U+2029 and
  the nesting limit of \<^verbatim>\<open>encoding/json\<close> are left out. \<^verbatim>\<open>os.Stat\<close> fails only
  for missing files. Paths are the keys of the file system as they are spelled; the state directory of the server
  is given in clean form. URL queries reach the server as they were set. Inbound tags are distinct.

  \<^bold>\<open>Not modelled.\<close> What sing-box does with its registries and options, the HTTP and Unix listeners, signals,
  log lines and the tuning of the Go runtime are calls into libraries: their outcomes are arguments of \<open>agent_process\<close>
  and \<open>server_process\<close>. In \<open>agent_process\<close> the goroutine of the synchroniser has handled its wake-ups when the process ends,
  and the rows of the debug log are left to \<open>start_runtime_debug_logger\<close>. The certificate that
  \<^verbatim>\<open>crypto/x509\<close> makes is an argument. The shell scripts that install and package the programs are outside the development.
\<close>

end
